(* ===== verification/Prelude.thy ===== *)
theory Prelude
  imports Complex_Main "HOL-Library.AList" "HOL-Library.Multiset"
    "HOL-Library.Product_Lexorder" "HOL-Library.List_Lexorder" "HOL-Library.Char_ord"
begin

section \<open>Prelude: Python values, dictionaries and sorting\<close>

text \<open>
  What every component shares. Exceptions raised by the Python code are values of
  \<open>py_error\<close>, the left side of a sum. A Python \<open>dict\<close> keeps insertion order, which the
  code observes (the ties of a stable sort, the first minimum of a \<open>min\<close>), so a dictionary
  is an association list: \<open>AList.update\<close> keeps the position of an existing key and appends
  a new one, \<open>AList.delete\<close> is \<open>pop\<close>. Floating point numbers are exact reals: rounding,
  infinities and NaN are not part of this layer.
\<close>

named_theorems dict_simps \<open>lookups, lengths and sums of updated dictionaries\<close>
named_theorems wf_intros \<open>well-formedness of the state after an operation\<close>

datatype py_error =
    KeyError
  | IndexError
  | ValueError
  | TypeError
  | AttributeError
  | ZeroDivisionError
  | RuntimeError
  | OverflowError
  | OSError
  | TimeoutExpired

subsection \<open>Dictionaries\<close>

declare map_of_eq_Some_iff [simp del] Some_eq_map_of_iff [simp del]

type_synonym ('k, 'v) dict = "('k \<times> 'v) list"

abbreviation dict_keys :: "('k, 'v) dict \<Rightarrow> 'k list" where
  "dict_keys d \<equiv> map fst d"

abbreviation dict_values :: "('k, 'v) dict \<Rightarrow> 'v list" where
  "dict_values d \<equiv> map snd d"

abbreviation wf_dict :: "('k, 'v) dict \<Rightarrow> bool" where
  "wf_dict d \<equiv> distinct (dict_keys d)"

definition dict_del :: "'k \<Rightarrow> ('k, 'v) dict \<Rightarrow> py_error + ('k, 'v) dict" where
  \<comment> \<open>\<open>del d[k]\<close>, which raises on a missing key; \<open>d.pop(k, None)\<close> is \<open>AList.delete\<close>\<close>
  "dict_del k d = (if k \<in> set (dict_keys d) then Inr (AList.delete k d) else Inl KeyError)"

definition dict_sum :: "('v \<Rightarrow> 'a::ab_group_add) \<Rightarrow> ('k, 'v) dict \<Rightarrow> 'a" where
  "dict_sum f d = sum_list (map f (dict_values d))"

lemma map_of_update [simp, dict_simps]:
  "map_of (AList.update k v d) k' = (if k' = k then Some v else map_of d k')"
  by (simp add: update_conv')

lemma map_of_delete [simp, dict_simps]:
  "map_of (AList.delete k d) k' = (if k' = k then None else map_of d k')"
  by (simp add: delete_conv')

lemma wf_dict_update [simp, intro]: "wf_dict d \<Longrightarrow> wf_dict (AList.update k v d)"
  by (rule distinct_update)

lemma wf_dict_delete [simp, intro]: "wf_dict d \<Longrightarrow> wf_dict (AList.delete k d)"
  by (rule distinct_delete)

lemma map_of_eq_None_keys: "map_of d k = None \<longleftrightarrow> k \<notin> set (dict_keys d)"
  by (auto simp: map_of_eq_None_iff)

lemma map_of_in_values: "map_of d k = Some v \<Longrightarrow> v \<in> set (dict_values d)"
  by (force dest: map_of_SomeD)

lemma values_map_of: "wf_dict d \<Longrightarrow> v \<in> set (dict_values d) \<Longrightarrow> \<exists>k. map_of d k = Some v"
  by (auto simp: map_of_eq_Some_iff)

lemma keys_update [dict_simps]: "set (dict_keys (AList.update k v d)) = insert k (set (dict_keys d))"
  by (auto simp: dom_update)

lemma keys_delete [dict_simps]: "set (dict_keys (AList.delete k d)) = set (dict_keys d) - {k}"
  by (auto simp: delete_keys)

lemma set_delete: "set (AList.delete k d) = {p \<in> set d. fst p \<noteq> k}"
  by (induction d) auto

lemma set_update_subset: "set (AList.update k v d) \<subseteq> insert (k, v) (set d)"
  by (induction d) auto

lemma set_update:
  "wf_dict d \<Longrightarrow> set (AList.update k v d) = insert (k, v) {p \<in> set d. fst p \<noteq> k}"
  by (induction d) (auto simp: image_iff)

lemma delete_notin: "map_of d k = None \<Longrightarrow> AList.delete k d = d"
  by (induction d) (auto split: if_splits)

lemma length_delete_le: "length (AList.delete k d) \<le> length d"
  by (induction d) auto

lemma length_delete_less: "k \<in> set (dict_keys d) \<Longrightarrow> length (AList.delete k d) < length d"
  by (induction d) (auto simp: less_Suc_eq_le length_delete_le rev_image_eqI)

lemma length_delete [dict_simps]:
  "wf_dict d \<Longrightarrow> int (length (AList.delete k d)) =
     int (length d) - (if map_of d k = None then 0 else 1)"
proof (induction d)
  case (Cons p d)
  have "map_of d (fst p) = None" using Cons.prems by (simp add: map_of_eq_None_keys)
  with Cons show ?case by (cases p) (auto simp: delete_notin)
qed simp

lemma length_update [dict_simps]:
  "int (length (AList.update k v d)) = int (length d) + (if map_of d k = None then 1 else 0)"
  by (induction d) auto

lemma dict_sum_Nil [simp]: "dict_sum f [] = 0"
  by (simp add: dict_sum_def)

lemma dict_sum_Cons [simp]: "dict_sum f ((k, v) # d) = f v + dict_sum f d"
  by (simp add: dict_sum_def)

lemma dict_sum_delete [dict_simps]:
  "wf_dict d \<Longrightarrow> dict_sum f (AList.delete k d) =
     dict_sum f d - (case map_of d k of None \<Rightarrow> 0 | Some v \<Rightarrow> f v)"
proof (induction d)
  case (Cons p d)
  have "map_of d (fst p) = None" using Cons.prems by (simp add: map_of_eq_None_keys)
  with Cons show ?case by (cases p) (auto simp: delete_notin)
qed simp

lemma dict_sum_update [dict_simps]:
  "wf_dict d \<Longrightarrow> dict_sum f (AList.update k v d) =
     dict_sum f d - (case map_of d k of None \<Rightarrow> 0 | Some w \<Rightarrow> f w) + f v"
  by (induction d)
    (auto simp: algebra_simps simp del: map_of_eq_Some_iff split: option.splits)

lemma dict_sum_nonneg:
  fixes f :: "'v \<Rightarrow> 'a::ordered_ab_group_add"
  shows "(\<And>v. v \<in> set (dict_values d) \<Longrightarrow> 0 \<le> f v) \<Longrightarrow> 0 \<le> dict_sum f d"
  by (induction d) (auto simp: dict_sum_def)

lemma dict_sum_member_le:
  fixes f :: "'v \<Rightarrow> 'a::ordered_ab_group_add"
  assumes "\<And>v. v \<in> set (dict_values d) \<Longrightarrow> 0 \<le> f v" and "v \<in> set (dict_values d)"
  shows "f v \<le> dict_sum f d"
  using assms
proof (induction d)
  case Nil
  then show ?case by simp
next
  case (Cons p d)
  obtain k w where p: "p = (k, w)" by fastforce
  have "0 \<le> dict_sum f d" using Cons.prems(1) by (intro dict_sum_nonneg) auto
  with Cons p show ?case by (auto intro: add_increasing add_increasing2)
qed

lemma dict_del_Inr: "dict_del k d = Inr d' \<longleftrightarrow> k \<in> set (dict_keys d) \<and> d' = AList.delete k d"
  by (auto simp: dict_del_def)

subsection \<open>Sorting\<close>

text \<open>
  Python's \<open>sorted\<close> is stable, and so is \<open>sort_key\<close>. With \<open>reverse=True\<close> the result is
  descending and still stable, which is the reverse of the ascending sort of the reversed list.
\<close>

definition sorted_desc :: "('a \<Rightarrow> 'b::linorder) \<Rightarrow> 'a list \<Rightarrow> 'a list" where
  "sorted_desc key xs = rev (sort_key key (rev xs))"

lemma mset_sorted_desc [simp]: "mset (sorted_desc key xs) = mset xs"
  by (simp add: sorted_desc_def)

lemma set_sorted_desc [simp]: "set (sorted_desc key xs) = set xs"
  by (simp add: sorted_desc_def)

lemma sorted_desc_sorted: "sorted_wrt (\<lambda>x y. key y \<le> key x) (sorted_desc key xs)"
proof -
  have "sorted (map key (sort_key key (rev xs)))" by simp
  then show ?thesis by (simp add: sorted_desc_def sorted_wrt_rev sorted_map)
qed

lemma sorted_desc_stable: "filter (\<lambda>y. key y = k) (sorted_desc key xs) = filter (\<lambda>y. key y = k) xs"
  by (simp add: sorted_desc_def rev_filter [symmetric] sort_key_stable)

lemma arg_min_list_least: "x \<in> set xs \<Longrightarrow> f (arg_min_list f xs) \<le> f x"
  by (cases "xs = []") (auto simp: f_arg_min_list_f)

subsection \<open>Sums\<close>

lemma sum_cases_Inr: "(case x of Inl e \<Rightarrow> Inl e | Inr a \<Rightarrow> f a) = Inr b \<longleftrightarrow> (\<exists>a. x = Inr a \<and> f a = Inr b)"
  by (cases x) auto

lemma sum_list_mset_cong: "mset xs = mset ys \<Longrightarrow> sum_list (map f xs) = sum_list (map f (ys :: 'b list))"
  for f :: "'b \<Rightarrow> 'a::comm_monoid_add"
  by (metis mset_map sum_mset_sum_list)

end
