(* ===== verification/PyText.thy ===== *)
theory PyText
  imports Prelude
begin

section \<open>Python strings, \<open>int()\<close> and \<open>float()\<close>\<close>

text \<open>
  The parts of Python's text handling the program uses: \<open>str.strip\<close>, \<open>str.lower\<close>,
  \<open>str.split(",")\<close>, \<open>str.rstrip(",")\<close>, \<open>str(int)\<close>, \<open>int(str)\<close> and \<open>float(str)\<close>. A string is a
  list of code points below 256. \<open>float(str)\<close> returns the exact decimal value, except that
  values too large or too small for a double become an infinity or zero, as they do in Python;
  rounding to 53 bits is not modelled.
\<close>

subsection \<open>Characters\<close>

definition code :: "char \<Rightarrow> nat" where
  "code c = of_char c"

definition is_space :: "char \<Rightarrow> bool" where
  "is_space c \<longleftrightarrow> code c \<in> {9, 10, 11, 12, 13, 28, 29, 30, 31, 32, 133, 160}"

definition is_digit :: "char \<Rightarrow> bool" where
  "is_digit c \<longleftrightarrow> 48 \<le> code c \<and> code c \<le> 57"

definition digit_value :: "char \<Rightarrow> int" where
  "digit_value c = int (code c) - 48"

definition digit_char :: "int \<Rightarrow> char" where
  "digit_char d = char_of (nat (d + 48))"

definition lower_char :: "char \<Rightarrow> char" where
  "lower_char c =
     (if 65 \<le> code c \<and> code c \<le> 90 \<or> 192 \<le> code c \<and> code c \<le> 222 \<and> code c \<noteq> 215
      then char_of (code c + 32) else c)"

definition lower :: "string \<Rightarrow> string" where
  "lower s = map lower_char s"

definition strip_by :: "(char \<Rightarrow> bool) \<Rightarrow> string \<Rightarrow> string" where
  "strip_by p s = rev (dropWhile p (rev (dropWhile p s)))"

definition strip :: "string \<Rightarrow> string" where
  "strip s = strip_by is_space s"

definition rstrip_comma :: "string \<Rightarrow> string" where
  "rstrip_comma s = rev (dropWhile (\<lambda>c. c = CHR '','') (rev s))"

fun split_comma :: "string \<Rightarrow> string list" where
  "split_comma [] = [[]]"
| "split_comma (c # cs) =
     (if c = CHR '','' then [] # split_comma cs
      else (c # hd (split_comma cs)) # tl (split_comma cs))"

subsection \<open>\<open>int()\<close> and \<open>str()\<close> of an integer\<close>

text \<open>Digits with single underscores between them; the flag says the last character was a digit.\<close>

fun parse_digits :: "bool \<Rightarrow> int \<Rightarrow> string \<Rightarrow> int option" where
  "parse_digits after_digit acc [] = (if after_digit then Some acc else None)"
| "parse_digits after_digit acc (c # cs) =
     (if is_digit c then parse_digits True (10 * acc + digit_value c) cs
      else if c = CHR ''_'' \<and> after_digit then parse_digits False acc cs
      else None)"

fun py_sign :: "string \<Rightarrow> int \<times> string" where
  "py_sign [] = (1, [])"
| "py_sign (c # cs) =
     (if c = CHR ''-'' then (-1, cs) else if c = CHR ''+'' then (1, cs) else (1, c # cs))"

definition py_int :: "string \<Rightarrow> int option" where
  "py_int s =
     (let (sg, ds) = py_sign (strip s) in map_option (\<lambda>v. sg * v) (parse_digits False 0 ds))"

fun nat_digits :: "nat \<Rightarrow> string" where
  "nat_digits n =
     (if n < 10 then [digit_char (int n)]
      else nat_digits (n div 10) @ [digit_char (int (n mod 10))])"

declare nat_digits.simps [simp del]

definition py_str_int :: "int \<Rightarrow> string" where
  "py_str_int i = (if i < 0 then CHR ''-'' # nat_digits (nat (- i)) else nat_digits (nat i))"

lemma code_char_of: "n < 256 \<Longrightarrow> code (char_of n) = n"
  by (simp add: code_def of_char_of)

lemma digit_char [simp]:
  assumes "0 \<le> d" "d < 10"
  shows "is_digit (digit_char d)" "digit_value (digit_char d) = d"
  using assms by (simp_all add: is_digit_def digit_value_def digit_char_def code_char_of nat_le_iff le_nat_iff)

lemma is_digit_facts:
  assumes "is_digit c"
  shows "\<not> is_space c" "c \<noteq> CHR ''_''" "c \<noteq> CHR ''-''" "c \<noteq> CHR ''+''" "c \<noteq> CHR '',''"
proof -
  show "\<not> is_space c" using assms by (auto simp: is_digit_def is_space_def)
  show "c \<noteq> CHR ''_''" "c \<noteq> CHR ''-''" "c \<noteq> CHR ''+''" "c \<noteq> CHR '',''"
    using assms by (auto simp: is_digit_def code_def)
qed

lemma parse_digits_append:
  "\<forall>c \<in> set s. is_digit c \<Longrightarrow> s \<noteq> [] \<or> b \<Longrightarrow>
     parse_digits b acc (s @ t) = parse_digits True (foldl (\<lambda>a c. 10 * a + digit_value c) acc s) t"
  by (induction s arbitrary: b acc) auto

lemma nat_digits_digits: "c \<in> set (nat_digits n) \<Longrightarrow> is_digit c"
proof (induction n rule: nat_digits.induct)
  case (1 n)
  then show ?case by (cases "n < 10") (auto simp: nat_digits.simps [of n])
qed

lemma nat_digits_nonempty [simp]: "nat_digits n \<noteq> []"
  by (subst nat_digits.simps) simp

lemma nat_digits_ends: "is_digit (hd (nat_digits n))" "is_digit (last (nat_digits n))"
  by (rule nat_digits_digits [of _ n], simp)+

lemma nat_digits_value: "foldl (\<lambda>a c. 10 * a + digit_value c) 0 (nat_digits n) = int n"
proof (induction n rule: nat_digits.induct)
  case (1 n)
  have "10 * int (n div 10) + int (n mod 10) = int n" by presburger
  with 1 show ?case by (cases "n < 10") (simp_all add: nat_digits.simps [of n])
qed

lemma parse_nat_digits: "parse_digits False 0 (nat_digits n) = Some (int n)"
  using parse_digits_append [of "nat_digits n" False 0 "[]"] nat_digits_digits nat_digits_value by auto

lemma split_comma_plain: "CHR '','' \<notin> set w \<Longrightarrow> split_comma w = [w]"
  by (induction w) auto

lemma split_comma_first: "CHR '','' \<notin> set w \<Longrightarrow> split_comma (w @ CHR '','' # s) = w # split_comma s"
  by (induction w) auto

lemma strip_id: "s \<noteq> [] \<Longrightarrow> \<not> is_space (hd s) \<Longrightarrow> \<not> is_space (last s) \<Longrightarrow> strip s = s"
  by (simp add: strip_def strip_by_def dropWhile_eq_self_iff [THEN iffD2] hd_rev)

lemma py_int_nat_digits: "py_int (nat_digits n) = Some (int n)"
proof -
  note ends = nat_digits_ends [of n]
  obtain c cs where c: "nat_digits n = c # cs" by (cases "nat_digits n") auto
  have "strip (nat_digits n) = nat_digits n"
    using ends by (intro strip_id) (auto dest: is_digit_facts)
  moreover have "py_sign (nat_digits n) = (1, nat_digits n)"
    using ends(1) c is_digit_facts(3,4) [of c] by simp
  ultimately show ?thesis by (simp add: py_int_def parse_nat_digits)
qed

lemma py_int_str: "py_int (py_str_int i) = Some i"
proof (cases "i < 0")
  case True
  let ?ds = "nat_digits (nat (- i))"
  have "strip (CHR ''-'' # ?ds) = CHR ''-'' # ?ds"
    using is_digit_facts(1) [OF nat_digits_ends(2)]
    by (intro strip_id) (auto simp: is_space_def code_def)
  with True show ?thesis by (simp add: py_int_def py_str_int_def parse_nat_digits)
next
  case False
  then show ?thesis by (simp add: py_str_int_def py_int_nat_digits)
qed

subsection \<open>\<open>float()\<close>\<close>

datatype pyfloat = Finite real | PosInf | NegInf | NaN

definition to_double_range :: "real \<Rightarrow> pyfloat" where
  \<comment> \<open>overflow and underflow of the nearest double, ties to even\<close>
  "to_double_range x =
     (if (2 - 1 / 2 ^ 53) * 2 ^ 1023 \<le> x then PosInf
      else if x \<le> - ((2 - 1 / 2 ^ 53) * 2 ^ 1023) then NegInf
      else if \<bar>x\<bar> * 2 ^ 1075 \<le> 1 then Finite 0
      else Finite x)"

definition float_neg :: "pyfloat \<Rightarrow> pyfloat" where
  "float_neg x = (case x of Finite r \<Rightarrow> Finite (- r) | PosInf \<Rightarrow> NegInf | NegInf \<Rightarrow> PosInf | NaN \<Rightarrow> NaN)"

definition digit_run :: "string \<Rightarrow> string \<times> string" where
  "digit_run s =
     (takeWhile (\<lambda>c. is_digit c \<or> c = CHR ''_'') s, dropWhile (\<lambda>c. is_digit c \<or> c = CHR ''_'') s)"

definition digit_count :: "string \<Rightarrow> nat" where
  "digit_count s = length (filter is_digit s)"

text \<open>A digit part that may be absent: the value 0 for the empty string.\<close>

definition optional_digits :: "string \<Rightarrow> int option" where
  "optional_digits s = (if s = [] then Some 0 else parse_digits False 0 s)"

definition py_exponent :: "string \<Rightarrow> int option" where
  "py_exponent s =
     (case s of
        [] \<Rightarrow> Some 0
      | c # cs \<Rightarrow>
          if c = CHR ''e'' \<or> c = CHR ''E''
          then (let (sg, ds) = py_sign cs in map_option (\<lambda>v. sg * v) (parse_digits False 0 ds))
          else None)"

definition scale10 :: "real \<Rightarrow> int \<Rightarrow> real" where
  "scale10 m e = (if 0 \<le> e then m * 10 ^ nat e else m / 10 ^ nat (- e))"

definition py_decimal :: "string \<Rightarrow> real option" where
  "py_decimal s =
     (let (ip, s1) = digit_run s;
          (fp, s2) = (case s1 of c # cs \<Rightarrow> if c = CHR ''.'' then digit_run cs else ([], s1) | [] \<Rightarrow> ([], []))
      in if ip = [] \<and> fp = [] then None
         else case (optional_digits ip, optional_digits fp, py_exponent s2) of
                (Some i, Some f, Some e) \<Rightarrow>
                  Some (scale10 (real_of_int i + real_of_int f / 10 ^ digit_count fp) e)
              | _ \<Rightarrow> None)"

definition py_float :: "string \<Rightarrow> pyfloat option" where
  "py_float s =
     (let (sg, u) = py_sign (strip s);
          signed = (\<lambda>x. if sg < 0 then float_neg x else x)
      in if lower u = ''inf'' \<or> lower u = ''infinity'' then Some (signed PosInf)
         else if lower u = ''nan'' then Some NaN
         else map_option (\<lambda>m. signed (to_double_range m)) (py_decimal u))"

text \<open>The comparisons of Python floats: every one with a NaN is false.\<close>

fun float_le :: "pyfloat \<Rightarrow> pyfloat \<Rightarrow> bool" where
  "float_le NaN _ = False"
| "float_le _ NaN = False"
| "float_le NegInf _ = True"
| "float_le _ PosInf = True"
| "float_le (Finite x) (Finite y) = (x \<le> y)"
| "float_le _ _ = False"

fun float_less :: "pyfloat \<Rightarrow> pyfloat \<Rightarrow> bool" where
  "float_less NaN _ = False"
| "float_less _ NaN = False"
| "float_less NegInf y = (y \<noteq> NegInf)"
| "float_less x PosInf = (x \<noteq> PosInf)"
| "float_less (Finite x) (Finite y) = (x < y)"
| "float_less _ _ = False"

definition py_trunc :: "real \<Rightarrow> int" where
  \<comment> \<open>\<open>int(x)\<close> of a finite float truncates towards zero\<close>
  "py_trunc x = (if 0 \<le> x then \<lfloor>x\<rfloor> else \<lceil>x\<rceil>)"

text \<open>\<open>round(x)\<close> of an exact number: a half goes to the even neighbour.\<close>

definition py_round :: "real \<Rightarrow> int" where
  "py_round x =
     (let f = \<lfloor>x\<rfloor>; d = x - real_of_int f
      in if d < 1 / 2 then f else if 1 / 2 < d then f + 1 else if even f then f else f + 1)"

lemma py_round_near: "\<bar>real_of_int (py_round x) - x\<bar> \<le> 1 / 2"
  using floor_correct [of x] by (auto simp: py_round_def Let_def)

lemma py_round_floor: "\<lfloor>x\<rfloor> \<le> py_round x" "py_round x \<le> \<lfloor>x\<rfloor> + 1"
  by (simp_all add: py_round_def Let_def)

lemma py_round_mono: "x \<le> y \<Longrightarrow> py_round x \<le> py_round y"
proof (cases "\<lfloor>x\<rfloor> = \<lfloor>y\<rfloor>")
  case True
  moreover assume "x \<le> y"
  ultimately show ?thesis by (auto simp: py_round_def Let_def)
next
  case False
  assume "x \<le> y"
  with False have "\<lfloor>x\<rfloor> + 1 \<le> \<lfloor>y\<rfloor>" using floor_mono [of x y] by simp
  with py_round_floor(2) [of x] py_round_floor(1) [of y] show ?thesis by linarith
qed

lemma py_round_of_int [simp]: "py_round (real_of_int n) = n"
  by (simp add: py_round_def)

end
