(* ===== verification/PyJson.thy ===== *)
theory PyJson
  imports PyText
begin

section \<open>JSON values as Python sees them\<close>

text \<open>
  The values \<open>json.loads\<close> returns, for the request bodies the gateway accepts and the responses
  of the workers, with the built-in operations the program applies to them: \<open>bool(x)\<close>,
  \<open>int(x)\<close>, \<open>x or y\<close>, and the dictionary methods, which raise \<open>AttributeError\<close> on anything that
  is not an object. A number with a fraction or an exponent is a float; Python's parser also
  accepts \<open>NaN\<close> and \<open>Infinity\<close>. The parser itself is library code and not modelled.
\<close>

datatype json =
    JNull
  | JBool bool
  | JInt int
  | JFloat pyfloat
  | JStr string
  | JList "json list"
  | JDict "(string \<times> json) list"

fun json_truth :: "json \<Rightarrow> bool" where
  "json_truth JNull = False"
| "json_truth (JBool b) = b"
| "json_truth (JInt i) = (i \<noteq> 0)"
| "json_truth (JFloat x) = (x \<noteq> Finite 0)"
| "json_truth (JStr s) = (s \<noteq> [])"
| "json_truth (JList xs) = (xs \<noteq> [])"
| "json_truth (JDict d) = (d \<noteq> [])"

definition json_or :: "json \<Rightarrow> json \<Rightarrow> json" where
  "json_or x y = (if json_truth x then x else y)"

fun json_int :: "json \<Rightarrow> py_error + int" where
  "json_int JNull = Inl TypeError"
| "json_int (JBool b) = Inr (if b then 1 else 0)"
| "json_int (JInt i) = Inr i"
| "json_int (JFloat (Finite x)) = Inr (py_trunc x)"
| "json_int (JFloat NaN) = Inl ValueError"
| "json_int (JFloat PosInf) = Inl OverflowError"
| "json_int (JFloat NegInf) = Inl OverflowError"
| "json_int (JStr s) = (case py_int s of None \<Rightarrow> Inl ValueError | Some i \<Rightarrow> Inr i)"
| "json_int (JList xs) = Inl TypeError"
| "json_int (JDict d) = Inl TypeError"

definition json_get :: "json \<Rightarrow> string \<Rightarrow> json \<Rightarrow> py_error + json" where
  \<comment> \<open>\<open>x.get(key, default)\<close>\<close>
  "json_get x key dflt =
     (case x of
        JDict d \<Rightarrow> Inr (case map_of d key of None \<Rightarrow> dflt | Some v \<Rightarrow> v)
      | _ \<Rightarrow> Inl AttributeError)"

definition json_values :: "json \<Rightarrow> py_error + json list" where
  \<comment> \<open>\<open>x.values()\<close>\<close>
  "json_values x = (case x of JDict d \<Rightarrow> Inr (map snd d) | _ \<Rightarrow> Inl AttributeError)"

definition json_first :: "json \<Rightarrow> py_error + json" where
  \<comment> \<open>\<open>x[0]\<close>; an object has no integer key\<close>
  "json_first x =
     (case x of
        JList (y # ys) \<Rightarrow> Inr y
      | JList [] \<Rightarrow> Inl IndexError
      | JStr (c # cs) \<Rightarrow> Inr (JStr [c])
      | JStr [] \<Rightarrow> Inl IndexError
      | JDict d \<Rightarrow> Inl KeyError
      | _ \<Rightarrow> Inl TypeError)"

definition json_item :: "json \<Rightarrow> string \<Rightarrow> py_error + json" where
  \<comment> \<open>\<open>x[key]\<close> with a string key\<close>
  "json_item x key =
     (case x of
        JDict d \<Rightarrow> (case map_of d key of None \<Rightarrow> Inl KeyError | Some v \<Rightarrow> Inr v)
      | _ \<Rightarrow> Inl TypeError)"

text \<open>
  \<open>len(set(xs))\<close>: Python equates \<open>1\<close>, \<open>1.0\<close> and \<open>True\<close>, keeps every NaN apart, and raises on a list
  or an object.
\<close>

fun unhashable :: "json \<Rightarrow> bool" where
  "unhashable (JList xs) = True"
| "unhashable (JDict d) = True"
| "unhashable _ = False"

fun set_key :: "json \<Rightarrow> json" where
  "set_key (JBool b) = JFloat (Finite (if b then 1 else 0))"
| "set_key (JInt i) = JFloat (Finite (real_of_int i))"
| "set_key v = v"

definition set_size :: "json list \<Rightarrow> py_error + nat" where
  "set_size vs =
     (if \<exists>v \<in> set vs. unhashable v then Inl TypeError
      else Inr (card (set (map set_key (filter (\<lambda>v. v \<noteq> JFloat NaN) vs))) +
                length (filter (\<lambda>v. v = JFloat NaN) vs)))"

lemma json_get_JDict [simp]:
  "json_get (JDict d) key dflt = Inr (case map_of d key of None \<Rightarrow> dflt | Some v \<Rightarrow> v)"
  by (simp add: json_get_def)

lemma json_get_error: "json_get x key dflt = Inl e \<longleftrightarrow> e = AttributeError \<and> (\<forall>d. x \<noteq> JDict d)"
  by (auto simp: json_get_def split: json.split)

lemma json_get_cong: "json_get x key dflt = Inr v \<Longrightarrow> \<exists>d. x = JDict d"
  by (auto simp: json_get_def split: json.splits)

lemma json_or_simps [simp]:
  "json_or JNull y = y" "json_or (JBool b) y = (if b then JBool True else y)"
  "json_or (JInt i) y = (if i = 0 then y else JInt i)" "json_or (JDict d) y = (if d = [] then y else JDict d)"
  "json_or (JList xs) y = (if xs = [] then y else JList xs)"
  by (auto simp: json_or_def)

end
