(* ===== verification/Models.thy ===== *)
theory Models
  imports PyJson
begin

section \<open>Configuration and value types\<close>

text \<open>
  \<open>agentserve/config.py\<close> and \<open>agentserve/models.py\<close>: the frozen configuration
  dataclasses, with their defaults, and the value types the router, the policies and the
  backends share. Milliseconds and ratios are reals, token counts are integers. The text of a
  result is whatever JSON value the worker sent as content, a string when it keeps to the API.
\<close>

subsection \<open>Configuration\<close>

record hardware_profile =
  prefill_ms_per_token :: real
  decode_ms_per_token :: real
  dram_restore_ms_per_token :: real
  dram_offload_ms_per_token :: real
  gpu_cache_tokens :: int
  dram_cache_tokens :: int

definition default_hardware :: hardware_profile where
  "default_hardware =
     \<lparr>prefill_ms_per_token = 65 / 1000, decode_ms_per_token = 35 / 100,
      dram_restore_ms_per_token = 4 / 1000, dram_offload_ms_per_token = 3 / 1000,
      gpu_cache_tokens = 150000, dram_cache_tokens = 1400000\<rparr>"

definition dram_speedup :: "hardware_profile \<Rightarrow> py_error + real" where
  "dram_speedup h =
     (if dram_restore_ms_per_token h = 0 then Inl ZeroDivisionError
      else Inr (prefill_ms_per_token h / dram_restore_ms_per_token h))"

record policy_config =
  pin_threshold_ms :: real
  offload_threshold_ms :: real
  dead_session_ms :: real
  affinity_queue_limit :: int

definition default_policy_config :: policy_config where
  "default_policy_config =
     \<lparr>pin_threshold_ms = 2000, offload_threshold_ms = 300000, dead_session_ms = 600000,
      affinity_queue_limit = 6\<rparr>"

record predictor_config =
  ewma_alpha :: real
  prior_ms :: real
  min_observations :: int

definition default_predictor_config :: predictor_config where
  "default_predictor_config = \<lparr>ewma_alpha = 3 / 10, prior_ms = 5000, min_observations = 2\<rparr>"

record cluster_config =
  cc_replicas :: int
  hardware :: hardware_profile
  cc_policy :: policy_config
  cc_predictor :: predictor_config

definition default_cluster_config :: cluster_config where
  "default_cluster_config =
     \<lparr>cc_replicas = 4, hardware = default_hardware, cc_policy = default_policy_config,
      cc_predictor = default_predictor_config\<rparr>"

text \<open>What \<open>load_settings\<close> promises of the configuration it accepts.\<close>

definition wf_hardware :: "hardware_profile \<Rightarrow> bool" where
  "wf_hardware h \<longleftrightarrow> 0 < gpu_cache_tokens h \<and> 0 < dram_cache_tokens h \<and>
     0 \<le> prefill_ms_per_token h \<and> 0 \<le> decode_ms_per_token h \<and>
     0 \<le> dram_restore_ms_per_token h \<and>
     dram_restore_ms_per_token h \<le> prefill_ms_per_token h"

definition wf_policy_config :: "policy_config \<Rightarrow> bool" where
  "wf_policy_config c \<longleftrightarrow> 0 < pin_threshold_ms c \<and>
     pin_threshold_ms c < offload_threshold_ms c \<and> 0 < dead_session_ms c \<and>
     0 < affinity_queue_limit c"

definition wf_predictor_config :: "predictor_config \<Rightarrow> bool" where
  "wf_predictor_config c \<longleftrightarrow> 0 < ewma_alpha c \<and> ewma_alpha c \<le> 1 \<and> 0 < prior_ms c \<and>
     0 < min_observations c"

definition wf_cluster_config :: "cluster_config \<Rightarrow> bool" where
  "wf_cluster_config c \<longleftrightarrow> 0 < cc_replicas c \<and> wf_hardware (hardware c) \<and>
     wf_policy_config (cc_policy c) \<and> wf_predictor_config (cc_predictor c)"

lemma wf_default_hardware [simp, wf_intros]: "wf_hardware default_hardware"
  by (simp add: wf_hardware_def default_hardware_def)

lemma wf_default_cluster_config [wf_intros]: "wf_cluster_config default_cluster_config"
  by (simp add: wf_cluster_config_def default_cluster_config_def wf_policy_config_def
      default_policy_config_def wf_predictor_config_def default_predictor_config_def)

subsection \<open>Value types\<close>

datatype cache_tier = GPU | DRAM | MISS

fun tier_value :: "cache_tier \<Rightarrow> string" where
  "tier_value GPU = ''gpu''"
| "tier_value DRAM = ''dram''"
| "tier_value MISS = ''miss''"

record turn =
  prompt_tokens :: int
  output_tokens :: int
  tool_name :: "string option"
  tool_duration_ms :: real

record session_trace =
  st_session_id :: string
  arrival_ms :: real
  turns :: "turn list"

definition total_prompt_tokens :: "session_trace \<Rightarrow> int" where
  "total_prompt_tokens tr = sum_list (map prompt_tokens (turns tr))"

record cache_entry =
  ce_session_id :: string
  ce_tokens :: int
  ce_tier :: cache_tier
  last_touch_ms :: real
  predicted_return_ms :: real

definition predicted_idle_ms :: "cache_entry \<Rightarrow> real" where
  "predicted_idle_ms e = max 0 (predicted_return_ms e - last_touch_ms e)"

record request_result =
  rr_session_id :: string
  rr_replica_id :: int
  rr_tier :: cache_tier
  reused_tokens :: int
  computed_tokens :: int
  prefill_ms :: real
  decode_ms :: real
  queue_ms :: real
  restore_ms :: real
  rr_text :: json
  completion_tokens :: int

definition latency_ms :: "request_result \<Rightarrow> real" where
  "latency_ms r = queue_ms r + restore_ms r + prefill_ms r + decode_ms r"

definition ttft_ms :: "request_result \<Rightarrow> real" where
  "ttft_ms r = queue_ms r + restore_ms r + prefill_ms r"

record run_stats =
  requests :: int
  gpu_hits :: int
  dram_hits :: int
  misses :: int
  tokens_reused :: int
  tokens_computed :: int
  ttfts :: "real list"
  job_completion_ms :: "real list"
  gpu_busy_ms :: real

definition empty_run_stats :: run_stats where
  "empty_run_stats =
     \<lparr>requests = 0, gpu_hits = 0, dram_hits = 0, misses = 0, tokens_reused = 0,
      tokens_computed = 0, ttfts = [], job_completion_ms = [], gpu_busy_ms = 0\<rparr>"

definition gpu_hit_rate :: "run_stats \<Rightarrow> real" where
  "gpu_hit_rate s = (if requests s \<noteq> 0 then real_of_int (gpu_hits s) / real_of_int (requests s) else 0)"

definition any_hit_rate :: "run_stats \<Rightarrow> real" where
  "any_hit_rate s =
     (if requests s \<noteq> 0 then real_of_int (gpu_hits s + dram_hits s) / real_of_int (requests s) else 0)"

definition reuse_rate :: "run_stats \<Rightarrow> real" where
  "reuse_rate s =
     (let total = tokens_reused s + tokens_computed s
      in if total \<noteq> 0 then real_of_int (tokens_reused s) / real_of_int total else 0)"

text \<open>The rates are proportions whenever the counters are consistent.\<close>

definition consistent_stats :: "run_stats \<Rightarrow> bool" where
  "consistent_stats s \<longleftrightarrow> 0 \<le> gpu_hits s \<and> 0 \<le> dram_hits s \<and> 0 \<le> misses s \<and>
     gpu_hits s + dram_hits s + misses s = requests s \<and>
     0 \<le> tokens_reused s \<and> 0 \<le> tokens_computed s"

lemma consistent_empty [simp]: "consistent_stats empty_run_stats"
  by (simp add: consistent_stats_def empty_run_stats_def)

lemma rates_proportions:
  assumes "consistent_stats s"
  shows "0 \<le> gpu_hit_rate s" "gpu_hit_rate s \<le> any_hit_rate s" "any_hit_rate s \<le> 1"
    "0 \<le> reuse_rate s" "reuse_rate s \<le> 1"
  using assms
  by (auto simp: consistent_stats_def gpu_hit_rate_def any_hit_rate_def reuse_rate_def Let_def
      divide_simps)

end
