(* ===== verification/Predictor.thy ===== *)
theory Predictor
  imports Models
begin

section \<open>Tool duration predictor\<close>

text \<open>
  \<open>agentserve/predictor.py\<close>: exponentially weighted moving averages of the gaps a session
  was away, one per tool name, one per session and one global. The state is the four
  tables of the class; \<open>observe\<close> and \<open>predict_ms\<close> follow the methods branch by branch.
  \<open>predict_ms\<close> returns the state too: reading a missing key of the \<open>defaultdict\<close>
  inserts it with the value 0.

  The abstract specification keeps the whole history of observations and recomputes each
  average from it; \<open>predictor_after\<close> says that the tables are those averages.
\<close>

record predictor =
  pr_config :: predictor_config
  tool_ewma :: "(string, real) dict"
  tool_counts :: "(string, int) dict"
  session_ewma :: "(string, real) dict"
  global_ewma :: real
  observations :: int

definition new_predictor :: "predictor_config \<Rightarrow> predictor" where
  "new_predictor c =
     \<lparr>pr_config = c, tool_ewma = [], tool_counts = [], session_ewma = [],
      global_ewma = prior_ms c, observations = 0\<rparr>"

definition dict_get :: "('k, 'v) dict \<Rightarrow> 'k \<Rightarrow> 'v \<Rightarrow> 'v" where
  "dict_get d k dflt = (case map_of d k of None \<Rightarrow> dflt | Some v \<Rightarrow> v)"

definition ewma_step :: "real \<Rightarrow> real \<Rightarrow> real \<Rightarrow> real" where
  "ewma_step a x prev = a * x + (1 - a) * prev"

text \<open>\<open>if tool_name:\<close> is false for \<open>None\<close> and for the empty string.\<close>

definition named :: "string option \<Rightarrow> string option" where
  "named tool = (case tool of None \<Rightarrow> None | Some n \<Rightarrow> if n = [] then None else Some n)"

definition observe_tool :: "string option \<Rightarrow> real \<Rightarrow> predictor \<Rightarrow> predictor" where
  "observe_tool tool x p =
     (case named tool of
        None \<Rightarrow> p
      | Some n \<Rightarrow>
          p\<lparr>tool_ewma := AList.update n
               (ewma_step (ewma_alpha (pr_config p)) x (dict_get (tool_ewma p) n x)) (tool_ewma p),
            tool_counts := AList.update n (dict_get (tool_counts p) n 0 + 1) (tool_counts p)\<rparr>)"

definition observe :: "string \<Rightarrow> string option \<Rightarrow> real \<Rightarrow> predictor \<Rightarrow> py_error + predictor" where
  "observe sid tool x p =
     (if x < 0 then Inl ValueError
      else
        let a = ewma_alpha (pr_config p);
            p1 = observe_tool tool x p;
            p2 = p1\<lparr>session_ewma := AList.update sid
                   (ewma_step a x (dict_get (session_ewma p1) sid x)) (session_ewma p1)\<rparr>;
            p3 = p2\<lparr>global_ewma := ewma_step a x (global_ewma p2)\<rparr>
        in Inr (p3\<lparr>observations := observations p3 + 1\<rparr>))"

text \<open>\<open>self._tool_counts[tool_name]\<close> on the \<open>defaultdict(int)\<close>.\<close>

definition touch_count :: "string \<Rightarrow> predictor \<Rightarrow> int \<times> predictor" where
  "touch_count n p =
     (case map_of (tool_counts p) n of
        Some c \<Rightarrow> (c, p)
      | None \<Rightarrow> (0, p\<lparr>tool_counts := AList.update n 0 (tool_counts p)\<rparr>))"

definition predict_fallback :: "string \<Rightarrow> predictor \<Rightarrow> real" where
  "predict_fallback sid p =
     (case map_of (session_ewma p) sid of
        Some g \<Rightarrow> g
      | None \<Rightarrow> if observations p \<noteq> 0 then global_ewma p else prior_ms (pr_config p))"

definition predict_ms :: "string \<Rightarrow> string option \<Rightarrow> predictor \<Rightarrow> py_error + real \<times> predictor" where
  "predict_ms sid tool p =
     (case named tool of
        None \<Rightarrow> Inr (predict_fallback sid p, p)
      | Some n \<Rightarrow>
          (let (c, p') = touch_count n p
           in if min_observations (pr_config p') \<le> c
              then (case map_of (tool_ewma p') n of
                      None \<Rightarrow> Inl KeyError
                    | Some g \<Rightarrow> Inr (g, p'))
              else Inr (predict_fallback sid p', p')))"

definition snapshot :: "predictor \<Rightarrow> (string, real) dict" where
  \<comment> \<open>tuples compare by their first component first, and the keys are distinct\<close>
  "snapshot p = sort_key fst (tool_ewma p)"

subsection \<open>Specification: averages of the history\<close>

type_synonym observation = "string \<times> string option \<times> real"

fun ewma :: "real \<Rightarrow> real list \<Rightarrow> real option" where
  "ewma a [] = None"
| "ewma a (x # xs) = Some (fold (ewma_step a) xs x)"

definition tool_history :: "string \<Rightarrow> observation list \<Rightarrow> real list" where
  "tool_history n h = map (\<lambda>(s, t, x). x) (filter (\<lambda>(s, t, x). named t = Some n) h)"

definition session_history :: "string \<Rightarrow> observation list \<Rightarrow> real list" where
  "session_history sid h = map (\<lambda>(s, t, x). x) (filter (\<lambda>(s, t, x). s = sid) h)"

definition gaps :: "observation list \<Rightarrow> real list" where
  "gaps h = map (\<lambda>(s, t, x). x) h"

fun observe_all :: "observation list \<Rightarrow> predictor \<Rightarrow> py_error + predictor" where
  "observe_all [] p = Inr p"
| "observe_all ((sid, tool, x) # h) p =
     (case observe sid tool x p of Inl e \<Rightarrow> Inl e | Inr p' \<Rightarrow> observe_all h p')"

definition predictor_after :: "predictor_config \<Rightarrow> observation list \<Rightarrow> predictor \<Rightarrow> bool" where
  "predictor_after c h p \<longleftrightarrow>
     pr_config p = c \<and>
     (\<forall>n. map_of (tool_ewma p) n = ewma (ewma_alpha c) (tool_history n h)) \<and>
     (\<forall>n. dict_get (tool_counts p) n 0 = int (length (tool_history n h))) \<and>
     (\<forall>s. map_of (session_ewma p) s = ewma (ewma_alpha c) (session_history s h)) \<and>
     global_ewma p = fold (ewma_step (ewma_alpha c)) (gaps h) (prior_ms c) \<and>
     observations p = int (length h)"

definition predict_spec :: "predictor_config \<Rightarrow> observation list \<Rightarrow> string \<Rightarrow> string option \<Rightarrow> real" where
  "predict_spec c h sid tool =
     (case (case named tool of
              None \<Rightarrow> None
            | Some n \<Rightarrow> if min_observations c \<le> int (length (tool_history n h))
                        then ewma (ewma_alpha c) (tool_history n h) else None) of
        Some g \<Rightarrow> g
      | None \<Rightarrow>
          (case ewma (ewma_alpha c) (session_history sid h) of
             Some g \<Rightarrow> g
           | None \<Rightarrow> if h = [] then prior_ms c
                     else fold (ewma_step (ewma_alpha c)) (gaps h) (prior_ms c)))"

lemma named_simps [simp]:
  "named None = None" "named (Some []) = None" "named (Some (ch # n)) = Some (ch # n)"
  by (simp_all add: named_def)

lemma ewma_step_same [simp]: "ewma_step a x x = x"
  by (simp add: ewma_step_def algebra_simps)

lemma ewma_snoc:
  "ewma a (xs @ [x]) = Some (case ewma a xs of None \<Rightarrow> x | Some g \<Rightarrow> ewma_step a x g)"
  by (cases xs) simp_all

lemma dict_get_update [simp]:
  "dict_get (AList.update k v d) k' dflt = (if k' = k then v else dict_get d k' dflt)"
  by (simp add: dict_get_def)

lemma dict_get_eqs [simp]:
  "map_of d k = None \<Longrightarrow> dict_get d k dflt = dflt" "map_of d k = Some v \<Longrightarrow> dict_get d k dflt = v"
  by (simp_all add: dict_get_def)

lemma history_snoc [simp]:
  "tool_history n (h @ [(s, t, x)]) = tool_history n h @ (if named t = Some n then [x] else [])"
  "session_history sid (h @ [(s, t, x)]) = session_history sid h @ (if s = sid then [x] else [])"
  "gaps (h @ [(s, t, x)]) = gaps h @ [x]"
  by (simp_all add: tool_history_def session_history_def gaps_def)

lemma history_Nil [simp]:
  "tool_history n [] = []" "session_history sid [] = []" "gaps [] = []"
  by (simp_all add: tool_history_def session_history_def gaps_def)

lemma new_predictor_after [simp]: "predictor_after c [] (new_predictor c)"
  by (simp add: predictor_after_def new_predictor_def dict_get_def)

lemma observe_after:
  assumes p: "predictor_after c h p" and obs: "observe sid tool x p = Inr p'"
  shows "predictor_after c (h @ [(sid, tool, x)]) p'"
proof -
  have get: "dict_get (tool_ewma p) n x =
      (case ewma (ewma_alpha c) (tool_history n h) of None \<Rightarrow> x | Some g \<Rightarrow> g)"
    "dict_get (session_ewma p) s x =
      (case ewma (ewma_alpha c) (session_history s h) of None \<Rightarrow> x | Some g \<Rightarrow> g)" for n s
    using p by (simp_all add: predictor_after_def dict_get_def)
  show ?thesis
    using p obs
    by (auto simp: predictor_after_def observe_def observe_tool_def Let_def get ewma_snoc
        split: if_splits option.splits)
qed

lemma observe_total: "0 \<le> x \<Longrightarrow> \<exists>p'. observe sid tool x p = Inr p'"
  by (simp add: observe_def Let_def)

lemma observe_all_after:
  "predictor_after c h0 p \<Longrightarrow> \<forall>x \<in> set (gaps h). 0 \<le> x \<Longrightarrow>
     \<exists>p'. observe_all h p = Inr p' \<and> predictor_after c (h0 @ h) p'"
proof (induction h arbitrary: h0 p)
  case Nil
  then show ?case by simp
next
  case (Cons o1 h)
  obtain sid tool x where o1: "o1 = (sid, tool, x)" by (metis prod_cases3)
  have "0 \<le> x" and rest: "\<forall>y \<in> set (gaps h). 0 \<le> y"
    using Cons.prems(2) by (simp_all add: gaps_def o1)
  then obtain p1 where p1: "observe sid tool x p = Inr p1" using observe_total by blast
  from Cons.IH [OF observe_after [OF Cons.prems(1) p1] rest] p1 show ?case by (simp add: o1)
qed

subsection \<open>Refinement of the history\<close>

lemma touch_count_after:
  assumes "predictor_after c h p" and "touch_count n p = (k, p')"
  shows "k = int (length (tool_history n h)) \<and> predictor_after c h p'"
proof -
  have "k = dict_get (tool_counts p) n 0 \<and> p' = p\<lparr>tool_counts := tool_counts p'\<rparr> \<and>
      (\<forall>m. dict_get (tool_counts p') m 0 = dict_get (tool_counts p) m 0)"
    using assms(2) by (auto simp: touch_count_def split: option.splits)
  then obtain ct where "k = dict_get (tool_counts p) n 0" and "p' = p\<lparr>tool_counts := ct\<rparr>"
    and "\<forall>m. dict_get ct m 0 = dict_get (tool_counts p) m 0" by (metis select_convs(3) simps(12))
  then show ?thesis using assms(1) by (simp add: predictor_after_def)
qed

lemma predict_fallback_after:
  assumes "predictor_after c h p"
  shows "predict_fallback sid p =
    (case ewma (ewma_alpha c) (session_history sid h) of
       Some g \<Rightarrow> g
     | None \<Rightarrow> if h = [] then prior_ms c
               else fold (ewma_step (ewma_alpha c)) (gaps h) (prior_ms c))"
  using assms by (auto simp: predict_fallback_def predictor_after_def split: option.splits)

lemma predict_after:
  assumes p: "predictor_after c h p" and c: "0 < min_observations c"
  shows "\<exists>p'. predict_ms sid tool p = Inr (predict_spec c h sid tool, p') \<and> predictor_after c h p'"
proof (cases "named tool")
  case None
  then show ?thesis using p
    by (simp add: predict_ms_def predict_spec_def predict_fallback_after [OF p])
next
  case (Some n)
  obtain k p' where t: "touch_count n p = (k, p')" by fastforce
  from touch_count_after [OF p t] have k: "k = int (length (tool_history n h))"
    and p': "predictor_after c h p'" by simp_all
  show ?thesis
  proof (cases "min_observations c \<le> k")
    case True
    with k c obtain y ys where "tool_history n h = y # ys" by (cases "tool_history n h") auto
    with True Some t k p' show ?thesis
      by (simp add: predict_ms_def predict_spec_def predictor_after_def)
  next
    case False
    with Some t k p' show ?thesis
      by (simp add: predict_ms_def predict_spec_def predict_fallback_after [OF p'])
        (simp add: predictor_after_def)
  qed
qed

subsection \<open>Bounds\<close>

text \<open>With a weight in \<open>(0, 1]\<close> every average stays in the range of what was averaged.\<close>

lemma ewma_step_bounds:
  assumes "0 \<le> a" "a \<le> 1" "lo \<le> x" "x \<le> hi" "lo \<le> g" "g \<le> hi"
  shows "lo \<le> ewma_step a x g" "ewma_step a x g \<le> hi"
proof -
  have "a * lo + (1 - a) * lo \<le> a * x + (1 - a) * g"
    by (intro add_mono mult_left_mono) (use assms in auto)
  moreover have "a * x + (1 - a) * g \<le> a * hi + (1 - a) * hi"
    by (intro add_mono mult_left_mono) (use assms in auto)
  ultimately show "lo \<le> ewma_step a x g" "ewma_step a x g \<le> hi"
    by (simp_all add: ewma_step_def algebra_simps)
qed

lemma fold_ewma_bounds:
  "0 \<le> a \<Longrightarrow> a \<le> 1 \<Longrightarrow> \<forall>x \<in> set xs. lo \<le> x \<and> x \<le> hi \<Longrightarrow> lo \<le> g \<Longrightarrow> g \<le> hi \<Longrightarrow>
     lo \<le> fold (ewma_step a) xs g \<and> fold (ewma_step a) xs g \<le> hi"
  by (induction xs arbitrary: g) (auto simp: ewma_step_bounds)

lemma ewma_bounds:
  "0 \<le> a \<Longrightarrow> a \<le> 1 \<Longrightarrow> \<forall>x \<in> set xs. lo \<le> x \<and> x \<le> hi \<Longrightarrow> ewma a xs = Some g \<Longrightarrow> lo \<le> g \<and> g \<le> hi"
  using fold_ewma_bounds [of a "tl xs" lo hi "hd xs"] by (cases xs) auto

lemma history_subset:
  "set (tool_history n h) \<subseteq> set (gaps h)" "set (session_history s h) \<subseteq> set (gaps h)"
  by (force simp: tool_history_def session_history_def gaps_def)+

lemma predict_spec_bounds:
  assumes a: "0 \<le> ewma_alpha c" "ewma_alpha c \<le> 1"
    and h: "\<forall>x \<in> set (gaps h). lo \<le> x \<and> x \<le> hi" and prior: "lo \<le> prior_ms c" "prior_ms c \<le> hi"
  shows "lo \<le> predict_spec c h sid tool \<and> predict_spec c h sid tool \<le> hi"
proof -
  have sub: "\<forall>x \<in> set (tool_history n h). lo \<le> x \<and> x \<le> hi"
    "\<forall>x \<in> set (session_history s h). lo \<le> x \<and> x \<le> hi" for n s
    using h history_subset by (metis subsetD)+
  show ?thesis
    using fold_ewma_bounds [OF a h prior] prior ewma_bounds [OF a sub(1)] ewma_bounds [OF a sub(2)]
    by (auto simp: predict_spec_def split: option.splits if_splits)
qed

lemma observe_frame: "observe sid tool x p = Inr p' \<Longrightarrow> pr_config p' = pr_config p"
  by (auto simp: observe_def observe_tool_def Let_def split: if_splits option.splits)

subsection \<open>Properties\<close>

text \<open>
  C22: For every history of non-negative measured gaps, the predictor accepts all of it, and
  then its estimate for a session and a tool never fails and is exactly the one the
  specification computes from the history: the weighted average of the tool's own gaps once
  there are enough of them, else the session's average, else the average of all gaps over the
  prior, else the prior.
\<close>

theorem predictor_refines_history:
  assumes "0 < min_observations c" and "\<forall>x \<in> set (gaps h). 0 \<le> x"
  shows "\<exists>p p'. observe_all h (new_predictor c) = Inr p \<and>
    predict_ms sid tool p = Inr (predict_spec c h sid tool, p')"
  using observe_all_after [OF new_predictor_after assms(2)] predict_after [OF _ assms(1)]
  by fastforce

lemma predictor_refines_history_witness:
  "\<exists>p p'. observe_all [(''s'', Some ''grep'', 400), (''s'', Some ''grep'', 600), (''t'', None, 50)]
       (new_predictor default_predictor_config) = Inr p \<and>
     predict_ms ''t'' (Some ''grep'') p =
       Inr (predict_spec default_predictor_config
              [(''s'', Some ''grep'', 400), (''s'', Some ''grep'', 600), (''t'', None, 50)]
              ''t'' (Some ''grep''), p')"
  by (rule predictor_refines_history) (simp_all add: default_predictor_config_def gaps_def)

text \<open>
  No estimate leaves the range of what was measured. When the prior and every observed gap
  lie between two bounds, so does the prediction for any session and any tool; in particular a
  prediction is never negative.
\<close>

theorem prediction_within_observed_range:
  assumes "wf_predictor_config c" and "0 \<le> lo" and "lo \<le> prior_ms c" and "prior_ms c \<le> hi"
    and "\<forall>x \<in> set (gaps h). lo \<le> x \<and> x \<le> hi"
  shows "\<exists>p g p'. observe_all h (new_predictor c) = Inr p \<and> predict_ms sid tool p = Inr (g, p') \<and>
    lo \<le> g \<and> g \<le> hi"
proof -
  have nonneg: "\<forall>x \<in> set (gaps h). 0 \<le> x" and c: "0 < min_observations c"
    using assms(1,2,5) by (auto simp: wf_predictor_config_def)
  obtain p where p: "observe_all h (new_predictor c) = Inr p" and after: "predictor_after c h p"
    using observe_all_after [OF new_predictor_after nonneg] by auto
  moreover from predict_after [OF after c] obtain p'
    where "predict_ms sid tool p = Inr (predict_spec c h sid tool, p')" by blast
  moreover from assms have "lo \<le> predict_spec c h sid tool \<and> predict_spec c h sid tool \<le> hi"
    by (intro predict_spec_bounds) (auto simp: wf_predictor_config_def)
  ultimately show ?thesis by blast
qed

lemma prediction_within_observed_range_witness:
  "\<exists>p g p'. observe_all [(''s'', Some ''grep'', 400), (''s'', Some ''run_tests'', 44000)]
       (new_predictor default_predictor_config) = Inr p \<and>
     predict_ms ''s'' (Some ''grep'') p = Inr (g, p') \<and> 400 \<le> g \<and> g \<le> 44000"
  by (rule prediction_within_observed_range)
    (simp_all add: default_predictor_config_def wf_predictor_config_def gaps_def)

end
