(* ===== verification/Policy.thy ===== *)
theory Policy
  imports Predictor
begin

section \<open>Cache retention policies\<close>

text \<open>
  \<open>agentserve/policy.py\<close>. The \<open>CachePolicy\<close> protocol is a record of methods, one value per
  implementing class: \<open>LruPolicy\<close> and \<open>AdaptiveTtlPolicy\<close>. The adaptive policy stores a
  predictor but never calls it (the prediction reaches it in the cache entry), so its methods
  depend on its configuration only. The locale \<open>retention_policy\<close> is what a replica relies
  on: a victim order is a rearrangement of the entries it was given.
\<close>

datatype placement = PIN_GPU | OFFLOAD_DRAM | DROP

record cache_policy =
  policy_name :: string
  on_release :: "cache_entry \<Rightarrow> real \<Rightarrow> placement"
  victim_order :: "cache_entry list \<Rightarrow> real \<Rightarrow> cache_entry list"

subsection \<open>Baseline: least recently used\<close>

definition lru_on_release :: "cache_entry \<Rightarrow> real \<Rightarrow> placement" where
  "lru_on_release e now = PIN_GPU"

definition lru_victim_order :: "cache_entry list \<Rightarrow> real \<Rightarrow> cache_entry list" where
  "lru_victim_order es now = sort_key last_touch_ms es"

definition lru_policy :: cache_policy where
  "lru_policy =
     \<lparr>policy_name = ''lru'', on_release = lru_on_release, victim_order = lru_victim_order\<rparr>"

subsection \<open>Adaptive time to live\<close>

definition adaptive_on_release :: "policy_config \<Rightarrow> cache_entry \<Rightarrow> real \<Rightarrow> placement" where
  "adaptive_on_release c e now =
     (let idle = predicted_idle_ms e
      in if idle \<le> pin_threshold_ms c then PIN_GPU
         else if idle \<le> offload_threshold_ms c then OFFLOAD_DRAM
         else DROP)"

text \<open>The first component of a score is a finite time or \<open>float("inf")\<close>.\<close>

datatype score_ms = Fin real | Infinity

instantiation score_ms :: linorder
begin

fun less_eq_score_ms :: "score_ms \<Rightarrow> score_ms \<Rightarrow> bool" where
  "less_eq_score_ms _ Infinity = True"
| "less_eq_score_ms Infinity (Fin _) = False"
| "less_eq_score_ms (Fin x) (Fin y) = (x \<le> y)"

definition less_score_ms :: "score_ms \<Rightarrow> score_ms \<Rightarrow> bool" where
  "less_score_ms x y = (x \<le> y \<and> \<not> y \<le> x)"

instance
proof
  fix x y z :: score_ms
  show "(x < y) = (x \<le> y \<and> \<not> y \<le> x)" by (rule less_score_ms_def)
  show "x \<le> x" by (cases x) simp_all
  show "x \<le> y \<Longrightarrow> y \<le> z \<Longrightarrow> x \<le> z" by (cases x; cases y; cases z) simp_all
  show "x \<le> y \<Longrightarrow> y \<le> x \<Longrightarrow> x = y" by (cases x; cases y) simp_all
  show "x \<le> y \<or> y \<le> x" by (cases x; cases y) auto
qed

end

definition adaptive_score :: "policy_config \<Rightarrow> real \<Rightarrow> cache_entry \<Rightarrow> score_ms \<times> real" where
  "adaptive_score c now e =
     (if now - last_touch_ms e > dead_session_ms c then (Infinity, last_touch_ms e)
      else (Fin (predicted_return_ms e - now), last_touch_ms e))"

definition adaptive_victim_order ::
  "policy_config \<Rightarrow> cache_entry list \<Rightarrow> real \<Rightarrow> cache_entry list" where
  "adaptive_victim_order c es now = sorted_desc (adaptive_score c now) es"

definition adaptive_policy :: "policy_config \<Rightarrow> cache_policy" where
  "adaptive_policy c =
     \<lparr>policy_name = ''adaptive-ttl'', on_release = adaptive_on_release c,
      victim_order = adaptive_victim_order c\<rparr>"

subsection \<open>The interface a replica relies on\<close>

locale retention_policy =
  fixes pol :: cache_policy
  assumes victim_order_mset: "mset (victim_order pol es now) = mset es"
begin

lemma victim_order_set [simp]: "set (victim_order pol es now) = set es"
  using victim_order_mset by (metis set_mset_mset)

lemma victim_order_map_mset: "mset (map f (victim_order pol es now)) = mset (map f es)"
  using victim_order_mset by simp

end

text \<open>
  A policy is \<open>time_free\<close> when its verdict on an entry depends on the entry alone. Both
  policies of the code are: \<open>on_release\<close> ignores its \<open>now_ms\<close>.
\<close>

locale time_free_policy = retention_policy +
  assumes on_release_time_free: "on_release pol e now = on_release pol e now'"

interpretation lru: time_free_policy lru_policy
  by unfold_locales
    (simp_all add: lru_policy_def lru_victim_order_def lru_on_release_def)

interpretation adaptive: time_free_policy "adaptive_policy c" for c
  by unfold_locales
    (simp_all add: adaptive_policy_def adaptive_victim_order_def adaptive_on_release_def)

lemma lru_policy_simps [simp]:
  "on_release lru_policy = lru_on_release" "victim_order lru_policy = lru_victim_order"
  by (simp_all add: lru_policy_def)

lemma adaptive_policy_simps [simp]:
  "on_release (adaptive_policy c) = adaptive_on_release c"
  "victim_order (adaptive_policy c) = adaptive_victim_order c"
  by (simp_all add: adaptive_policy_def)

subsection \<open>What the policies decide\<close>

lemma adaptive_on_release_cases:
  "adaptive_on_release c e now = PIN_GPU \<longleftrightarrow> predicted_idle_ms e \<le> pin_threshold_ms c"
  "pin_threshold_ms c \<le> offload_threshold_ms c \<Longrightarrow>
     adaptive_on_release c e now = DROP \<longleftrightarrow> offload_threshold_ms c < predicted_idle_ms e"
  by (auto simp: adaptive_on_release_def Let_def)

text \<open>A longer predicted absence is never kept closer to the accelerator.\<close>

fun placement_rank :: "placement \<Rightarrow> nat" where
  "placement_rank PIN_GPU = 0"
| "placement_rank OFFLOAD_DRAM = 1"
| "placement_rank DROP = 2"

lemma adaptive_on_release_mono:
  "predicted_idle_ms e \<le> predicted_idle_ms e' \<Longrightarrow>
     placement_rank (adaptive_on_release c e now) \<le> placement_rank (adaptive_on_release c e' now')"
  by (auto simp: adaptive_on_release_def Let_def)

lemma adaptive_score_less:
  assumes "now - last_touch_ms e \<le> dead_session_ms c" and "now - last_touch_ms e' \<le> dead_session_ms c"
    and "predicted_return_ms e < predicted_return_ms e'"
  shows "adaptive_score c now e < adaptive_score c now e'"
  using assms by (auto simp: adaptive_score_def less_prod_def less_score_ms_def)

lemma adaptive_score_dead:
  assumes "now - last_touch_ms e \<le> dead_session_ms c" and "dead_session_ms c < now - last_touch_ms e'"
  shows "adaptive_score c now e < adaptive_score c now e'"
  using assms by (auto simp: adaptive_score_def less_prod_def less_score_ms_def)

text \<open>In a list sorted in descending order, an element with the larger key comes first.\<close>

lemma sorted_desc_before:
  assumes "i < length (sorted_desc key xs)" "j < length (sorted_desc key xs)"
    and "key (sorted_desc key xs ! i) < key (sorted_desc key xs ! j)"
  shows "j < i"
proof (rule ccontr)
  assume "\<not> j < i"
  then have "i < j" using assms(3) by (cases "i = j") auto
  then have "key (sorted_desc key xs ! j) \<le> key (sorted_desc key xs ! i)"
    using sorted_desc_sorted [of key xs] assms(2) by (simp only: sorted_wrt_iff_nth_less)
  with assms(3) show False by simp
qed

subsection \<open>Properties\<close>

text \<open>
  The adaptive victim order inverts recency. In the order in which a replica gives up its
  entries, a session that was predicted to return later always precedes a live session
  predicted to return sooner, however recently either was touched, and a session idle for
  longer than the dead-session threshold precedes every live one. The order only rearranges
  the entries.
\<close>

theorem adaptive_victims_latest_return_first:
  fixes c es now
  defines "order \<equiv> victim_order (adaptive_policy c) es now"
  assumes ij: "i < length order" "j < length order"
    and live: "now - last_touch_ms (order ! i) \<le> dead_session_ms c"
    and later: "dead_session_ms c < now - last_touch_ms (order ! j) \<or>
      predicted_return_ms (order ! i) < predicted_return_ms (order ! j)"
  shows "j < i \<and> mset order = mset es"
proof -
  have "adaptive_score c now (order ! i) < adaptive_score c now (order ! j)"
    using live later adaptive_score_dead adaptive_score_less by (metis linorder_not_less)
  then have "j < i"
    using ij sorted_desc_before [of i "adaptive_score c now" es j]
    by (simp add: order_def adaptive_victim_order_def)
  moreover have "mset order = mset es"
    unfolding order_def by (rule adaptive.victim_order_mset)
  ultimately show ?thesis ..
qed

definition example_entry :: "string \<Rightarrow> int \<Rightarrow> real \<Rightarrow> real \<Rightarrow> cache_entry" where
  "example_entry sid n touch ret =
     \<lparr>ce_session_id = sid, ce_tokens = n, ce_tier = GPU, last_touch_ms = touch,
      predicted_return_ms = ret\<rparr>"

lemma example_victim_order:
  "victim_order (adaptive_policy default_policy_config)
     [example_entry ''soon'' 1000 0 1000, example_entry ''later'' 1000 900 60000] 1000 =
   [example_entry ''later'' 1000 900 60000, example_entry ''soon'' 1000 0 1000]"
  by (simp add: adaptive_victim_order_def sorted_desc_def adaptive_score_def example_entry_def
      default_policy_config_def less_score_ms_def)

lemma adaptive_victims_latest_return_first_witness:
  "(0::nat) < 1 \<and>
   mset (victim_order (adaptive_policy default_policy_config)
     [example_entry ''soon'' 1000 0 1000, example_entry ''later'' 1000 900 60000] 1000) =
   mset [example_entry ''soon'' 1000 0 1000, example_entry ''later'' 1000 900 60000]"
  by (rule adaptive_victims_latest_return_first)
    (simp_all only: example_victim_order,
     simp_all add: example_entry_def default_policy_config_def)

end
