(* ===== verification/Replica.thy ===== *)
theory Replica
  imports Policy
begin

section \<open>One replica: a two-tier cache and a request queue\<close>

text \<open>
  \<open>agentserve/replica.py\<close>. The state is the object's fields; the two dictionaries own their
  entries (no entry is ever in both, and no other object holds one), so mutating an entry's
  \<open>tier\<close> is rebuilding it. The methods that delete by key may raise \<open>KeyError\<close>, so \<open>store\<close>
  and what it calls return a sum; \<open>wf_replica\<close> is the invariant under which they do not.
\<close>

record replica =
  rep_id :: int
  hw :: hardware_profile
  policy :: cache_policy
  gpu :: "(string, cache_entry) dict"
  dram :: "(string, cache_entry) dict"
  free_at_ms :: real
  pending :: "real list"
  active :: int
  peak_active :: int
  evictions :: int
  offloads :: int

definition new_replica :: "int \<Rightarrow> hardware_profile \<Rightarrow> cache_policy \<Rightarrow> replica" where
  "new_replica i h pol =
     \<lparr>rep_id = i, hw = h, policy = pol, gpu = [], dram = [], free_at_ms = 0, pending = [],
      active = 0, peak_active = 0, evictions = 0, offloads = 0\<rparr>"

subsection \<open>Load\<close>

definition inflight :: "replica \<Rightarrow> int" where
  "inflight r = int (length (pending r)) + active r"

definition prune :: "real \<Rightarrow> replica \<Rightarrow> replica" where
  "prune now r = r\<lparr>pending := filter (\<lambda>t. now < t) (pending r)\<rparr>"

text \<open>
  The context manager \<open>slot\<close>: its entry, its \<open>finally\<close> clause, and a \<open>with\<close> statement around
  a body that returns a value or raises.
\<close>

definition slot_enter :: "replica \<Rightarrow> replica" where
  "slot_enter r =
     (let r1 = r\<lparr>active := active r + 1\<rparr>
      in r1\<lparr>peak_active := max (peak_active r1) (active r1)\<rparr>)"

definition slot_exit :: "replica \<Rightarrow> replica" where
  "slot_exit r = r\<lparr>active := max 0 (active r - 1)\<rparr>"

definition with_slot :: "(replica \<Rightarrow> ('e + 'a) \<times> replica) \<Rightarrow> replica \<Rightarrow> ('e + 'a) \<times> replica" where
  "with_slot body r = (let (res, r') = body (slot_enter r) in (res, slot_exit r'))"

subsection \<open>Capacity and lookup\<close>

definition gpu_tokens :: "replica \<Rightarrow> int" where
  "gpu_tokens r = dict_sum ce_tokens (gpu r)"

definition dram_tokens :: "replica \<Rightarrow> int" where
  "dram_tokens r = dict_sum ce_tokens (dram r)"

definition gpu_utilization :: "replica \<Rightarrow> py_error + real" where
  "gpu_utilization r =
     (if gpu_cache_tokens (hw r) = 0 then Inl ZeroDivisionError
      else Inr (real_of_int (gpu_tokens r) / real_of_int (gpu_cache_tokens (hw r))))"

definition lookup :: "string \<Rightarrow> replica \<Rightarrow> cache_tier \<times> int" where
  "lookup sid r =
     (case map_of (gpu r) sid of
        Some e \<Rightarrow> (GPU, ce_tokens e)
      | None \<Rightarrow>
          (case map_of (dram r) sid of
             Some e \<Rightarrow> (DRAM, ce_tokens e)
           | None \<Rightarrow> (MISS, 0)))"

definition promote_from_dram :: "string \<Rightarrow> replica \<Rightarrow> replica" where
  "promote_from_dram sid r =
     (case map_of (dram r) sid of
        None \<Rightarrow> r
      | Some e \<Rightarrow>
          r\<lparr>dram := AList.delete sid (dram r),
            gpu := AList.update sid (e\<lparr>ce_tier := GPU\<rparr>) (gpu r)\<rparr>)"

subsection \<open>Storing an entry\<close>

definition demote :: "cache_entry \<Rightarrow> replica \<Rightarrow> replica" where
  "demote e r =
     (let r1 = r\<lparr>gpu := AList.delete (ce_session_id e) (gpu r)\<rparr>
      in if dram_tokens r1 + ce_tokens e \<le> dram_cache_tokens (hw r1)
         then r1\<lparr>dram := AList.update (ce_session_id e) (e\<lparr>ce_tier := DRAM\<rparr>) (dram r1),
                 offloads := offloads r1 + 1\<rparr>
         else r1\<lparr>evictions := evictions r1 + 1\<rparr>)"

function trim_dram :: "replica \<Rightarrow> py_error + replica" where
  "trim_dram r =
     (if dram_cache_tokens (hw r) < dram_tokens r \<and> dram r \<noteq> []
      then
        (let oldest = arg_min_list last_touch_ms (dict_values (dram r))
         in case dict_del (ce_session_id oldest) (dram r) of
              Inl e \<Rightarrow> Inl e
            | Inr d \<Rightarrow> trim_dram (r\<lparr>dram := d, evictions := evictions r + 1\<rparr>))
      else Inr r)"
  by pat_completeness auto
termination
  by (relation "measure (\<lambda>r. length (dram r))") (auto simp: dict_del_Inr length_delete_less)

declare trim_dram.simps [simp del]

definition give_up :: "real \<Rightarrow> cache_entry \<Rightarrow> replica \<Rightarrow> replica" where
  \<comment> \<open>the body of the loop in \<open>_enforce_capacity\<close>\<close>
  "give_up now victim r =
     (if on_release (policy r) victim now = OFFLOAD_DRAM then demote victim r
      else r\<lparr>gpu := AList.delete (ce_session_id victim) (gpu r), evictions := evictions r + 1\<rparr>)"

fun shed :: "real \<Rightarrow> cache_entry list \<Rightarrow> replica \<Rightarrow> replica" where
  "shed now [] r = r"
| "shed now (victim # victims) r =
     (if gpu_tokens r \<le> gpu_cache_tokens (hw r) then r
      else shed now victims (give_up now victim r))"

definition enforce_capacity :: "real \<Rightarrow> replica \<Rightarrow> py_error + replica" where
  "enforce_capacity now r =
     (if gpu_tokens r \<le> gpu_cache_tokens (hw r) then Inr r
      else trim_dram (shed now (victim_order (policy r) (dict_values (gpu r)) now) r))"

definition store_entry :: "string \<Rightarrow> int \<Rightarrow> real \<Rightarrow> real \<Rightarrow> cache_entry" where
  "store_entry sid n now ret =
     \<lparr>ce_session_id = sid, ce_tokens = n, ce_tier = GPU, last_touch_ms = now,
      predicted_return_ms = ret\<rparr>"

definition store :: "string \<Rightarrow> int \<Rightarrow> real \<Rightarrow> real \<Rightarrow> replica \<Rightarrow> py_error + replica" where
  "store sid n now ret r =
     (let entry = store_entry sid n now ret;
          r1 = r\<lparr>dram := AList.delete sid (dram r)\<rparr>;
          r2 = r1\<lparr>gpu := AList.update sid entry (gpu r1)\<rparr>
      in case on_release (policy r2) entry now of
           DROP \<Rightarrow>
             (case dict_del sid (gpu r2) of
                Inl e \<Rightarrow> Inl e
              | Inr g \<Rightarrow> enforce_capacity now (r2\<lparr>gpu := g, evictions := evictions r2 + 1\<rparr>))
         | OFFLOAD_DRAM \<Rightarrow> enforce_capacity now (demote entry r2)
         | PIN_GPU \<Rightarrow> enforce_capacity now r2)"

subsection \<open>The invariant\<close>

definition entry_ok :: "cache_tier \<Rightarrow> string \<Rightarrow> cache_entry \<Rightarrow> bool" where
  "entry_ok t k e \<longleftrightarrow> ce_session_id e = k \<and> 0 \<le> ce_tokens e \<and> ce_tier e = t"

definition entries_ok :: "cache_tier \<Rightarrow> (string, cache_entry) dict \<Rightarrow> bool" where
  "entries_ok t d \<longleftrightarrow> wf_dict d \<and> (\<forall>(k, e) \<in> set d. entry_ok t k e)"

definition wf_replica :: "replica \<Rightarrow> bool" where
  "wf_replica r \<longleftrightarrow>
     entries_ok GPU (gpu r) \<and> entries_ok DRAM (dram r) \<and>
     (\<forall>k \<in> set (dict_keys (gpu r)). k \<notin> set (dict_keys (dram r))) \<and>
     dram_tokens r \<le> dram_cache_tokens (hw r) \<and> 0 \<le> gpu_cache_tokens (hw r) \<and>
     0 \<le> active r \<and> active r \<le> peak_active r \<and> 0 \<le> evictions r \<and> 0 \<le> offloads r"

lemma entry_okD:
  assumes "entry_ok t k e"
  shows "ce_session_id e = k" "0 \<le> ce_tokens e" "ce_tier e = t"
  using assms by (simp_all add: entry_ok_def)

lemma entries_ok_entry: "entries_ok t d \<Longrightarrow> map_of d k = Some e \<Longrightarrow> entry_ok t k e"
  by (auto simp: entries_ok_def dest: map_of_SomeD)

lemmas entries_okD = entry_okD [OF entries_ok_entry]

lemma entries_ok_wf [simp, intro]: "entries_ok t d \<Longrightarrow> wf_dict d"
  by (simp add: entries_ok_def)

lemma entries_ok_Nil [simp]: "entries_ok t []"
  by (simp add: entries_ok_def)

lemma entries_ok_delete [simp, intro, wf_intros]: "entries_ok t d \<Longrightarrow> entries_ok t (AList.delete k d)"
  by (auto simp: entries_ok_def set_delete)

lemma entries_ok_update [wf_intros]:
  "entries_ok t d \<Longrightarrow> entry_ok t k e \<Longrightarrow> entries_ok t (AList.update k e d)"
  by (auto simp: entries_ok_def set_update)

lemma entries_ok_values:
  assumes d: "entries_ok t d" and e: "e \<in> set (dict_values d)"
  shows "map_of d (ce_session_id e) = Some e" "0 \<le> ce_tokens e"
proof -
  obtain k where k: "map_of d k = Some e" using values_map_of [OF entries_ok_wf [OF d] e] ..
  from entries_okD [OF d k] k show "map_of d (ce_session_id e) = Some e" "0 \<le> ce_tokens e" by simp_all
qed

lemma entries_ok_ids: "entries_ok t d \<Longrightarrow> map ce_session_id (dict_values d) = dict_keys d"
  by (auto simp: entries_ok_def entry_ok_def)

lemma entries_ok_sum_nonneg: "entries_ok t d \<Longrightarrow> 0 \<le> dict_sum ce_tokens d"
  by (rule dict_sum_nonneg) (rule entries_ok_values(2))

lemma store_entry_simps [simp]:
  "ce_session_id (store_entry sid n now ret) = sid" "ce_tokens (store_entry sid n now ret) = n"
  "ce_tier (store_entry sid n now ret) = GPU" "last_touch_ms (store_entry sid n now ret) = now"
  "predicted_return_ms (store_entry sid n now ret) = ret"
  by (simp_all add: store_entry_def)

lemma wf_new_replica [wf_intros]:
  "0 \<le> gpu_cache_tokens h \<Longrightarrow> 0 \<le> dram_cache_tokens h \<Longrightarrow> wf_replica (new_replica i h pol)"
  by (simp add: wf_replica_def new_replica_def dram_tokens_def)

subsection \<open>Slots\<close>

lemma wf_slot_enter [wf_intros]: "wf_replica r \<Longrightarrow> wf_replica (slot_enter r)"
  by (simp add: wf_replica_def slot_enter_def dram_tokens_def Let_def)

lemma wf_slot_exit [wf_intros]: "wf_replica r \<Longrightarrow> wf_replica (slot_exit r)"
  by (auto simp: wf_replica_def slot_exit_def dram_tokens_def)

lemma wf_prune [wf_intros]: "wf_replica r \<Longrightarrow> wf_replica (prune now r)"
  by (simp add: wf_replica_def prune_def dram_tokens_def)

lemma slot_exit_enter: "0 \<le> active r \<Longrightarrow> active (slot_exit (slot_enter r)) = active r"
  by (simp add: slot_exit_def slot_enter_def Let_def)

subsection \<open>Giving up one entry\<close>

lemma wf_replicaD:
  assumes "wf_replica r"
  shows "entries_ok GPU (gpu r)" "entries_ok DRAM (dram r)"
    "dram_tokens r \<le> dram_cache_tokens (hw r)" "0 \<le> gpu_cache_tokens (hw r)"
    "map_of (gpu r) k = Some e \<Longrightarrow> map_of (dram r) k = None"
    "map_of (dram r) k = Some e \<Longrightarrow> map_of (gpu r) k = None"
  using assms by (auto simp: wf_replica_def map_of_eq_None_iff dest!: map_of_SomeD) (metis fst_conv imageI)+

lemma demote_frame [simp]:
  "rep_id (demote e r) = rep_id r" "hw (demote e r) = hw r" "policy (demote e r) = policy r"
  "free_at_ms (demote e r) = free_at_ms r" "pending (demote e r) = pending r"
  "active (demote e r) = active r" "peak_active (demote e r) = peak_active r"
  "gpu (demote e r) = AList.delete (ce_session_id e) (gpu r)"
  by (simp_all add: demote_def Let_def)

lemma give_up_frame [simp]:
  "rep_id (give_up now e r) = rep_id r" "hw (give_up now e r) = hw r"
  "policy (give_up now e r) = policy r"
  "free_at_ms (give_up now e r) = free_at_ms r" "pending (give_up now e r) = pending r"
  "active (give_up now e r) = active r" "peak_active (give_up now e r) = peak_active r"
  "gpu (give_up now e r) = AList.delete (ce_session_id e) (gpu r)"
  by (simp_all add: give_up_def)

lemma demote_dram:
  "dram (demote e r) = dram r \<or>
   dram (demote e r) = AList.update (ce_session_id e) (e\<lparr>ce_tier := DRAM\<rparr>) (dram r) \<and>
     dram_tokens r + ce_tokens e \<le> dram_cache_tokens (hw r)"
  by (simp add: demote_def dram_tokens_def Let_def)

lemma dram_tokens_update:
  assumes "entries_ok DRAM d" and "0 \<le> ce_tokens e"
  shows "dict_sum ce_tokens (AList.update k (e\<lparr>ce_tier := DRAM\<rparr>) d) \<le> dict_sum ce_tokens d + ce_tokens e"
  using assms entries_okD(2) [OF assms(1)]
  by (auto simp: dict_sum_update split: option.splits)

lemma wf_demote [wf_intros]:
  assumes r: "wf_replica r" and e: "0 \<le> ce_tokens e"
  shows "wf_replica (demote e r)"
proof -
  have "entry_ok DRAM (ce_session_id e) (e\<lparr>ce_tier := DRAM\<rparr>)" using e by (simp add: entry_ok_def)
  then have "entries_ok DRAM (dram (demote e r))"
    using demote_dram [of e r] wf_replicaD(2) [OF r] by (auto intro: wf_intros)
  moreover have "dram_tokens (demote e r) \<le> dram_cache_tokens (hw r)"
    using demote_dram [of e r] dram_tokens_update [OF wf_replicaD(2) [OF r] e, of "ce_session_id e"]
      wf_replicaD(3) [OF r] by (auto simp: dram_tokens_def)
  moreover have "\<forall>k \<in> set (dict_keys (gpu (demote e r))). k \<notin> set (dict_keys (dram (demote e r)))"
    using demote_dram [of e r] r by (auto simp: wf_replica_def keys_delete keys_update simp del: set_map)
  ultimately show ?thesis
    using r by (simp add: wf_replica_def) (simp add: demote_def Let_def)
qed

lemma wf_evict:
  "wf_replica r \<Longrightarrow> wf_replica (r\<lparr>gpu := AList.delete k (gpu r), evictions := evictions r + 1\<rparr>)"
  by (auto simp: wf_replica_def dram_tokens_def keys_delete simp del: set_map)

lemma wf_give_up [wf_intros]: "wf_replica r \<Longrightarrow> 0 \<le> ce_tokens e \<Longrightarrow> wf_replica (give_up now e r)"
  by (simp add: give_up_def wf_demote wf_evict)

subsection \<open>Shedding\<close>

text \<open>
  The loop is handed every entry of the GPU tier once. \<open>covers\<close> says so, and holds again for
  the rest of the list after one entry was given up; every fact about the loop is an instance
  of the invariant rule \<open>shed_invariant\<close>.
\<close>

definition covers :: "cache_entry list \<Rightarrow> replica \<Rightarrow> bool" where
  "covers es r \<longleftrightarrow> distinct (map ce_session_id es) \<and>
     (\<forall>k e. map_of (gpu r) k = Some e \<longleftrightarrow> e \<in> set es \<and> ce_session_id e = k)"

lemma covers_step: "covers (e # es) r \<Longrightarrow> covers es (give_up now e r)"
  by (auto simp: covers_def image_iff)

lemma covers_head: "covers (e # es) r \<Longrightarrow> map_of (gpu r) (ce_session_id e) = Some e"
  by (simp add: covers_def)

lemma covers_Nil: "covers [] r \<Longrightarrow> gpu r = []"
  by (cases "gpu r") (auto simp: covers_def split: if_splits)

lemma covers_values:
  assumes r: "entries_ok GPU (gpu r)" and perm: "mset es = mset (dict_values (gpu r))"
  shows "covers es r"
proof -
  have "mset (map ce_session_id es) = mset (dict_keys (gpu r))"
    by (metis perm entries_ok_ids [OF r] mset_map)
  then have "distinct (map ce_session_id es)"
    using entries_ok_wf [OF r] by (metis mset_eq_imp_distinct_iff)
  moreover have "map_of (gpu r) k = Some e \<longleftrightarrow> e \<in> set es \<and> ce_session_id e = k" for k e
    using entries_ok_values(1) [OF r, of e] entries_okD(1) [OF r, of k e] map_of_in_values [of "gpu r" k e]
      mset_eq_setD [OF perm] by auto
  ultimately show ?thesis by (simp add: covers_def)
qed

lemma shed_invariant:
  assumes "I r" and "covers es r"
    and step: "\<And>r e. I r \<Longrightarrow> map_of (gpu r) (ce_session_id e) = Some e \<Longrightarrow> I (give_up now e r)"
  shows "I (shed now es r)"
  using assms(1,2)
  by (induction es arbitrary: r) (auto intro: step dest: covers_step covers_head)

lemma shed_frame [simp]:
  "rep_id (shed now es r) = rep_id r" "hw (shed now es r) = hw r"
  "policy (shed now es r) = policy r"
  "free_at_ms (shed now es r) = free_at_ms r" "pending (shed now es r) = pending r"
  "active (shed now es r) = active r" "peak_active (shed now es r) = peak_active r"
  by (induction es arbitrary: r) simp_all

lemma wf_shed:
  assumes "wf_replica r" and "covers es r"
  shows "wf_replica (shed now es r)"
  by (rule shed_invariant [where I = wf_replica, OF assms])
    (blast intro: wf_give_up entries_okD(2) wf_replicaD(1))

lemma shed_capacity:
  "covers es r \<Longrightarrow> 0 \<le> gpu_cache_tokens (hw r) \<Longrightarrow> gpu_tokens (shed now es r) \<le> gpu_cache_tokens (hw r)"
proof (induction es arbitrary: r)
  case Nil
  then show ?case by (simp add: covers_Nil gpu_tokens_def)
next
  case (Cons e es)
  then show ?case using Cons.IH [OF covers_step [OF Cons.prems(1)], of now] by simp
qed

lemma trim_dram_within: "dram_tokens r \<le> dram_cache_tokens (hw r) \<Longrightarrow> trim_dram r = Inr r"
  by (subst trim_dram.simps) simp

subsection \<open>Enforcing the capacity\<close>

context retention_policy
begin

lemma covers_victims:
  "wf_replica r \<Longrightarrow> covers (victim_order pol (dict_values (gpu r)) now) r"
  by (intro covers_values wf_replicaD(1) victim_order_mset)

lemma enforce_capacity_eq:
  assumes "wf_replica r" and "policy r = pol"
  shows "enforce_capacity now r = Inr (shed now (victim_order pol (dict_values (gpu r)) now) r)"
proof -
  let ?es = "victim_order pol (dict_values (gpu r)) now"
  have "wf_replica (shed now ?es r)" by (intro wf_shed covers_victims assms)
  then have "trim_dram (shed now ?es r) = Inr (shed now ?es r)"
    by (intro trim_dram_within wf_replicaD(3))
  moreover have "gpu_tokens r \<le> gpu_cache_tokens (hw r) \<Longrightarrow> shed now ?es r = r"
    by (cases ?es) simp_all
  ultimately show ?thesis using assms(2) by (simp add: enforce_capacity_def)
qed

lemma enforce_invariant:
  assumes r: "wf_replica r" "policy r = pol" and "I r"
    and step: "\<And>r e. I r \<Longrightarrow> map_of (gpu r) (ce_session_id e) = Some e \<Longrightarrow> I (give_up now e r)"
  shows "\<exists>r'. enforce_capacity now r = Inr r' \<and> I r' \<and> wf_replica r' \<and>
    gpu_tokens r' \<le> gpu_cache_tokens (hw r') \<and> hw r' = hw r \<and> policy r' = pol \<and> rep_id r' = rep_id r"
  using enforce_capacity_eq [OF r] shed_invariant [of I, OF assms(3) covers_victims [OF r(1)] step]
    wf_shed [OF r(1) covers_victims [OF r(1)]] shed_capacity [OF covers_victims [OF r(1)]]
    wf_replicaD(4) [OF r(1)] r(2)
  by auto

end

subsection \<open>Storing\<close>

text \<open>
  \<open>place\<close> is \<open>store\<close> before its last line: the new entry where the policy wants it, the
  capacity not yet enforced.
\<close>

definition place :: "string \<Rightarrow> int \<Rightarrow> real \<Rightarrow> real \<Rightarrow> replica \<Rightarrow> replica" where
  "place sid n now ret r =
     (let entry = store_entry sid n now ret;
          r2 = r\<lparr>dram := AList.delete sid (dram r), gpu := AList.update sid entry (gpu r)\<rparr>
      in case on_release (policy r) entry now of
           DROP \<Rightarrow> r2\<lparr>gpu := AList.delete sid (gpu r2), evictions := evictions r + 1\<rparr>
         | OFFLOAD_DRAM \<Rightarrow> demote entry r2
         | PIN_GPU \<Rightarrow> r2)"

lemma store_place: "store sid n now ret r = enforce_capacity now (place sid n now ret r)"
  by (simp add: store_def place_def Let_def dict_del_def keys_update del: set_map split: placement.split)

lemma place_frame [simp]:
  "rep_id (place sid n now ret r) = rep_id r" "hw (place sid n now ret r) = hw r"
  "policy (place sid n now ret r) = policy r"
  by (simp_all add: place_def Let_def split: placement.split)

lemma wf_install:
  assumes r: "wf_replica r" and n: "0 \<le> n"
  shows "wf_replica (r\<lparr>dram := AList.delete sid (dram r),
    gpu := AList.update sid (store_entry sid n now ret) (gpu r)\<rparr>)"
proof -
  have "entries_ok GPU (AList.update sid (store_entry sid n now ret) (gpu r))"
    using wf_replicaD(1) [OF r] n by (intro wf_intros) (simp_all add: entry_ok_def)
  moreover have "dict_sum ce_tokens (AList.delete sid (dram r)) \<le> dict_sum ce_tokens (dram r)"
    using wf_replicaD(2) [OF r] entries_okD(2) [OF wf_replicaD(2) [OF r]]
    by (auto simp: dict_sum_delete split: option.splits)
  ultimately show ?thesis
    using r by (auto simp: wf_replica_def dram_tokens_def keys_update keys_delete simp del: set_map)
qed

lemma wf_place [wf_intros]:
  assumes "wf_replica r" and "0 \<le> n"
  shows "wf_replica (place sid n now ret r)"
  using wf_install [OF assms, of sid now ret] assms(2)
  by (auto simp: place_def Let_def wf_demote dest: wf_evict [of _ sid] split: placement.split)

text \<open>
  The policies a replica of this program is ever built with. Both satisfy the interface, and
  with it every replica operation keeps the invariant.
\<close>

definition code_policy :: "cache_policy \<Rightarrow> bool" where
  "code_policy pol \<longleftrightarrow> pol = lru_policy \<or> (\<exists>c. pol = adaptive_policy c)"

lemma code_policy_simps [simp]: "code_policy lru_policy" "code_policy (adaptive_policy c)"
  by (auto simp: code_policy_def)

lemma code_policy_retention: "code_policy pol \<Longrightarrow> retention_policy pol"
  using lru.retention_policy_axioms adaptive.retention_policy_axioms by (auto simp: code_policy_def)

lemma store_invariant:
  assumes r: "wf_replica r" "code_policy (policy r)" and n: "0 \<le> n"
    and I: "I (place sid n now ret r)"
    and step: "\<And>r e. I r \<Longrightarrow> map_of (gpu r) (ce_session_id e) = Some e \<Longrightarrow> I (give_up now e r)"
  shows "\<exists>r'. store sid n now ret r = Inr r' \<and> I r' \<and> wf_replica r' \<and>
    gpu_tokens r' \<le> gpu_cache_tokens (hw r') \<and> hw r' = hw r \<and> policy r' = policy r \<and> rep_id r' = rep_id r"
proof -
  have pol: "retention_policy (policy r)" using r(2) by (rule code_policy_retention)
  have "\<exists>r'. enforce_capacity now (place sid n now ret r) = Inr r' \<and> I r' \<and> wf_replica r' \<and>
      gpu_tokens r' \<le> gpu_cache_tokens (hw r') \<and> hw r' = hw (place sid n now ret r) \<and>
      policy r' = policy r \<and> rep_id r' = rep_id (place sid n now ret r)"
    by (rule retention_policy.enforce_invariant [where I = I, OF pol wf_place [OF r(1) n] place_frame(3) I])
      (rule step)
  then show ?thesis by (simp only: store_place place_frame)
qed

lemma store_wf:
  assumes "wf_replica r" "code_policy (policy r)" "0 \<le> n"
  shows "\<exists>r'. store sid n now ret r = Inr r' \<and> wf_replica r' \<and>
    gpu_tokens r' \<le> gpu_cache_tokens (hw r') \<and> hw r' = hw r \<and> policy r' = policy r \<and> rep_id r' = rep_id r"
  using store_invariant [OF assms, of "\<lambda>_. True"] by simp

subsection \<open>Load is untouched\<close>

definition load_of :: "replica \<Rightarrow> real \<times> real list \<times> int \<times> int" where
  "load_of r = (free_at_ms r, pending r, active r, peak_active r)"

lemma give_up_load [simp]: "load_of (give_up now e r) = load_of r"
  by (simp add: load_of_def)

lemma place_load [simp]: "load_of (place sid n now ret r) = load_of r"
  by (simp add: load_of_def place_def Let_def split: placement.split)

lemma store_load:
  assumes "wf_replica r" "code_policy (policy r)" "0 \<le> n" and "store sid n now ret r = Inr r'"
  shows "load_of r' = load_of r"
  using store_invariant [OF assms(1-3), of "\<lambda>q. load_of q = load_of r" sid now ret] assms(4) by auto

text \<open>
  Whatever is stored, and whatever the state of the cache, a store leaves everything that is not
  cache content alone: identity, configuration and the load the router looks at.
\<close>

definition frame_of :: "replica \<Rightarrow> int \<times> hardware_profile \<times> cache_policy \<times> (real \<times> real list \<times> int \<times> int)" where
  "frame_of r = (rep_id r, hw r, policy r, load_of r)"

lemma frame_of_updates [simp]:
  "frame_of (r\<lparr>gpu := g\<rparr>) = frame_of r" "frame_of (r\<lparr>dram := d\<rparr>) = frame_of r"
  "frame_of (r\<lparr>evictions := n\<rparr>) = frame_of r" "frame_of (r\<lparr>offloads := n\<rparr>) = frame_of r"
  by (simp_all add: frame_of_def load_of_def)

lemma frame_of_demote [simp]: "frame_of (demote e r) = frame_of r"
  by (simp add: demote_def Let_def)

lemma frame_of_give_up [simp]: "frame_of (give_up now e r) = frame_of r"
  by (simp add: give_up_def)

lemma frame_of_shed [simp]: "frame_of (shed now vs r) = frame_of r"
  by (induction now vs r rule: shed.induct) simp_all

lemma frame_of_trim: "trim_dram r = Inr r' \<Longrightarrow> frame_of r' = frame_of r"
proof (induction r rule: trim_dram.induct)
  case (1 r)
  then show ?case
    by (subst (asm) trim_dram.simps)
      (auto simp: Let_def split: if_splits sum.splits)
qed

lemma frame_of_enforce: "enforce_capacity now r = Inr r' \<Longrightarrow> frame_of r' = frame_of r"
  by (auto simp: enforce_capacity_def dest: frame_of_trim split: if_splits)

lemma frame_of_store: "store sid n now ret r = Inr r' \<Longrightarrow> frame_of r' = frame_of r"
  by (auto simp: store_def Let_def dest!: frame_of_enforce split: placement.splits sum.splits)

subsection \<open>Every entry is accounted for\<close>

definition accounted :: "replica \<Rightarrow> int" where
  "accounted r = int (length (gpu r)) + int (length (dram r)) + evictions r"

lemma demote_accounted:
  assumes "wf_dict (gpu r)" and "map_of (gpu r) (ce_session_id e) \<noteq> None"
    and "map_of (dram r) (ce_session_id e) = None"
  shows "accounted (demote e r) = accounted r"
  using assms by (simp add: accounted_def demote_def Let_def length_delete length_update)

lemma give_up_accounted:
  assumes r: "wf_replica r" and e: "map_of (gpu r) (ce_session_id e) = Some e"
  shows "accounted (give_up now e r) = accounted r"
proof -
  note [simp] = wf_replicaD(5) [OF r e] e
  have "wf_dict (gpu r)" using wf_replicaD(1) [OF r] ..
  then show ?thesis
    by (simp add: give_up_def demote_accounted) (simp add: accounted_def length_delete)
qed

lemma place_accounted:
  assumes r: "wf_replica r"
  shows "accounted (place sid n now ret r) = accounted r + (if lookup sid r = (MISS, 0) then 1 else 0)"
proof -
  let ?e = "store_entry sid n now ret"
  let ?r2 = "r\<lparr>dram := AList.delete sid (dram r), gpu := AList.update sid ?e (gpu r)\<rparr>"
  have wf: "wf_dict (gpu r)" "wf_dict (dram r)" using wf_replicaD(1,2) [OF r] by auto
  have r2: "accounted ?r2 = accounted r + (if lookup sid r = (MISS, 0) then 1 else 0)"
  proof (cases "map_of (gpu r) sid")
    case None
    with wf show ?thesis
      by (cases "map_of (dram r) sid") (simp_all add: accounted_def lookup_def length_delete length_update)
  next
    case (Some e)
    with wf wf_replicaD(5) [OF r Some] show ?thesis
      by (simp add: accounted_def lookup_def length_delete length_update)
  qed
  moreover have "accounted (demote ?e ?r2) = accounted ?r2"
    using wf by (intro demote_accounted) simp_all
  moreover have "accounted (?r2\<lparr>gpu := AList.delete sid (gpu ?r2), evictions := evictions r + 1\<rparr>) = accounted ?r2"
    using wf by (simp add: accounted_def length_delete length_update)
  ultimately show ?thesis by (simp add: place_def Let_def split: placement.split)
qed

subsection \<open>Other sessions: degraded, never altered\<close>

text \<open>
  What may happen to a session's cached prefix while other requests are served: nothing, a move
  from the GPU to host memory with the same coverage, or its loss.
\<close>

definition degraded :: "cache_tier \<times> int \<Rightarrow> cache_tier \<times> int \<Rightarrow> bool" where
  "degraded old new \<longleftrightarrow> new = old \<or> new = (MISS, 0) \<or> old = (GPU, snd new) \<and> fst new = DRAM"

lemma degraded_refl [simp, intro]: "degraded x x"
  by (simp add: degraded_def)

lemma degraded_trans: "degraded x y \<Longrightarrow> degraded y z \<Longrightarrow> degraded x z"
  by (auto simp: degraded_def)

lemma lookup_cong:
  "map_of (gpu q) s = map_of (gpu r) s \<Longrightarrow> map_of (dram q) s = map_of (dram r) s \<Longrightarrow>
     lookup s q = lookup s r"
  by (simp add: lookup_def split: option.split)

lemma lookup_demote:
  assumes "map_of (dram r) (ce_session_id e) = None"
  shows "lookup s (demote e r) =
    (if s = ce_session_id e
     then if dram_tokens r + ce_tokens e \<le> dram_cache_tokens (hw r) then (DRAM, ce_tokens e) else (MISS, 0)
     else lookup s r)"
proof (cases "s = ce_session_id e")
  case True
  then show ?thesis using assms by (simp add: lookup_def demote_def Let_def dram_tokens_def)
next
  case False
  then have "lookup s (demote e r) = lookup s r"
    by (intro lookup_cong) (simp_all add: demote_def Let_def)
  with False show ?thesis by simp
qed

lemma lookup_evict:
  assumes "map_of (dram r) k = None"
  shows "lookup s (r\<lparr>gpu := AList.delete k (gpu r), evictions := x\<rparr>) =
    (if s = k then (MISS, 0) else lookup s r)"
proof (cases "s = k")
  case True
  then show ?thesis using assms by (simp add: lookup_def)
next
  case False
  then have "lookup s (r\<lparr>gpu := AList.delete k (gpu r), evictions := x\<rparr>) = lookup s r"
    by (intro lookup_cong) simp_all
  with False show ?thesis by simp
qed

lemma give_up_lookup:
  assumes r: "wf_replica r" and e: "map_of (gpu r) (ce_session_id e) = Some e"
  shows "degraded (lookup s r) (lookup s (give_up now e r))"
  using wf_replicaD(5) [OF r e] e
  by (auto simp: give_up_def lookup_demote lookup_evict degraded_def) (simp_all add: lookup_def)

lemma lookup_place:
  assumes "wf_replica r"
  shows "lookup s (place sid n now ret r) =
    (if s \<noteq> sid then lookup s r
     else case on_release (policy r) (store_entry sid n now ret) now of
            PIN_GPU \<Rightarrow> (GPU, n)
          | OFFLOAD_DRAM \<Rightarrow>
              if dict_sum ce_tokens (AList.delete sid (dram r)) + n \<le> dram_cache_tokens (hw r)
              then (DRAM, n) else (MISS, 0)
          | DROP \<Rightarrow> (MISS, 0))"
proof (cases "s = sid")
  case True
  then show ?thesis
    by (simp add: place_def Let_def lookup_demote dram_tokens_def split: placement.split)
      (simp add: lookup_def)
next
  case False
  then have "lookup s (place sid n now ret r) = lookup s r"
    by (intro lookup_cong) (simp_all add: place_def demote_def Let_def split: placement.split)
  with False show ?thesis by simp
qed

lemma store_lookup:
  assumes "wf_replica r" "code_policy (policy r)" "0 \<le> n"
  shows "\<exists>r'. store sid n now ret r = Inr r' \<and>
    (\<forall>s. degraded (lookup s (place sid n now ret r)) (lookup s r'))"
proof -
  let ?I = "\<lambda>q. wf_replica q \<and> (\<forall>s. degraded (lookup s (place sid n now ret r)) (lookup s q))"
  have "?I (give_up now e q)" if "?I q" "map_of (gpu q) (ce_session_id e) = Some e" for q e
    using that give_up_lookup [of q e] wf_give_up [of q e now]
      entries_okD(2) [OF wf_replicaD(1) that(2)] by (blast intro: degraded_trans)
  then have "\<exists>r'. store sid n now ret r = Inr r' \<and> ?I r' \<and> wf_replica r' \<and>
      gpu_tokens r' \<le> gpu_cache_tokens (hw r') \<and> hw r' = hw r \<and> policy r' = policy r \<and> rep_id r' = rep_id r"
    by (intro store_invariant [OF assms]) (simp_all add: wf_place assms)
  then show ?thesis by (elim exE conjE) (rule exI, rule conjI)
qed

subsection \<open>No more victims than needed\<close>

definition gpu_without :: "cache_entry list \<Rightarrow> replica \<Rightarrow> (string, cache_entry) dict" where
  "gpu_without es r = filter (\<lambda>(k, e). k \<notin> set (map ce_session_id es)) (gpu r)"

lemma gpu_without_Nil [simp]: "gpu_without [] r = gpu r"
  by (simp add: gpu_without_def)

lemma gpu_without_Cons: "gpu_without (e # es) r = gpu_without es (give_up now e r)" for now
  by (auto simp: gpu_without_def AList.delete_eq intro!: filter_cong)

lemma shed_prefix:
  "\<exists>n \<le> length es. gpu (shed now es r) = gpu_without (take n es) r \<and>
     (\<forall>m < n. gpu_cache_tokens (hw r) < dict_sum ce_tokens (gpu_without (take m es) r))"
proof (induction es arbitrary: r)
  case Nil
  then show ?case by simp
next
  case (Cons e es)
  show ?case
  proof (cases "gpu_tokens r \<le> gpu_cache_tokens (hw r)")
    case True
    then show ?thesis by (intro exI [of _ 0]) simp
  next
    case False
    obtain n where n: "n \<le> length es" "gpu (shed now es (give_up now e r)) = gpu_without (take n es) (give_up now e r)"
      "\<forall>m < n. gpu_cache_tokens (hw r) < dict_sum ce_tokens (gpu_without (take m es) (give_up now e r))"
      using Cons.IH [of "give_up now e r"] by auto
    have "gpu_cache_tokens (hw r) < dict_sum ce_tokens (gpu_without (take m (e # es)) r)" if "m < Suc n" for m
      using that n(3) False by (cases m) (simp_all add: gpu_tokens_def gpu_without_Cons [of e _ r now])
    with n(1,2) False show ?thesis
      by (intro exI [of _ "Suc n"]) (simp add: gpu_without_Cons [of e _ r now])
  qed
qed

subsection \<open>Pinned entries\<close>

text \<open>
  \<open>store\<close> keeps an entry on the GPU only when the policy says so, and the policies judge an
  entry by itself: whatever is on the GPU is pinned, except possibly a session that was just
  promoted and is about to be stored again.
\<close>

definition pinned_except :: "string \<Rightarrow> replica \<Rightarrow> bool" where
  "pinned_except sid r \<longleftrightarrow>
     (\<forall>(k, e) \<in> set (gpu r). k \<noteq> sid \<longrightarrow> on_release (policy r) e 0 = PIN_GPU)"

definition pinned :: "replica \<Rightarrow> bool" where
  "pinned r \<longleftrightarrow> (\<forall>(k, e) \<in> set (gpu r). on_release (policy r) e 0 = PIN_GPU)"

lemma pinned_pinned_except: "pinned r \<Longrightarrow> pinned_except sid r"
  by (auto simp: pinned_def pinned_except_def)

lemma code_policy_time_free: "code_policy pol \<Longrightarrow> on_release pol e now = on_release pol e now'"
  unfolding code_policy_def
  using lru.on_release_time_free [of e now now'] adaptive.on_release_time_free [of _ e now now'] by auto

lemma pinned_delete:
  "pinned r \<Longrightarrow> pinned (r\<lparr>gpu := AList.delete k (gpu r), evictions := x\<rparr>)"
  by (auto simp: pinned_def set_delete)

lemma pinned_place:
  assumes r: "wf_replica r" and pol: "code_policy (policy r)" and pin: "pinned_except sid r"
  shows "pinned (place sid n now ret r)"
proof -
  have "wf_dict (gpu r)" using wf_replicaD(1) [OF r] ..
  then show ?thesis
    using pin code_policy_time_free [OF pol, of "store_entry sid n now ret" now 0]
    by (auto simp: place_def Let_def pinned_def pinned_except_def set_delete set_update
        split: placement.split)
qed

lemma give_up_pinned:
  assumes "code_policy (policy r)" "pinned r" and e: "map_of (gpu r) (ce_session_id e) = Some e"
  shows "give_up now e r =
    r\<lparr>gpu := AList.delete (ce_session_id e) (gpu r), evictions := evictions r + 1\<rparr>"
proof -
  have "on_release (policy r) e 0 = PIN_GPU" using assms(2) map_of_SomeD [OF e] by (auto simp: pinned_def)
  then have "on_release (policy r) e now = PIN_GPU"
    using code_policy_time_free [OF assms(1), of e now 0] by simp
  then show ?thesis by (simp add: give_up_def)
qed

lemma store_pinned:
  assumes r: "wf_replica r" "code_policy (policy r)" "0 \<le> n" and pin: "pinned_except sid r"
  shows "\<exists>r'. store sid n now ret r = Inr r' \<and> pinned r' \<and>
    dram r' = dram (place sid n now ret r) \<and> offloads r' = offloads (place sid n now ret r)"
proof -
  let ?p = "place sid n now ret r"
  let ?I = "\<lambda>q. pinned q \<and> code_policy (policy q) \<and> dram q = dram ?p \<and> offloads q = offloads ?p"
  have "?I (give_up now e q)" if "?I q" "map_of (gpu q) (ce_session_id e) = Some e" for q e
    using that by (simp add: give_up_pinned pinned_delete)
  then have "\<exists>r'. store sid n now ret r = Inr r' \<and> ?I r' \<and> wf_replica r' \<and>
      gpu_tokens r' \<le> gpu_cache_tokens (hw r') \<and> hw r' = hw r \<and> policy r' = policy r \<and> rep_id r' = rep_id r"
    by (intro store_invariant [OF r]) (simp_all add: pinned_place r pin)
  then show ?thesis by blast
qed

subsection \<open>Properties\<close>

definition example_hw :: hardware_profile where
  "example_hw = default_hardware\<lparr>gpu_cache_tokens := 10000, dram_cache_tokens := 50000\<rparr>"

definition example_replica :: "cache_policy \<Rightarrow> replica" where
  "example_replica pol = (new_replica 0 example_hw pol)
     \<lparr>gpu := [(''a'', example_entry ''a'' 4000 0 1000), (''b'', example_entry ''b'' 5000 10 700)],
      dram := [(''c'', (example_entry ''c'' 3000 5 45000)\<lparr>ce_tier := DRAM\<rparr>)]\<rparr>"

lemma example_replica_simps [simp]:
  "policy (example_replica pol) = pol" "hw (example_replica pol) = example_hw"
  "rep_id (example_replica pol) = 0" "offloads (example_replica pol) = 0"
  "gpu (example_replica pol) =
     [(''a'', example_entry ''a'' 4000 0 1000), (''b'', example_entry ''b'' 5000 10 700)]"
  "dram (example_replica pol) = [(''c'', (example_entry ''c'' 3000 5 45000)\<lparr>ce_tier := DRAM\<rparr>)]"
  by (simp_all add: example_replica_def new_replica_def)

lemma wf_example_replica [simp]: "wf_replica (example_replica pol)"
  by (simp add: wf_replica_def entries_ok_def entry_ok_def dram_tokens_def example_replica_def
      new_replica_def example_hw_def default_hardware_def example_entry_def)

text \<open>
  C1: Storing a session's cache after a request never fails and re-establishes the replica's
  invariant: both tiers are keyed by session, no session is in both, host memory is within its
  budget, and the GPU tier is back under its token budget, whatever the policy decides and
  however large the new entry is.
\<close>

theorem store_keeps_invariant:
  assumes "wf_replica r" and "code_policy (policy r)" and "0 \<le> n"
  shows "\<exists>r'. store sid n now ret r = Inr r' \<and> wf_replica r' \<and>
    gpu_tokens r' \<le> gpu_cache_tokens (hw r') \<and> dram_tokens r' \<le> dram_cache_tokens (hw r') \<and>
    hw r' = hw r \<and> policy r' = policy r \<and> rep_id r' = rep_id r \<and> load_of r' = load_of r"
  using store_wf [OF assms, of sid now ret] store_load [OF assms] wf_replicaD(3) by blast

lemma store_keeps_invariant_witness:
  "\<exists>r'. store ''d'' 99000 20 50 (example_replica lru_policy) = Inr r' \<and> wf_replica r' \<and>
    gpu_tokens r' \<le> gpu_cache_tokens (hw r') \<and> dram_tokens r' \<le> dram_cache_tokens (hw r') \<and>
    hw r' = hw (example_replica lru_policy) \<and> policy r' = policy (example_replica lru_policy) \<and>
    rep_id r' = rep_id (example_replica lru_policy) \<and> load_of r' = load_of (example_replica lru_policy)"
  by (rule store_keeps_invariant) simp_all

text \<open>
  C11: No cache entry vanishes unrecorded. Across a store, the entries on the GPU plus the
  entries in host memory plus the eviction counter grow by exactly one when the session had no
  entry, and stay the same when it had one: every entry that left was counted as an eviction,
  and an offload is not a loss.
\<close>

theorem store_accounts_for_every_entry:
  assumes "wf_replica r" and "code_policy (policy r)" and "0 \<le> n"
  shows "\<exists>r'. store sid n now ret r = Inr r' \<and>
    int (length (gpu r')) + int (length (dram r')) + evictions r' =
    int (length (gpu r)) + int (length (dram r)) + evictions r +
      (if fst (lookup sid r) = MISS then 1 else 0)"
proof -
  let ?I = "\<lambda>q. wf_replica q \<and> accounted q = accounted (place sid n now ret r)"
  have "?I (give_up now e q)" if "?I q" "map_of (gpu q) (ce_session_id e) = Some e" for q e
    using that give_up_accounted [of q e now] wf_give_up [of q e now]
      entries_okD(2) [OF wf_replicaD(1) that(2)] by simp
  then have "\<exists>r'. store sid n now ret r = Inr r' \<and> ?I r' \<and> wf_replica r' \<and>
      gpu_tokens r' \<le> gpu_cache_tokens (hw r') \<and> hw r' = hw r \<and> policy r' = policy r \<and> rep_id r' = rep_id r"
    by (intro store_invariant [OF assms]) (simp_all add: wf_place assms)
  moreover have "lookup sid r = (MISS, 0) \<longleftrightarrow> fst (lookup sid r) = MISS"
    by (simp add: lookup_def split: option.split)
  ultimately show ?thesis
    using place_accounted [OF assms(1), of sid n now ret] by (auto simp: accounted_def)
qed

lemma store_accounts_for_every_entry_witness:
  "\<exists>r'. store ''c'' 8000 20 50 (example_replica (adaptive_policy default_policy_config)) = Inr r' \<and>
    int (length (gpu r')) + int (length (dram r')) + evictions r' =
    int (length (gpu (example_replica (adaptive_policy default_policy_config)))) +
    int (length (dram (example_replica (adaptive_policy default_policy_config)))) +
    evictions (example_replica (adaptive_policy default_policy_config)) +
      (if fst (lookup ''c'' (example_replica (adaptive_policy default_policy_config))) = MISS then 1 else 0)"
  by (rule store_accounts_for_every_entry) simp_all

text \<open>
  C12: Storing one session never alters another session's prefix. Any other session keeps its
  tier and coverage, or moves from the GPU to host memory with the same coverage, or is lost;
  the stored session itself is found afterwards with exactly the stored token count, or not at
  all.
\<close>

theorem store_only_degrades_others:
  assumes "wf_replica r" and "code_policy (policy r)" and "0 \<le> n"
  shows "\<exists>r'. store sid n now ret r = Inr r' \<and>
    (\<forall>s. s \<noteq> sid \<longrightarrow> degraded (lookup s r) (lookup s r')) \<and>
    lookup sid r' \<in> {(GPU, n), (DRAM, n), (MISS, 0)}"
proof -
  obtain r' where r': "store sid n now ret r = Inr r'"
    and d: "\<And>s. degraded (lookup s (place sid n now ret r)) (lookup s r')"
    using store_lookup [OF assms, of sid now ret] by blast
  have "degraded (lookup s r) (lookup s r')" if "s \<noteq> sid" for s
    using d [of s] that by (simp add: lookup_place [OF assms(1)])
  moreover have "lookup sid (place sid n now ret r) \<in> {(GPU, n), (DRAM, n), (MISS, 0)}"
    by (simp add: lookup_place [OF assms(1)] split: placement.split)
  then have "lookup sid r' \<in> {(GPU, n), (DRAM, n), (MISS, 0)}"
    using d [of sid] by (cases "lookup sid r'") (auto simp: degraded_def)
  ultimately show ?thesis using r' by blast
qed

lemma store_only_degrades_others_witness:
  "\<exists>r'. store ''d'' 9000 20 50 (example_replica lru_policy) = Inr r' \<and>
    (\<forall>s. s \<noteq> ''d'' \<longrightarrow> degraded (lookup s (example_replica lru_policy)) (lookup s r')) \<and>
    lookup ''d'' r' \<in> {(GPU, 9000), (DRAM, 9000), (MISS, 0)}"
  by (rule store_only_degrades_others) simp_all

text \<open>
  C15: With room in both tiers the adaptive policy's three-way decision is what the cache shows
  afterwards: the session is on the GPU when its predicted absence is within the pin threshold,
  in host memory when it is within the offload threshold, and gone beyond that; every other
  session is exactly where it was.
\<close>

theorem adaptive_store_without_pressure:
  assumes r: "wf_replica r" "policy r = adaptive_policy c" and n: "0 \<le> n"
    and room: "gpu_tokens r + n \<le> gpu_cache_tokens (hw r)" "dram_tokens r + n \<le> dram_cache_tokens (hw r)"
  shows "\<exists>r'. store sid n now ret r = Inr r' \<and>
    lookup sid r' =
      (if max 0 (ret - now) \<le> pin_threshold_ms c then (GPU, n)
       else if max 0 (ret - now) \<le> offload_threshold_ms c then (DRAM, n)
       else (MISS, 0)) \<and>
    (\<forall>s. s \<noteq> sid \<longrightarrow> lookup s r' = lookup s r)"
proof -
  let ?p = "place sid n now ret r"
  have wf: "wf_dict (gpu r)" "wf_dict (dram r)" using wf_replicaD(1,2) [OF r(1)] by auto
  have nonneg: "map_of (gpu r) sid = Some e \<Longrightarrow> 0 \<le> ce_tokens e"
    "map_of (dram r) sid = Some e \<Longrightarrow> 0 \<le> ce_tokens e" for e
    using entries_okD(2) [OF wf_replicaD(1) [OF r(1)]] entries_okD(2) [OF wf_replicaD(2) [OF r(1)]] by blast+
  have "gpu_tokens ?p \<le> gpu_tokens r + n"
    using wf nonneg(1) n
    by (auto simp: place_def Let_def gpu_tokens_def dict_sum_delete dict_sum_update
        split: placement.split option.split)
  with room(1) have "store sid n now ret r = Inr ?p"
    by (simp add: store_place enforce_capacity_def)
  moreover have "dict_sum ce_tokens (AList.delete sid (dram r)) + n \<le> dram_cache_tokens (hw r)"
    using room(2) wf nonneg(2) by (auto simp: dram_tokens_def dict_sum_delete split: option.splits)
  ultimately show ?thesis
    by (simp add: lookup_place [OF r(1)] r(2) adaptive_on_release_def predicted_idle_ms_def Let_def)
qed

lemma adaptive_store_without_pressure_witness:
  "\<exists>r'. store ''d'' 500 20 45000 (example_replica (adaptive_policy default_policy_config)) = Inr r' \<and>
    lookup ''d'' r' =
      (if max 0 (45000 - 20) \<le> pin_threshold_ms default_policy_config then (GPU, 500)
       else if max 0 (45000 - 20) \<le> offload_threshold_ms default_policy_config then (DRAM, 500)
       else (MISS, 0)) \<and>
    (\<forall>s. s \<noteq> ''d'' \<longrightarrow>
       lookup s r' = lookup s (example_replica (adaptive_policy default_policy_config)))"
  by (rule adaptive_store_without_pressure)
    (simp_all add: gpu_tokens_def dram_tokens_def example_hw_def default_hardware_def example_entry_def)

text \<open>
  Under memory pressure a replica gives up victims in the policy's order and stops as soon
  as it fits: what leaves the GPU is exactly a prefix of that order, what remains is within the
  budget, and every shorter prefix would have left it over budget. Trimming host memory
  afterwards finds nothing to do.
\<close>

theorem pressure_evicts_minimal_prefix:
  fixes r :: replica and now :: real
  assumes "wf_replica r" and "code_policy (policy r)"
  defines "order \<equiv> victim_order (policy r) (dict_values (gpu r)) now"
  shows "\<exists>k r'. k \<le> length order \<and> enforce_capacity now r = Inr r' \<and>
    trim_dram r' = Inr r' \<and>
    gpu r' = gpu_without (take k order) r \<and>
    dict_sum ce_tokens (gpu_without (take k order) r) \<le> gpu_cache_tokens (hw r) \<and>
    (\<forall>m < k. gpu_cache_tokens (hw r) < dict_sum ce_tokens (gpu_without (take m order) r))"
proof -
  have pol: "retention_policy (policy r)" using assms(2) by (rule code_policy_retention)
  let ?r' = "shed now order r"
  have cov: "covers order r"
    unfolding order_def by (rule retention_policy.covers_victims [OF pol assms(1)])
  have "gpu_tokens ?r' \<le> gpu_cache_tokens (hw r)"
    using shed_capacity [OF cov] wf_replicaD(4) [OF assms(1)] by simp
  moreover have "enforce_capacity now r = Inr ?r'"
    unfolding order_def by (rule retention_policy.enforce_capacity_eq [OF pol assms(1) refl])
  moreover have "trim_dram ?r' = Inr ?r'"
    by (intro trim_dram_within wf_replicaD(3) wf_shed assms(1) cov)
  ultimately show ?thesis using shed_prefix [of order now r] by (auto simp: gpu_tokens_def)
qed

definition overfull_example :: replica where
  "overfull_example = place ''d'' 9000 20 50 (example_replica lru_policy)"

lemma overfull_example_wf [simp]: "wf_replica overfull_example" "code_policy (policy overfull_example)"
  by (simp_all add: overfull_example_def wf_place)

lemma overfull_example_tokens: "gpu_cache_tokens (hw overfull_example) < gpu_tokens overfull_example"
  by (simp add: overfull_example_def place_def Let_def lru_on_release_def gpu_tokens_def
      example_hw_def default_hardware_def example_entry_def)

lemma pressure_evicts_minimal_prefix_witness:
  "\<exists>k r'. k \<le> length (victim_order (policy overfull_example) (dict_values (gpu overfull_example)) 50) \<and>
    enforce_capacity 50 overfull_example = Inr r' \<and>
    trim_dram r' = Inr r' \<and>
    gpu r' = gpu_without (take k (victim_order (policy overfull_example)
        (dict_values (gpu overfull_example)) 50)) overfull_example \<and>
    dict_sum ce_tokens (gpu_without (take k (victim_order (policy overfull_example)
        (dict_values (gpu overfull_example)) 50)) overfull_example)
      \<le> gpu_cache_tokens (hw overfull_example) \<and>
    (\<forall>m < k. gpu_cache_tokens (hw overfull_example) <
       dict_sum ce_tokens (gpu_without (take m (victim_order (policy overfull_example)
        (dict_values (gpu overfull_example)) 50)) overfull_example))"
  by (rule pressure_evicts_minimal_prefix) simp_all

text \<open>
  C39: Memory pressure never demotes, it discards. On a replica whose GPU entries are all pinned
  (which every store re-establishes), capacity enforcement leaves host memory and the offload
  counter exactly as the placement of the new entry left them: each session other than the
  stored one keeps its place or falls straight from the GPU to nothing, because a verdict on an
  entry depends on the entry alone and a pinned one is never judged offloadable later.
\<close>

theorem pressure_never_demotes:
  assumes r: "wf_replica r" "code_policy (policy r)" "pinned_except sid r" and n: "0 \<le> n"
  shows "\<exists>r'. store sid n now ret r = Inr r' \<and> pinned r' \<and>
    offloads r' \<le> offloads r + (if on_release (policy r) (store_entry sid n now ret) now = OFFLOAD_DRAM then 1 else 0) \<and>
    (\<forall>s. s \<noteq> sid \<longrightarrow> lookup s r' = lookup s r \<or> fst (lookup s r) = GPU \<and> lookup s r' = (MISS, 0))"
proof -
  obtain r' where r': "store sid n now ret r = Inr r'" "pinned r'"
    "dram r' = dram (place sid n now ret r)" "offloads r' = offloads (place sid n now ret r)"
    using store_pinned [OF r(1,2) n r(3), of now ret] by blast
  obtain q where "store sid n now ret r = Inr q"
    and d: "\<And>s. degraded (lookup s (place sid n now ret r)) (lookup s q)"
    using store_lookup [OF r(1,2) n, of sid now ret] by blast
  then have q: "q = r'" using r'(1) by simp
  have "offloads (place sid n now ret r) \<le> offloads r +
      (if on_release (policy r) (store_entry sid n now ret) now = OFFLOAD_DRAM then 1 else 0)"
    by (simp add: place_def Let_def demote_def split: placement.split)
  moreover have "lookup s r' = lookup s r \<or> fst (lookup s r) = GPU \<and> lookup s r' = (MISS, 0)"
    if s: "s \<noteq> sid" for s
  proof -
    have dram_s: "map_of (dram r') s = map_of (dram r) s"
      using s by (simp add: r'(3) place_def Let_def demote_def split: placement.split)
    have "degraded (lookup s r) (lookup s r')"
      using d [of s] q s by (simp add: lookup_place [OF r(1)])
    then show ?thesis
      using dram_s wf_replicaD(5) [OF r(1), of s]
      by (auto simp: degraded_def lookup_def split: option.splits)
  qed
  ultimately show ?thesis using r' by auto
qed

lemma pressure_never_demotes_witness:
  "\<exists>r'. store ''d'' 9000 20 50 (example_replica (adaptive_policy default_policy_config)) = Inr r' \<and>
    pinned r' \<and>
    offloads r' \<le> offloads (example_replica (adaptive_policy default_policy_config)) +
      (if on_release (policy (example_replica (adaptive_policy default_policy_config)))
            (store_entry ''d'' 9000 20 50) 20 = OFFLOAD_DRAM then 1 else 0) \<and>
    (\<forall>s. s \<noteq> ''d'' \<longrightarrow>
       lookup s r' = lookup s (example_replica (adaptive_policy default_policy_config)) \<or>
       fst (lookup s (example_replica (adaptive_policy default_policy_config))) = GPU \<and>
       lookup s r' = (MISS, 0))"
  by (rule pressure_never_demotes)
    (simp_all add: pinned_except_def adaptive_on_release_def predicted_idle_ms_def
      example_entry_def default_policy_config_def)

end
