(* ===== verification/Session_Store.thy ===== *)
theory Session_Store
  imports PyText
begin

section \<open>Session to replica map\<close>

text \<open>
  \<open>agentserve/state.py\<close>. The \<open>SessionStore\<close> protocol is a record of methods over a state type;
  a method returns its value or exception together with the state it leaves. \<open>time.time()\<close> is
  the first argument of the methods that read it. \<open>InMemorySessionStore\<close> is a pair of bounded
  recency lists with an expiry per entry; \<open>RedisSessionStore\<close> is in \<open>Redis_Store\<close>.

  The locale \<open>home_map\<close> is what the router relies on, \<open>session_store_laws\<close> adds what the gateway
  relies on, \<open>roomy_store\<close> what sessions rely on that share it; the in-memory store satisfies all three. \<open>storable\<close> are the times a store keeps exactly.
\<close>

record 's session_store =
  store_name :: "'s \<Rightarrow> string"
  get_home :: "real \<Rightarrow> string \<Rightarrow> 's \<Rightarrow> (py_error + int option) \<times> 's"
  set_home :: "real \<Rightarrow> string \<Rightarrow> int \<Rightarrow> 's \<Rightarrow> (py_error + unit) \<times> 's"
  get_last_seen :: "real \<Rightarrow> string \<Rightarrow> 's \<Rightarrow> (py_error + real option) \<times> 's"
  set_last_seen :: "real \<Rightarrow> string \<Rightarrow> real \<Rightarrow> 's \<Rightarrow> (py_error + unit) \<times> 's"
  store_size :: "'s \<Rightarrow> int \<times> 's"
  store_close :: "'s \<Rightarrow> 's"

subsection \<open>The interface\<close>

locale home_map =
  fixes ops :: "'s session_store"
    and inv :: "'s \<Rightarrow> bool"
    and ttl :: "'s \<Rightarrow> real"
    and home_at :: "real \<Rightarrow> 's \<Rightarrow> string \<Rightarrow> int option"
  assumes get_home_law: "inv s \<Longrightarrow>
      \<exists>s'. get_home ops t k s = (Inr (home_at t s k), s') \<and> inv s' \<and> ttl s' = ttl s \<and>
        (\<forall>t' k'. t \<le> t' \<longrightarrow> home_at t' s' k' = home_at t' s k')"
    and set_home_law: "inv s \<Longrightarrow>
      \<exists>s'. set_home ops t k i s = (Inr (), s') \<and> inv s' \<and> ttl s' = ttl s \<and>
        (\<forall>t'. t' \<le> t + ttl s \<longrightarrow> home_at t' s' k = Some i) \<and>
        (\<forall>t' k'. k' \<noteq> k \<longrightarrow> home_at t' s' k' = None \<or> home_at t' s' k' = home_at t' s k')"
begin

lemma get_after_set:
  assumes "inv s" and "set_home ops t k i s = (res, s')" and "t' \<le> t + ttl s"
  shows "fst (get_home ops t' k s') = Inr (Some i)"
proof -
  obtain s'' where "set_home ops t k i s = (Inr (), s'')" "inv s''" "home_at t' s'' k = Some i"
    using set_home_law [OF assms(1), of t k i] assms(3) by blast
  then show ?thesis using get_home_law [of s'' t' k] assms(2) by auto
qed

end

locale session_store_laws = home_map +
  fixes seen_at :: "real \<Rightarrow> 's \<Rightarrow> string \<Rightarrow> real option"
    and storable :: "real \<Rightarrow> bool"
  assumes get_seen_law: "inv s \<Longrightarrow>
      \<exists>s'. get_last_seen ops t k s = (Inr (seen_at t s k), s') \<and> inv s' \<and> ttl s' = ttl s \<and>
        (\<forall>t' k'. t \<le> t' \<longrightarrow> seen_at t' s' k' = seen_at t' s k') \<and>
        (\<forall>t' k'. home_at t' s' k' = home_at t' s k')"
    and set_seen_law: "inv s \<Longrightarrow> storable x \<Longrightarrow>
      \<exists>s'. set_last_seen ops t k x s = (Inr (), s') \<and> inv s' \<and> ttl s' = ttl s \<and>
        (\<forall>t'. t' \<le> t + ttl s \<longrightarrow> seen_at t' s' k = Some x) \<and>
        (\<forall>t' k'. k' \<noteq> k \<longrightarrow> seen_at t' s' k' = None \<or> seen_at t' s' k' = seen_at t' s k') \<and>
        (\<forall>t' k'. home_at t' s' k' = home_at t' s k')"
    and get_home_seen: "inv s \<Longrightarrow> seen_at t' (snd (get_home ops t k s)) k' = seen_at t' s k'"
    and set_home_seen: "inv s \<Longrightarrow> seen_at t' (snd (set_home ops t k i s)) k' = seen_at t' s k'"

text \<open>
  A store that has room for a set of sessions: a call made for one of them leaves what is kept of
  the others alone. \<open>spares t k\<close> says so for what is read from time \<open>t\<close> on.
\<close>

locale roomy_store = session_store_laws +
  fixes roomy :: "string set \<Rightarrow> 's \<Rightarrow> bool"
  assumes roomy_get_home: "inv s \<Longrightarrow> roomy P s \<Longrightarrow> roomy P (snd (get_home ops t k s))"
    and roomy_get_seen: "inv s \<Longrightarrow> roomy P s \<Longrightarrow> roomy P (snd (get_last_seen ops t k s))"
    and roomy_set_home: "inv s \<Longrightarrow> roomy P s \<Longrightarrow> k \<in> P \<Longrightarrow> roomy P (snd (set_home ops t k i s)) \<and>
      (\<forall>t' k'. k' \<noteq> k \<longrightarrow> home_at t' (snd (set_home ops t k i s)) k' = home_at t' s k')"
    and roomy_set_seen: "inv s \<Longrightarrow> roomy P s \<Longrightarrow> k \<in> P \<Longrightarrow> storable x \<Longrightarrow> roomy P (snd (set_last_seen ops t k x s)) \<and>
      (\<forall>t' k'. k' \<noteq> k \<longrightarrow> seen_at t' (snd (set_last_seen ops t k x s)) k' = seen_at t' s k')"
begin

definition spares :: "real \<Rightarrow> string \<Rightarrow> 's \<Rightarrow> 's \<Rightarrow> bool" where
  "spares t k s s' \<longleftrightarrow>
     (\<forall>t' k'. t \<le> t' \<longrightarrow> k' \<noteq> k \<longrightarrow> home_at t' s' k' = home_at t' s k' \<and> seen_at t' s' k' = seen_at t' s k')"

lemma spares_refl [simp]: "spares t k s s"
  by (simp add: spares_def)

lemma spares_trans: "spares t k s s' \<Longrightarrow> spares t k s' s'' \<Longrightarrow> spares t k s s''"
  by (simp add: spares_def)

lemma spares_later: "spares t k s s' \<Longrightarrow> t \<le> u \<Longrightarrow> spares u k s s'"
  by (auto simp: spares_def)

lemma get_home_spares: "inv s \<Longrightarrow> spares t k s (snd (get_home ops t k s))"
  using get_home_law [of s t k] get_home_seen [of s] by (auto simp: spares_def)

lemma get_seen_spares: "inv s \<Longrightarrow> spares t k s (snd (get_last_seen ops t k s))"
  using get_seen_law [of s t k] by (auto simp: spares_def)

lemma set_home_spares: "inv s \<Longrightarrow> roomy P s \<Longrightarrow> k \<in> P \<Longrightarrow> spares t' k s (snd (set_home ops t k i s))"
  using roomy_set_home [of s P k t i] set_home_seen [of s] by (auto simp: spares_def)

lemma set_seen_spares:
  assumes "inv s" "roomy P s" "k \<in> P" "storable x"
  shows "spares t' k s (snd (set_last_seen ops t k x s))"
  using roomy_set_seen [OF assms, of t] set_seen_law [OF assms(1,4), of t k] by (auto simp: spares_def)

end

subsection \<open>One table of the in-memory store\<close>

type_synonym 'v timed = "(string, 'v \<times> real) dict"

definition move_to_end :: "'k \<Rightarrow> ('k, 'v) dict \<Rightarrow> ('k, 'v) dict" where
  "move_to_end k d =
     (case map_of d k of None \<Rightarrow> d | Some v \<Rightarrow> AList.delete k d @ [(k, v)])"

definition table_get :: "real \<Rightarrow> string \<Rightarrow> 'v timed \<Rightarrow> 'v option \<times> 'v timed" where
  "table_get now k d =
     (case map_of d k of
        None \<Rightarrow> (None, d)
      | Some (v, expires) \<Rightarrow>
          if expires < now then (None, AList.delete k d) else (Some v, move_to_end k d))"

primrec evict_oldest :: "int \<Rightarrow> ('k, 'v) dict \<Rightarrow> (py_error + unit) \<times> ('k, 'v) dict" where
  \<comment> \<open>\<open>while len(table) > max: table.popitem(last=False)\<close>, which raises on an empty table\<close>
  "evict_oldest m [] = (if m < 0 then Inl KeyError else Inr (), [])"
| "evict_oldest m (p # d) =
     (if m < int (length (p # d)) then evict_oldest m d else (Inr (), p # d))"

definition table_put ::
  "int \<Rightarrow> real \<Rightarrow> real \<Rightarrow> string \<Rightarrow> 'v \<Rightarrow> 'v timed \<Rightarrow> (py_error + unit) \<times> 'v timed" where
  "table_put m lifetime now k v d =
     evict_oldest m (move_to_end k (AList.update k (v, now + lifetime) d))"

definition live :: "real \<Rightarrow> 'v timed \<Rightarrow> string \<Rightarrow> 'v option" where
  "live now d k =
     (case map_of d k of None \<Rightarrow> None | Some (v, expires) \<Rightarrow> if expires < now then None else Some v)"

definition wf_table :: "int \<Rightarrow> 'v timed \<Rightarrow> bool" where
  "wf_table m d \<longleftrightarrow> wf_dict d \<and> int (length d) \<le> m"

lemma move_to_end_map [simp]: "map_of (move_to_end k d) k' = map_of d k'"
  by (auto simp: move_to_end_def map_add_def split: option.split)

lemma move_to_end_wf: "wf_dict d \<Longrightarrow> wf_dict (move_to_end k d)"
  by (simp add: move_to_end_def keys_delete del: set_map split: option.split)

lemma move_to_end_length: "wf_dict d \<Longrightarrow> length (move_to_end k d) = length d"
  using length_delete [of d k] by (auto simp: move_to_end_def split: option.split)

lemma move_to_end_update: "move_to_end k (AList.update k v d) = AList.delete k d @ [(k, v)]"
  by (simp add: move_to_end_def AList.delete_update_same)

lemma evict_oldest_drop: "0 \<le> m \<Longrightarrow> evict_oldest m d = (Inr (), drop (length d - nat m) d)"
proof (induction d)
  case (Cons p d)
  then show ?case by (cases "m < int (length (p # d))") (auto simp: Suc_diff_le nat_le_iff)
qed simp

lemma map_of_drop: "wf_dict d \<Longrightarrow> map_of (drop n d) k = None \<or> map_of (drop n d) k = map_of d k"
proof (induction d arbitrary: n)
  case (Cons p d)
  show ?case
  proof (cases n)
    case (Suc m)
    with Cons have "map_of (drop m d) k = None \<or> map_of (drop m d) k = map_of d k" by simp
    moreover have "fst p = k \<Longrightarrow> map_of (drop m d) k = None"
      using Cons.prems set_drop_subset [of m d] by (auto simp: map_of_eq_None_iff)
    ultimately show ?thesis using Suc by (cases p) auto
  qed simp
qed simp

lemma table_get_live:
  assumes "wf_table m d"
  shows "\<exists>d'. table_get now k d = (live now d k, d') \<and> wf_table m d' \<and>
    (\<forall>t k'. now \<le> t \<longrightarrow> live t d' k' = live t d k')"
proof -
  have wf: "wf_dict d" "int (length d) \<le> m" using assms by (simp_all add: wf_table_def)
  show ?thesis
  proof (cases "map_of d k")
    case None
    with assms show ?thesis by (simp add: table_get_def live_def)
  next
    case (Some p)
    obtain v x where p: "p = (v, x)" by fastforce
    have "live t (AList.delete k d) k' = live t d k'" if "x < now" "now \<le> t" for t k'
      using that Some p by (simp add: live_def)
    moreover have "wf_table m (AList.delete k d)"
      using wf length_delete_le [of k d] by (simp add: wf_table_def)
    moreover have "wf_table m (move_to_end k d)"
      using wf by (simp add: wf_table_def move_to_end_wf move_to_end_length)
    moreover have "live t (move_to_end k d) k' = live t d k'" for t k'
      by (simp add: live_def)
    ultimately show ?thesis using Some p by (simp add: table_get_def live_def)
  qed
qed

lemma table_put_eq:
  assumes "1 \<le> m" and "wf_table m d"
  shows "table_put m lifetime now k v d =
    (Inr (), drop (length (AList.delete k d) + 1 - nat m) (AList.delete k d @ [(k, v, now + lifetime)]))"
  using assms(1) by (simp add: table_put_def move_to_end_update evict_oldest_drop)

lemma table_put_live:
  assumes m: "1 \<le> m" and d: "wf_table m d"
  shows "\<exists>d'. table_put m lifetime now k v d = (Inr (), d') \<and> wf_table m d' \<and>
    (\<forall>t. t \<le> now + lifetime \<longrightarrow> live t d' k = Some v) \<and>
    (\<forall>t k'. k' \<noteq> k \<longrightarrow> live t d' k' = None \<or> live t d' k' = live t d k')"
proof -
  let ?del = "AList.delete k d"
  let ?n = "length ?del + 1 - nat m"
  let ?full = "?del @ [(k, v, now + lifetime)]"
  have wf: "wf_dict ?full"
    using d by (simp add: wf_table_def keys_delete del: set_map)
  have n: "?n \<le> length ?del" using m by linarith
  have dr: "drop ?n ?full = drop ?n ?del @ [(k, v, now + lifetime)]" using n by simp
  have notin: "map_of (drop ?n ?del) k = None"
    using map_of_drop [of ?del ?n k] d by (auto simp: wf_table_def)
  have "wf_table m (drop ?n ?full)"
    using wf m by (auto simp: wf_table_def drop_map [symmetric] intro: distinct_drop dest: in_set_dropD)
  moreover have "live t (drop ?n ?full) k = Some v" if "t \<le> now + lifetime" for t
    unfolding dr using notin that by (simp add: live_def map_add_def)
  moreover have "live t (drop ?n ?full) k' = None \<or> live t (drop ?n ?full) k' = live t d k'"
    if "k' \<noteq> k" for t k'
  proof -
    have "map_of (drop ?n ?full) k' = map_of (drop ?n ?del) k'"
      unfolding dr using that by (simp add: map_add_def split: option.split)
    then show ?thesis
      using map_of_drop [of ?del ?n k'] d that by (auto simp: live_def wf_table_def simp del: drop_append)
  qed
  ultimately show ?thesis using table_put_eq [OF m d, of lifetime now k v] by blast
qed

subsection \<open>The in-memory store\<close>

record mem_store =
  max_sessions :: int
  ttl_s :: real
  home :: "int timed"
  seen :: "real timed"

definition new_mem_store :: "int \<Rightarrow> real \<Rightarrow> mem_store" where
  "new_mem_store m lifetime = \<lparr>max_sessions = m, ttl_s = lifetime, home = [], seen = []\<rparr>"

definition default_mem_store :: mem_store where
  "default_mem_store = new_mem_store 100000 3600"

definition mem_get_home :: "real \<Rightarrow> string \<Rightarrow> mem_store \<Rightarrow> (py_error + int option) \<times> mem_store" where
  "mem_get_home now k s = (let (v, d) = table_get now k (home s) in (Inr v, s\<lparr>home := d\<rparr>))"

definition mem_set_home :: "real \<Rightarrow> string \<Rightarrow> int \<Rightarrow> mem_store \<Rightarrow> (py_error + unit) \<times> mem_store" where
  "mem_set_home now k i s =
     (let (res, d) = table_put (max_sessions s) (ttl_s s) now k i (home s) in (res, s\<lparr>home := d\<rparr>))"

definition mem_get_last_seen :: "real \<Rightarrow> string \<Rightarrow> mem_store \<Rightarrow> (py_error + real option) \<times> mem_store" where
  "mem_get_last_seen now k s = (let (v, d) = table_get now k (seen s) in (Inr v, s\<lparr>seen := d\<rparr>))"

definition mem_set_last_seen ::
  "real \<Rightarrow> string \<Rightarrow> real \<Rightarrow> mem_store \<Rightarrow> (py_error + unit) \<times> mem_store" where
  "mem_set_last_seen now k x s =
     (let (res, d) = table_put (max_sessions s) (ttl_s s) now k x (seen s) in (res, s\<lparr>seen := d\<rparr>))"

definition mem_size :: "mem_store \<Rightarrow> int \<times> mem_store" where
  "mem_size s = (int (length (home s)), s)"

definition mem_close :: "mem_store \<Rightarrow> mem_store" where
  "mem_close s = s\<lparr>home := [], seen := []\<rparr>"

definition mem_ops :: "mem_store session_store" where
  "mem_ops =
     \<lparr>store_name = (\<lambda>s. ''memory''), get_home = mem_get_home, set_home = mem_set_home,
      get_last_seen = mem_get_last_seen, set_last_seen = mem_set_last_seen,
      store_size = mem_size, store_close = mem_close\<rparr>"

lemma mem_ops_simps [simp]:
  "get_home mem_ops = mem_get_home" "set_home mem_ops = mem_set_home"
  "get_last_seen mem_ops = mem_get_last_seen" "set_last_seen mem_ops = mem_set_last_seen"
  "store_size mem_ops = mem_size" "store_close mem_ops = mem_close"
  by (simp_all add: mem_ops_def)

definition wf_mem_store :: "mem_store \<Rightarrow> bool" where
  "wf_mem_store s \<longleftrightarrow> 1 \<le> max_sessions s \<and> wf_table (max_sessions s) (home s) \<and>
     wf_table (max_sessions s) (seen s)"

lemma wf_new_mem_store [simp]: "1 \<le> m \<Longrightarrow> wf_mem_store (new_mem_store m lifetime)"
  by (simp add: wf_mem_store_def new_mem_store_def wf_table_def)

lemma mem_get_home_law:
  assumes "wf_mem_store s"
  shows "\<exists>d. mem_get_home t k s = (Inr (live t (home s) k), s\<lparr>home := d\<rparr>) \<and>
    wf_mem_store (s\<lparr>home := d\<rparr>) \<and> (\<forall>t' k'. t \<le> t' \<longrightarrow> live t' d k' = live t' (home s) k')"
  using table_get_live [of "max_sessions s" "home s" t k] assms
  by (auto simp: mem_get_home_def wf_mem_store_def)

lemma mem_set_home_law:
  assumes "wf_mem_store s"
  shows "\<exists>d. mem_set_home t k i s = (Inr (), s\<lparr>home := d\<rparr>) \<and> wf_mem_store (s\<lparr>home := d\<rparr>) \<and>
    (\<forall>t'. t' \<le> t + ttl_s s \<longrightarrow> live t' d k = Some i) \<and>
    (\<forall>t' k'. k' \<noteq> k \<longrightarrow> live t' d k' = None \<or> live t' d k' = live t' (home s) k')"
  using table_put_live [of "max_sessions s" "home s" "ttl_s s" t k i] assms
  by (auto simp: mem_set_home_def wf_mem_store_def)

lemma mem_get_seen_law:
  assumes "wf_mem_store s"
  shows "\<exists>d. mem_get_last_seen t k s = (Inr (live t (seen s) k), s\<lparr>seen := d\<rparr>) \<and>
    wf_mem_store (s\<lparr>seen := d\<rparr>) \<and> (\<forall>t' k'. t \<le> t' \<longrightarrow> live t' d k' = live t' (seen s) k')"
  using table_get_live [of "max_sessions s" "seen s" t k] assms
  by (auto simp: mem_get_last_seen_def wf_mem_store_def)

lemma mem_set_seen_law:
  assumes "wf_mem_store s"
  shows "\<exists>d. mem_set_last_seen t k x s = (Inr (), s\<lparr>seen := d\<rparr>) \<and> wf_mem_store (s\<lparr>seen := d\<rparr>) \<and>
    (\<forall>t'. t' \<le> t + ttl_s s \<longrightarrow> live t' d k = Some x) \<and>
    (\<forall>t' k'. k' \<noteq> k \<longrightarrow> live t' d k' = None \<or> live t' d k' = live t' (seen s) k')"
  using table_put_live [of "max_sessions s" "seen s" "ttl_s s" t k x] assms
  by (auto simp: mem_set_last_seen_def wf_mem_store_def)

lemma mem_home_ops_seen [simp]:
  "seen (snd (mem_get_home t k s)) = seen s" "seen (snd (mem_set_home t k i s)) = seen s"
  by (simp_all add: mem_get_home_def mem_set_home_def split: prod.split)

definition mem_home_at :: "real \<Rightarrow> mem_store \<Rightarrow> string \<Rightarrow> int option" where
  "mem_home_at t s k = live t (home s) k"

definition mem_seen_at :: "real \<Rightarrow> mem_store \<Rightarrow> string \<Rightarrow> real option" where
  "mem_seen_at t s k = live t (seen s) k"

interpretation mem: session_store_laws mem_ops wf_mem_store ttl_s mem_home_at mem_seen_at "\<lambda>x. True"
proof (unfold_locales, goal_cases)
  case (1 s t k)
  show ?case using mem_get_home_law [OF 1, of t k] by (force simp: mem_home_at_def)
next
  case (2 s t k i)
  show ?case using mem_set_home_law [OF 2, of t k i] by (force simp: mem_home_at_def)
next
  case (3 s t k)
  show ?case using mem_get_seen_law [OF 3, of t k] by (force simp: mem_home_at_def mem_seen_at_def)
next
  case (4 s x t k)
  show ?case using mem_set_seen_law [OF 4(1), of t k x] by (force simp: mem_home_at_def mem_seen_at_def)
next
  case (5 s t' t k k')
  show ?case by (simp add: mem_seen_at_def)
next
  case (6 s t' t k i k')
  show ?case by (simp add: mem_seen_at_def)
qed

subsection \<open>Room for a set of sessions\<close>

text \<open>With no more sessions than the bound, nothing is ever evicted.\<close>

definition mem_roomy :: "string set \<Rightarrow> mem_store \<Rightarrow> bool" where
  "mem_roomy P s \<longleftrightarrow> finite P \<and> int (card P) \<le> max_sessions s \<and>
     set (dict_keys (home s)) \<subseteq> P \<and> set (dict_keys (seen s)) \<subseteq> P"

lemma table_get_keys: "set (dict_keys (snd (table_get now k d))) \<subseteq> set (dict_keys d)"
  by (auto simp: table_get_def move_to_end_def set_delete dest!: map_of_SomeD split: option.split
      intro: image_eqI [where f = fst, OF fst_conv [symmetric]])

lemma table_put_roomy:
  assumes m: "1 \<le> m" and d: "wf_table m d" "set (dict_keys d) \<subseteq> P" and P: "finite P" "int (card P) \<le> m" "k \<in> P"
  shows "snd (table_put m lifetime now k v d) = AList.delete k d @ [(k, v, now + lifetime)]"
proof -
  have "wf_dict (AList.delete k d)" using d(1) by (simp add: wf_table_def)
  then have "length (AList.delete k d) = card (set (dict_keys (AList.delete k d)))" using distinct_card by fastforce
  also have "\<dots> \<le> card (P - {k})"
    using d(2) P(1) by (intro card_mono) (auto simp: keys_delete simp del: set_map)
  also have "\<dots> < card P" using P(1,3) by (intro psubset_card_mono) auto
  finally have "length (AList.delete k d) + 1 - nat m = 0" using P(2) by linarith
  then show ?thesis using table_put_eq [OF m d(1), of lifetime now k v] by (simp del: One_nat_def)
qed

lemma live_moved: "k' \<noteq> k \<Longrightarrow> live t (AList.delete k d @ [(k, p)]) k' = live t d k'"
  by (simp add: live_def map_add_def split: option.split)

interpretation mem: roomy_store mem_ops wf_mem_store ttl_s mem_home_at mem_seen_at "\<lambda>x. True" mem_roomy
proof (unfold_locales, goal_cases)
  case (1 s P t k)
  then show ?case using table_get_keys [of t k "home s"]
    by (auto simp: mem_roomy_def mem_get_home_def simp del: set_map split: prod.split)
next
  case (2 s P t k)
  then show ?case using table_get_keys [of t k "seen s"]
    by (auto simp: mem_roomy_def mem_get_last_seen_def simp del: set_map split: prod.split)
next
  case (3 s P k t i)
  then have "snd (table_put (max_sessions s) (ttl_s s) t k i (home s)) = AList.delete k (home s) @ [(k, i, t + ttl_s s)]"
    by (intro table_put_roomy) (auto simp: wf_mem_store_def mem_roomy_def)
  with 3 show ?case
    by (auto simp: mem_roomy_def mem_set_home_def mem_home_at_def live_moved keys_delete simp del: set_map split: prod.split)
next
  case (4 s P k x t)
  then have "snd (table_put (max_sessions s) (ttl_s s) t k x (seen s)) = AList.delete k (seen s) @ [(k, x, t + ttl_s s)]"
    by (intro table_put_roomy) (auto simp: wf_mem_store_def mem_roomy_def)
  with 4 show ?case
    by (auto simp: mem_roomy_def mem_set_last_seen_def mem_seen_at_def live_moved keys_delete simp del: set_map split: prod.split)
qed

subsection \<open>Which sessions are kept\<close>

text \<open>
  In the recency list, a session stays as long as fewer other sessions than the bound were used
  after it. \<open>recent\<close> is the invariant: the entries behind the session's own belong to the
  sessions \<open>T\<close> used since.
\<close>

definition recent :: "int \<Rightarrow> string \<Rightarrow> 'v \<times> real \<Rightarrow> string set \<Rightarrow> 'v timed \<Rightarrow> bool" where
  "recent m k p T d \<longleftrightarrow> wf_table m d \<and> (\<exists>xs ys. d = xs @ (k, p) # ys \<and> fst ` set ys \<subseteq> T)"

lemma delete_append [simp]: "AList.delete k (xs @ ys) = AList.delete k xs @ AList.delete k ys"
  by (simp add: AList.delete_eq)

lemma fst_set_delete: "fst ` set (AList.delete k d) = fst ` set d - {k}"
  by (auto simp: set_delete)

lemma recent_map_of: "recent m k p T d \<Longrightarrow> map_of d k = Some p"
  by (auto simp: recent_def wf_table_def map_of_eq_Some_iff)

lemma recent_put:
  assumes d: "recent m k p T d" and k': "k' \<noteq> k" "k' \<in> T" and T: "finite T" "int (card T) < m"
  shows "recent m k p T (snd (table_put m lifetime now k' v d))"
proof -
  obtain xs ys where xy: "d = xs @ (k, p) # ys" "fst ` set ys \<subseteq> T" using d by (auto simp: recent_def)
  have wf: "wf_table m d" and m: "1 \<le> m" using d T by (auto simp: recent_def)
  let ?ys' = "AList.delete k' ys @ [(k', v, now + lifetime)]"
  let ?n = "length (AList.delete k' d) + 1 - nat m"
  have wf': "wf_dict (AList.delete k' d @ [(k', v, now + lifetime)])"
    using wf by (simp add: wf_table_def keys_delete del: set_map)
  then have "wf_dict ?ys'" unfolding xy(1) using k'(1) by simp
  then have "length ?ys' = card (fst ` set ?ys')" using distinct_card by fastforce
  also have "\<dots> \<le> card T"
    using xy(2) k'(2) by (intro card_mono T(1)) (auto simp: fst_set_delete set_delete)
  finally have "length ?ys' < nat m" using T(2) by linarith
  then have n: "?n \<le> length (AList.delete k' xs)" using k'(1) xy(1) by simp
  have "snd (table_put m lifetime now k' v d) = drop ?n (AList.delete k' xs) @ (k, p) # ?ys'"
    using table_put_eq [OF m wf, of lifetime now k' v] n k'(1) xy(1) by simp
  moreover have "fst ` set ?ys' \<subseteq> T" using xy(2) k'(2) by (auto simp: set_delete)
  moreover have "wf_table m (snd (table_put m lifetime now k' v d))"
    using table_put_live [OF m wf, of lifetime now k' v] by auto
  ultimately show ?thesis unfolding recent_def by blast
qed

lemma table_get_cases:
  "snd (table_get now k d) = d \<or> snd (table_get now k d) = AList.delete k d \<or>
   (\<exists>q. snd (table_get now k d) = AList.delete k d @ [(k, q)])"
  by (cases "map_of d k") (auto simp: table_get_def move_to_end_def split: prod.split)

lemma recent_get:
  assumes d: "recent m k p T d" and k': "k' = k \<and> now \<le> snd p \<or> k' \<noteq> k \<and> k' \<in> T"
  shows "recent m k p T (snd (table_get now k' d))"
proof -
  obtain xs ys where xy: "d = xs @ (k, p) # ys" "fst ` set ys \<subseteq> T" using d by (auto simp: recent_def)
  have wf: "wf_table m d" using d by (simp add: recent_def)
  have "wf_table m (snd (table_get now k' d))" using table_get_live [OF wf, of now k'] by auto
  moreover have "\<exists>xs ys. snd (table_get now k' d) = xs @ (k, p) # ys \<and> fst ` set ys \<subseteq> T"
  proof (cases "k' = k")
    case True
    obtain v e where p: "p = (v, e)" by fastforce
    have "snd (table_get now k' d) = AList.delete k d @ (k, p) # []"
      using True k' recent_map_of [OF d] p by (simp add: table_get_def move_to_end_def)
    then show ?thesis by (intro exI [of _ "AList.delete k d"] exI [of _ "[]"]) simp
  next
    case False
    then have T: "k' \<in> T" using k' by simp
    have del: "AList.delete k' d = AList.delete k' xs @ (k, p) # AList.delete k' ys"
      using False xy(1) by simp
    have sub: "fst ` set (AList.delete k' ys) \<subseteq> T" using xy(2) by (auto simp: set_delete)
    consider "snd (table_get now k' d) = d" | "snd (table_get now k' d) = AList.delete k' d"
      | q where "snd (table_get now k' d) = AList.delete k' d @ [(k', q)]"
      using table_get_cases [of now k' d] by blast
    then show ?thesis
    proof cases
      case 1
      then show ?thesis using xy by auto
    next
      case 2
      then show ?thesis using del sub by auto
    next
      case 3
      then have "snd (table_get now k' d) = AList.delete k' xs @ (k, p) # (AList.delete k' ys @ [(k', q)])"
        using del by simp
      moreover have "fst ` set (AList.delete k' ys @ [(k', q)]) \<subseteq> T" using sub T by simp
      ultimately show ?thesis by blast
    qed
  qed
  ultimately show ?thesis by (simp add: recent_def)
qed

lemma recent_set:
  assumes m: "1 \<le> m" and d: "wf_table m d"
  shows "recent m k (v, now + lifetime) T (snd (table_put m lifetime now k v d))"
proof -
  have "length (AList.delete k d) + 1 - nat m \<le> length (AList.delete k d)" using m by linarith
  then have "snd (table_put m lifetime now k v d) =
      drop (length (AList.delete k d) + 1 - nat m) (AList.delete k d) @ (k, v, now + lifetime) # []"
    using table_put_eq [OF m d, of lifetime now k v] by simp
  moreover have "wf_table m (snd (table_put m lifetime now k v d))"
    using table_put_live [OF m d, of lifetime now k v] by auto
  ultimately show ?thesis unfolding recent_def by (metis empty_subsetI image_empty list.set(1))
qed

text \<open>The calls a gateway makes on its store, run one after another.\<close>

datatype store_call =
    GetHome real string
  | SetHome real string int
  | GetSeen real string
  | SetSeen real string real

fun run_call :: "store_call \<Rightarrow> mem_store \<Rightarrow> mem_store" where
  "run_call (GetHome now k) s = snd (mem_get_home now k s)"
| "run_call (SetHome now k i) s = snd (mem_set_home now k i s)"
| "run_call (GetSeen now k) s = snd (mem_get_last_seen now k s)"
| "run_call (SetSeen now k x) s = snd (mem_set_last_seen now k x s)"

fun home_key :: "store_call \<Rightarrow> string option" where
  "home_key (GetHome now k) = Some k"
| "home_key (SetHome now k i) = Some k"
| "home_key _ = None"

text \<open>A call that leaves the session \<open>k\<close> in place: anything but re-homing or a too late read.\<close>

fun keeps :: "string \<Rightarrow> real \<Rightarrow> store_call \<Rightarrow> bool" where
  "keeps k expires (GetHome now k') = (k' = k \<longrightarrow> now \<le> expires)"
| "keeps k expires (SetHome now k' i) = (k' \<noteq> k)"
| "keeps k expires _ = True"

lemma run_call_recent:
  assumes "recent (max_sessions s) k p T (home s)" and "keeps k (snd p) c"
    and "\<forall>k'. home_key c = Some k' \<longrightarrow> k' \<noteq> k \<longrightarrow> k' \<in> T" and "finite T" "int (card T) < max_sessions s"
  shows "recent (max_sessions s) k p T (home (run_call c s)) \<and> max_sessions (run_call c s) = max_sessions s"
  using assms
proof (cases c)
  case (GetHome now k')
  then show ?thesis using assms recent_get [OF assms(1), of k' now]
    by (auto simp: mem_get_home_def split: prod.split)
next
  case (SetHome now k' i)
  then show ?thesis using assms recent_put [OF assms(1), of k' "ttl_s s" now i]
    by (auto simp: mem_set_home_def split: prod.split)
qed (auto simp: mem_get_last_seen_def mem_set_last_seen_def split: prod.split)

lemma run_calls_recent:
  assumes "recent (max_sessions s) k p T (home s)" and "\<forall>c \<in> set cs. keeps k (snd p) c"
    and "\<forall>c \<in> set cs. \<forall>k'. home_key c = Some k' \<longrightarrow> k' \<noteq> k \<longrightarrow> k' \<in> T" and "finite T" "int (card T) < max_sessions s"
  shows "recent (max_sessions s) k p T (home (fold run_call cs s))"
  using assms
proof (induction cs arbitrary: s)
  case (Cons c cs)
  from run_call_recent [of s k p T c] Cons.prems
  have "recent (max_sessions s) k p T (home (run_call c s))" "max_sessions (run_call c s) = max_sessions s"
    by auto
  with Cons.IH [of "run_call c s"] Cons.prems show ?case by simp
qed simp

subsection \<open>Properties of the in-memory store\<close>

text \<open>
  C25: A session's home survives for as long as it is recent and fresh. After \<open>set_home\<close>, any
  sequence of further calls that does not re-home the session, touches fewer other sessions
  than the bound, and stays within the time to live leaves \<open>get_home\<close> returning exactly the
  replica that was set: the bounded store only ever forgets the least recently used sessions.
\<close>

theorem recent_home_survives:
  assumes "wf_mem_store s" and "mem_set_home now k i s = (res, s1)"
    and "\<forall>c \<in> set cs. keeps k (now + ttl_s s) c"
    and "\<forall>c \<in> set cs. \<forall>k'. home_key c = Some k' \<longrightarrow> k' \<noteq> k \<longrightarrow> k' \<in> T"
    and "finite T" "int (card T) < max_sessions s" and "later \<le> now + ttl_s s"
  shows "res = Inr () \<and> fst (mem_get_home later k (fold run_call cs s1)) = Inr (Some i)"
proof -
  have wf: "1 \<le> max_sessions s" "wf_table (max_sessions s) (home s)"
    using assms(1) by (simp_all add: wf_mem_store_def)
  have s1: "home s1 = snd (table_put (max_sessions s) (ttl_s s) now k i (home s))"
    "max_sessions s1 = max_sessions s" "res = Inr ()"
    using assms(2) table_put_live [OF wf, of "ttl_s s" now k i]
    by (auto simp: mem_set_home_def)
  have "recent (max_sessions s1) k (i, now + ttl_s s) T (home s1)"
    unfolding s1 by (rule recent_set [OF wf])
  then have "recent (max_sessions s1) k (i, now + ttl_s s) T (home (fold run_call cs s1))"
    using assms(3-6) s1(2) by (intro run_calls_recent) simp_all
  from recent_map_of [OF this] show ?thesis
    using assms(7) s1(3) by (simp add: mem_get_home_def table_get_def)
qed

lemma recent_home_survives_witness:
  "Inr () = (Inr () :: py_error + unit) \<and>
   fst (mem_get_home 90 ''s1'' (fold run_call
      [GetSeen 31 ''s2'', SetHome 40 ''s2'' 0, GetHome 50 ''s1'', SetSeen 60 ''s2'' 60000, SetHome 80 ''s2'' 1]
      (snd (mem_set_home 30 ''s1'' 3 (new_mem_store 2 3600))))) = Inr (Some 3)"
proof (rule recent_home_survives [where T = "{''s2''}" and s = "new_mem_store 2 3600" and now = 30])
  show "mem_set_home 30 ''s1'' 3 (new_mem_store 2 3600) =
      (Inr (), snd (mem_set_home 30 ''s1'' 3 (new_mem_store 2 3600)))"
    by (simp add: mem_set_home_def table_put_def move_to_end_def new_mem_store_def)
qed (auto simp: new_mem_store_def wf_mem_store_def wf_table_def)

end
