(* ===== verification/Router.thy ===== *)
theory Router
  imports Replica Session_Store
begin

section \<open>Replica selection\<close>

text \<open>
  \<open>agentserve/router.py\<close>. The list of replicas is shared with the rest of the program and is
  an argument of every method; a router returns the position of the replica object it chose.
  The session store is shared with the gateway as well, so \<open>select\<close> takes its state and
  returns it. Two wall-clock readings are passed in: the one \<open>get_home\<close> makes and the one
  \<open>set_home\<close> makes.
\<close>

subsection \<open>Round robin\<close>

record round_robin =
  cursor :: nat

definition rr_select :: "replica list \<Rightarrow> round_robin \<Rightarrow> py_error + nat \<times> round_robin" where
  "rr_select reps rt =
     (if reps = [] then Inl ZeroDivisionError
      else Inr (cursor rt mod length reps, rt\<lparr>cursor := cursor rt + 1\<rparr>))"

fun rr_run :: "nat \<Rightarrow> replica list \<Rightarrow> round_robin \<Rightarrow> py_error + nat list" where
  "rr_run 0 reps rt = Inr []"
| "rr_run (Suc n) reps rt =
     (case rr_select reps rt of
        Inl e \<Rightarrow> Inl e
      | Inr (i, rt') \<Rightarrow>
          (case rr_run n reps rt' of Inl e \<Rightarrow> Inl e | Inr is \<Rightarrow> Inr (i # is)))"

subsection \<open>Least loaded\<close>

text \<open>
  The key of the \<open>min\<close>: in-flight requests, then the time the replica frees up, then its GPU
  utilization. \<open>gpu_utilization\<close> divides by the capacity and is evaluated for every candidate.
\<close>

definition load_key :: "real \<Rightarrow> replica \<Rightarrow> int \<times> real \<times> real" where
  "load_key now r =
     (inflight r, max (free_at_ms r) now,
      real_of_int (gpu_tokens r) / real_of_int (gpu_cache_tokens (hw r)))"

definition candidates :: "replica list \<Rightarrow> int option \<Rightarrow> nat list" where
  "candidates reps avoid =
     (let cs = filter (\<lambda>i. Some (rep_id (reps ! i)) \<noteq> avoid) [0..<length reps]
      in if cs = [] then [0..<length reps] else cs)"

definition least_loaded :: "replica list \<Rightarrow> real \<Rightarrow> int option \<Rightarrow> py_error + nat" where
  "least_loaded reps now avoid =
     (let cs = candidates reps avoid
      in if cs = [] then Inl ValueError
         else if \<exists>i \<in> set cs. isl (gpu_utilization (reps ! i)) then Inl ZeroDivisionError
         else Inr (arg_min_list (\<lambda>i. load_key now (reps ! i)) cs))"

subsection \<open>Session affinity\<close>

record affinity_router =
  ar_config :: policy_config
  affinity_hits :: int
  affinity_breaks :: int

definition new_affinity_router :: "policy_config \<Rightarrow> affinity_router" where
  "new_affinity_router c = \<lparr>ar_config = c, affinity_hits = 0, affinity_breaks = 0\<rparr>"

definition place_session ::
  "'s session_store \<Rightarrow> replica list \<Rightarrow> string \<Rightarrow> real \<Rightarrow> real \<Rightarrow> affinity_router \<Rightarrow> 's
   \<Rightarrow> (py_error + nat) \<times> affinity_router \<times> 's" where
  \<comment> \<open>the end of \<open>select\<close>, reached when the session has no usable home\<close>
  "place_session ops reps sid now clock rt s =
     (case least_loaded reps now None of
        Inl e \<Rightarrow> (Inl e, rt, s)
      | Inr i \<Rightarrow>
          (case set_home ops clock sid (rep_id (reps ! i)) s of
             (Inl e, s') \<Rightarrow> (Inl e, rt, s')
           | (Inr _, s') \<Rightarrow> (Inr i, rt, s')))"

definition affinity_select ::
  "'s session_store \<Rightarrow> replica list \<Rightarrow> string \<Rightarrow> real \<Rightarrow> real \<times> real \<Rightarrow> affinity_router \<Rightarrow> 's
   \<Rightarrow> (py_error + nat) \<times> affinity_router \<times> 's" where
  "affinity_select ops reps sid now clocks rt s =
     (case get_home ops (fst clocks) sid s of
        (Inl e, s1) \<Rightarrow> (Inl e, rt, s1)
      | (Inr home_id, s1) \<Rightarrow>
          (case home_id of
             None \<Rightarrow> place_session ops reps sid now (snd clocks) rt s1
           | Some h \<Rightarrow>
               if 0 \<le> h \<and> h < int (length reps)
               then
                 (let home = reps ! nat h
                  in if fst (lookup sid home) \<noteq> MISS
                     then if inflight home \<le> affinity_queue_limit (ar_config rt)
                          then (Inr (nat h), rt\<lparr>affinity_hits := affinity_hits rt + 1\<rparr>, s1)
                          else (least_loaded reps now (Some (rep_id home)),
                                rt\<lparr>affinity_breaks := affinity_breaks rt + 1\<rparr>, s1)
                     else place_session ops reps sid now (snd clocks) rt s1)
               else place_session ops reps sid now (snd clocks) rt s1))"

definition tracked_sessions :: "'s session_store \<Rightarrow> 's \<Rightarrow> int \<times> 's" where
  "tracked_sessions ops s = store_size ops s"

subsection \<open>The cluster the program builds\<close>

text \<open>\<open>[Replica(i, ...) for i in range(n)]\<close>: a replica's id is its position.\<close>

definition wf_cluster :: "replica list \<Rightarrow> bool" where
  "wf_cluster reps \<longleftrightarrow> reps \<noteq> [] \<and>
     (\<forall>i < length reps. rep_id (reps ! i) = int i \<and> wf_replica (reps ! i) \<and>
        code_policy (policy (reps ! i)) \<and> 0 < gpu_cache_tokens (hw (reps ! i)))"

definition build_replicas :: "int \<Rightarrow> hardware_profile \<Rightarrow> cache_policy \<Rightarrow> replica list" where
  "build_replicas n h pol = map (\<lambda>i. new_replica (int i) h pol) [0..<nat n]"

lemma wf_clusterD:
  assumes "wf_cluster reps" "i < length reps"
  shows "rep_id (reps ! i) = int i" "wf_replica (reps ! i)" "code_policy (policy (reps ! i))"
    "0 < gpu_cache_tokens (hw (reps ! i))"
  using assms by (simp_all add: wf_cluster_def)

lemma wf_build_replicas [wf_intros]:
  assumes "0 < n" "wf_hardware h" "code_policy pol"
  shows "wf_cluster (build_replicas n h pol)"
  using assms
  by (auto simp: wf_cluster_def build_replicas_def wf_hardware_def new_replica_def
      intro!: wf_new_replica [unfolded new_replica_def])

lemma wf_cluster_update [wf_intros]:
  assumes "wf_cluster reps" "i < length reps" "wf_replica r" "rep_id r = int i"
    "code_policy (policy r)" "0 < gpu_cache_tokens (hw r)"
  shows "wf_cluster (reps[i := r])"
  using assms by (auto simp: wf_cluster_def nth_list_update)

lemma candidates_range: "i \<in> set (candidates reps avoid) \<Longrightarrow> i < length reps"
  by (auto simp: candidates_def Let_def split: if_splits)

lemma candidates_nonempty: "reps \<noteq> [] \<Longrightarrow> candidates reps avoid \<noteq> []"
  by (auto simp: candidates_def Let_def)

lemma candidates_avoid:
  assumes reps: "wf_cluster reps" and n: "1 < length reps" "h < length reps"
  shows "i \<in> set (candidates reps (Some (rep_id (reps ! h)))) \<longleftrightarrow> i < length reps \<and> i \<noteq> h"
proof -
  let ?P = "\<lambda>i. Some (rep_id (reps ! i)) \<noteq> Some (rep_id (reps ! h))"
  have "filter ?P [0..<length reps] = filter (\<lambda>i. i \<noteq> h) [0..<length reps]"
    by (rule filter_cong) (simp_all add: wf_clusterD(1) [OF reps] n(2))
  moreover have "(if h = 0 then 1 else 0) \<in> set (filter (\<lambda>i. i \<noteq> h) [0..<length reps])"
    using n by auto
  then have "filter (\<lambda>i. i \<noteq> h) [0..<length reps] \<noteq> []" by (metis empty_iff list.set(1))
  ultimately have "candidates reps (Some (rep_id (reps ! h))) = filter (\<lambda>i. i \<noteq> h) [0..<length reps]"
    by (simp only: candidates_def Let_def if_False)
  then show ?thesis by auto
qed

lemma least_loaded_wf:
  assumes reps: "wf_cluster reps"
  shows "\<exists>i. least_loaded reps now avoid = Inr i \<and> i \<in> set (candidates reps avoid) \<and>
    (\<forall>j \<in> set (candidates reps avoid). load_key now (reps ! i) \<le> load_key now (reps ! j))"
proof -
  have ne: "candidates reps avoid \<noteq> []" using reps by (intro candidates_nonempty) (simp add: wf_cluster_def)
  have "\<not> isl (gpu_utilization (reps ! i))" if "i \<in> set (candidates reps avoid)" for i
    using wf_clusterD(4) [OF reps candidates_range [OF that]] by (simp add: gpu_utilization_def)
  then have no: "\<not> (\<exists>i \<in> set (candidates reps avoid). isl (gpu_utilization (reps ! i)))" by blast
  have "least_loaded reps now avoid =
      Inr (arg_min_list (\<lambda>i. load_key now (reps ! i)) (candidates reps avoid))"
    by (simp only: least_loaded_def Let_def ne no if_False)
  moreover have "load_key now (reps ! arg_min_list (\<lambda>i. load_key now (reps ! i)) (candidates reps avoid))
      \<le> load_key now (reps ! j)" if "j \<in> set (candidates reps avoid)" for j
    by (rule arg_min_list_least [OF that, of "\<lambda>i. load_key now (reps ! i)"])
  ultimately show ?thesis using arg_min_list_in [OF ne] by blast
qed

subsection \<open>What a router does with any lawful store\<close>

text \<open>The session is warm at \<open>h\<close>: its home is \<open>h\<close> and the replica there still holds its prefix.\<close>

definition warm_at :: "replica list \<Rightarrow> int option \<Rightarrow> string \<Rightarrow> nat \<Rightarrow> bool" where
  "warm_at reps home_id sid h \<longleftrightarrow> home_id = Some (int h) \<and> h < length reps \<and>
     fst (lookup sid (reps ! h)) \<noteq> MISS"

definition minimal_load :: "replica list \<Rightarrow> real \<Rightarrow> nat set \<Rightarrow> nat \<Rightarrow> bool" where
  "minimal_load reps now A i \<longleftrightarrow> i \<in> A \<and> (\<forall>j \<in> A. load_key now (reps ! i) \<le> load_key now (reps ! j))"

lemma least_loaded_all:
  assumes "wf_cluster reps"
  shows "\<exists>i. least_loaded reps now None = Inr i \<and> minimal_load reps now {..<length reps} i"
proof -
  have "set (candidates reps None) = {..<length reps}" by (auto simp: candidates_def Let_def)
  with least_loaded_wf [OF assms, of now None] show ?thesis by (simp add: minimal_load_def)
qed

lemma least_loaded_avoiding:
  assumes "wf_cluster reps" "1 < length reps" "h < length reps"
  shows "\<exists>i. least_loaded reps now (Some (rep_id (reps ! h))) = Inr i \<and>
    minimal_load reps now ({..<length reps} - {h}) i"
proof -
  have "set (candidates reps (Some (rep_id (reps ! h)))) = {..<length reps} - {h}"
    using candidates_avoid [OF assms] by blast
  with least_loaded_wf [OF assms(1), of now "Some (rep_id (reps ! h))"]
  show ?thesis by (simp add: minimal_load_def)
qed

context home_map
begin

lemma select_warm:
  assumes s: "inv s" and warm: "warm_at reps (home_at (fst clocks) s sid) sid h"
    and idle: "inflight (reps ! h) \<le> affinity_queue_limit (ar_config rt)"
  shows "\<exists>s'. affinity_select ops reps sid now clocks rt s =
      (Inr h, rt\<lparr>affinity_hits := affinity_hits rt + 1\<rparr>, s') \<and> inv s' \<and> ttl s' = ttl s \<and>
    (\<forall>t' k'. fst clocks \<le> t' \<longrightarrow> home_at t' s' k' = home_at t' s k')"
  using get_home_law [OF s, of "fst clocks" sid] warm idle
  by (auto simp: affinity_select_def warm_at_def)

lemma select_congested:
  assumes s: "inv s" and warm: "warm_at reps (home_at (fst clocks) s sid) sid h"
    and busy: "affinity_queue_limit (ar_config rt) < inflight (reps ! h)"
    and reps: "wf_cluster reps" "1 < length reps"
  shows "\<exists>i s'. affinity_select ops reps sid now clocks rt s =
      (Inr i, rt\<lparr>affinity_breaks := affinity_breaks rt + 1\<rparr>, s') \<and>
    minimal_load reps now ({..<length reps} - {h}) i \<and> inv s' \<and> ttl s' = ttl s \<and>
    (\<forall>t' k'. fst clocks \<le> t' \<longrightarrow> home_at t' s' k' = home_at t' s k')"
proof -
  have h: "h < length reps" using warm by (simp add: warm_at_def)
  from least_loaded_avoiding [OF reps h] obtain i
    where "least_loaded reps now (Some (rep_id (reps ! h))) = Inr i"
      "minimal_load reps now ({..<length reps} - {h}) i" by blast
  then show ?thesis
    using get_home_law [OF s, of "fst clocks" sid] warm busy
    by (auto simp: affinity_select_def warm_at_def)
qed

lemma place_session_law:
  assumes s: "inv s" and reps: "wf_cluster reps"
  shows "\<exists>i s'. place_session ops reps sid now clock rt s = (Inr i, rt, s') \<and>
    minimal_load reps now {..<length reps} i \<and> inv s' \<and> ttl s' = ttl s \<and>
    (\<forall>t'. t' \<le> clock + ttl s \<longrightarrow> home_at t' s' sid = Some (int i)) \<and>
    (\<forall>t' k'. k' \<noteq> sid \<longrightarrow> home_at t' s' k' = None \<or> home_at t' s' k' = home_at t' s k')"
proof -
  from least_loaded_all [OF reps] obtain i where i: "least_loaded reps now None = Inr i"
    "minimal_load reps now {..<length reps} i" by blast
  then have "i < length reps" by (simp add: minimal_load_def)
  then have "rep_id (reps ! i) = int i" by (rule wf_clusterD(1) [OF reps])
  with i set_home_law [OF s, of clock sid "int i"] show ?thesis
    by (auto simp: place_session_def)
qed

lemma select_cold:
  assumes s: "inv s" and cold: "\<And>h. \<not> warm_at reps (home_at (fst clocks) s sid) sid h"
    and reps: "wf_cluster reps"
  shows "\<exists>i s'. affinity_select ops reps sid now clocks rt s = (Inr i, rt, s') \<and>
    minimal_load reps now {..<length reps} i \<and> inv s' \<and> ttl s' = ttl s \<and>
    (\<forall>t'. t' \<le> snd clocks + ttl s \<longrightarrow> home_at t' s' sid = Some (int i)) \<and>
    (\<forall>t' k'. fst clocks \<le> t' \<longrightarrow> k' \<noteq> sid \<longrightarrow> home_at t' s' k' = None \<or> home_at t' s' k' = home_at t' s k')"
proof -
  obtain s1 where s1: "get_home ops (fst clocks) sid s = (Inr (home_at (fst clocks) s sid), s1)"
    "inv s1" "ttl s1 = ttl s" "\<And>t' k'. fst clocks \<le> t' \<Longrightarrow> home_at t' s1 k' = home_at t' s k'"
    using get_home_law [OF s, of "fst clocks" sid] by blast
  have "affinity_select ops reps sid now clocks rt s = place_session ops reps sid now (snd clocks) rt s1"
  proof (cases "home_at (fst clocks) s sid")
    case None
    with s1(1) show ?thesis by (simp add: affinity_select_def)
  next
    case (Some h)
    with s1(1) cold [of "nat h"] show ?thesis by (auto simp: affinity_select_def warm_at_def Let_def)
  qed
  with place_session_law [OF s1(2) reps, of sid now "snd clocks" rt] s1(3,4) show ?thesis by metis
qed

lemma select_total:
  assumes s: "inv s" and reps: "wf_cluster reps"
  shows "\<exists>i rt' s'. affinity_select ops reps sid now clocks rt s = (Inr i, rt', s') \<and>
    i < length reps \<and> inv s' \<and> ttl s' = ttl s \<and> ar_config rt' = ar_config rt"
proof (cases "\<exists>h. warm_at reps (home_at (fst clocks) s sid) sid h")
  case True
  then obtain h where warm: "warm_at reps (home_at (fst clocks) s sid) sid h" ..
  then have h: "h < length reps" by (simp add: warm_at_def)
  show ?thesis
  proof (cases "inflight (reps ! h) \<le> affinity_queue_limit (ar_config rt)")
    case True
    from select_warm [OF s warm True, of now] h show ?thesis by fastforce
  next
    case False
    have "\<exists>i. least_loaded reps now (Some (rep_id (reps ! h))) = Inr i \<and> i < length reps"
      using least_loaded_wf [OF reps] candidates_range by blast
    with get_home_law [OF s, of "fst clocks" sid] warm False show ?thesis
      by (auto simp: affinity_select_def warm_at_def)
  qed
next
  case False
  with select_cold [OF s _ reps, of clocks sid now rt] show ?thesis by (auto simp: minimal_load_def)
qed

text \<open>A new session comes back to the replica it was first sent to.\<close>

lemma select_then_return:
  assumes s: "inv s" and cold: "\<And>h. \<not> warm_at reps (home_at (fst clocks) s sid) sid h"
    and reps: "wf_cluster reps"
    and first: "affinity_select ops reps sid now clocks rt s = (Inr i, rt1, s1)"
    and stored: "length reps' = length reps" "fst (lookup sid (reps' ! i)) \<noteq> MISS"
    and idle: "inflight (reps' ! i) \<le> affinity_queue_limit (ar_config rt)"
    and soon: "fst clocks' \<le> snd clocks + ttl s"
  shows "\<exists>s2. affinity_select ops reps' sid now' clocks' rt1 s1 =
    (Inr i, rt1\<lparr>affinity_hits := affinity_hits rt + 1\<rparr>, s2)"
proof -
  from select_cold [OF s cold reps, of now rt] first
  have i: "i < length reps" and rt1: "rt1 = rt" and s1: "inv s1"
    and home: "\<And>t'. t' \<le> snd clocks + ttl s \<Longrightarrow> home_at t' s1 sid = Some (int i)"
    by (auto simp: minimal_load_def)
  have "warm_at reps' (home_at (fst clocks') s1 sid) sid i"
    using home [OF soon] i stored by (simp add: warm_at_def)
  from select_warm [OF s1 this, of rt1 now'] idle rt1 show ?thesis by auto
qed

end

context roomy_store
begin

lemma select_spares:
  assumes s: "inv s" "roomy P s" "sid \<in> P" and sel: "affinity_select ops reps sid now clocks rt s = (res, rt', s')"
    and t: "fst clocks \<le> t"
  shows "roomy P s' \<and> spares t sid s s'"
proof -
  obtain s1 where s1: "get_home ops (fst clocks) sid s = (Inr (home_at (fst clocks) s sid), s1)" "inv s1"
    using get_home_law [OF s(1), of "fst clocks" sid] by blast
  have spared: "roomy P s1" "spares t sid s s1"
    using roomy_get_home [OF s(1,2), of "fst clocks" sid] spares_later [OF get_home_spares [OF s(1), of "fst clocks" sid] t] s1(1)
    by simp_all
  have "s' = s1 \<or> (\<exists>i. s' = snd (set_home ops (snd clocks) sid i s1))"
    using sel s1(1)
    by (auto simp: affinity_select_def place_session_def Let_def split: option.splits if_splits sum.splits prod.splits)
      (metis snd_conv)+
  then show ?thesis
    using spared roomy_set_home [OF s1(2) spared(1) s(3)] spares_trans [OF spared(2) set_home_spares [OF s1(2) spared(1) s(3)]]
    by auto
qed

end

subsection \<open>Properties\<close>

text \<open>A three-replica cluster on which session \<open>a\<close> is warm at replica 1.\<close>

definition example_cluster :: "replica list" where
  "example_cluster =
     (build_replicas 3 example_hw lru_policy)
       [1 := (example_replica lru_policy)\<lparr>rep_id := 1, pending := [900, 950], active := 5, peak_active := 5\<rparr>]"

lemma wf_example_hw [simp]: "wf_hardware example_hw"
  by (simp add: wf_hardware_def example_hw_def default_hardware_def)

lemma example_cluster_simps [simp]:
  "length example_cluster = 3"
  "example_cluster ! 1 =
     (example_replica lru_policy)\<lparr>rep_id := 1, pending := [900, 950], active := 5, peak_active := 5\<rparr>"
  "example_cluster ! Suc 0 =
     (example_replica lru_policy)\<lparr>rep_id := 1, pending := [900, 950], active := 5, peak_active := 5\<rparr>"
  by (simp_all add: example_cluster_def build_replicas_def)

lemma wf_example_cluster [simp]: "wf_cluster example_cluster"
  unfolding example_cluster_def
proof (rule wf_cluster_update)
  show "wf_cluster (build_replicas 3 example_hw lru_policy)" by (rule wf_build_replicas) simp_all
  show "1 < length (build_replicas 3 example_hw lru_policy)" by (simp add: build_replicas_def)
  show "wf_replica ((example_replica lru_policy)\<lparr>rep_id := 1, pending := [900, 950], active := 5, peak_active := 5\<rparr>)"
    using wf_example_replica [of lru_policy] by (simp add: wf_replica_def dram_tokens_def)
qed (simp_all add: example_hw_def default_hardware_def)

definition example_store :: mem_store where
  "example_store = snd (mem_set_home 100 ''a'' 1 (new_mem_store 10 3600))"

lemma example_store_eq: "example_store = (new_mem_store 10 3600)\<lparr>home := [(''a'', 1, 3700)]\<rparr>"
  by (simp add: example_store_def mem_set_home_def table_put_def move_to_end_def new_mem_store_def)

lemma wf_example_store [simp]: "wf_mem_store example_store"
  by (simp add: example_store_eq new_mem_store_def wf_mem_store_def wf_table_def)

lemma example_store_simps [simp]:
  "home example_store = [(''a'', 1, 3700)]" "ttl_s example_store = 3600"
  by (simp_all add: example_store_eq new_mem_store_def)

lemma example_warm [simp]:
  "t \<le> 3700 \<Longrightarrow> warm_at example_cluster (mem_home_at t example_store ''a'') ''a'' (Suc 0)"
  by (simp add: warm_at_def mem_home_at_def live_def lookup_def)

definition example_router :: "int \<Rightarrow> affinity_router" where
  "example_router limit = new_affinity_router (default_policy_config\<lparr>affinity_queue_limit := limit\<rparr>)"

text \<open>
  C8: Affinity. A session whose home replica still holds its prefix and is at or below the
  queue limit is sent to that replica, the decision is counted as a hit, and no session's home
  changes.
\<close>

theorem affinity_honoured:
  assumes "wf_mem_store s" and "warm_at reps (mem_home_at (fst clocks) s sid) sid h"
    and "inflight (reps ! h) \<le> affinity_queue_limit (ar_config rt)"
  shows "\<exists>s'. affinity_select mem_ops reps sid now clocks rt s =
      (Inr h, rt\<lparr>affinity_hits := affinity_hits rt + 1\<rparr>, s') \<and> wf_mem_store s' \<and>
    (\<forall>t' k'. fst clocks \<le> t' \<longrightarrow> mem_home_at t' s' k' = mem_home_at t' s k')"
  using mem.select_warm [OF assms] by blast

lemma affinity_honoured_witness:
  "\<exists>s'. affinity_select mem_ops example_cluster ''a'' 0 (200, 200) (example_router 9) example_store =
      (Inr 1, (example_router 9)\<lparr>affinity_hits := affinity_hits (example_router 9) + 1\<rparr>, s') \<and> wf_mem_store s' \<and>
    (\<forall>t' k'. fst (200, 200 :: real) \<le> t' \<longrightarrow> mem_home_at t' s' k' = mem_home_at t' example_store k')"
  by (rule affinity_honoured) (simp_all add: inflight_def example_router_def new_affinity_router_def)

text \<open>
  The release valve. When the warm home replica is above the queue limit and the cluster has
  another replica, the call goes to a different one, with the least load among the others; the
  detour is counted as a break and leaves every session's home where it was, so a momentary
  spike does not cost the session its prefix.
\<close>

theorem congestion_detours_without_rehoming:
  assumes "wf_mem_store s" and "warm_at reps (mem_home_at (fst clocks) s sid) sid h"
    and "affinity_queue_limit (ar_config rt) < inflight (reps ! h)"
    and "wf_cluster reps" and "1 < length reps"
  shows "\<exists>i s'. affinity_select mem_ops reps sid now clocks rt s =
      (Inr i, rt\<lparr>affinity_breaks := affinity_breaks rt + 1\<rparr>, s') \<and>
    i \<noteq> h \<and> minimal_load reps now ({..<length reps} - {h}) i \<and> wf_mem_store s' \<and>
    (\<forall>t' k'. fst clocks \<le> t' \<longrightarrow> mem_home_at t' s' k' = mem_home_at t' s k')"
  using mem.select_congested [OF assms, of now] by (auto simp: minimal_load_def)

lemma congestion_detours_without_rehoming_witness:
  "\<exists>i s'. affinity_select mem_ops example_cluster ''a'' 0 (200, 200) (example_router 6) example_store =
      (Inr i, (example_router 6)\<lparr>affinity_breaks := affinity_breaks (example_router 6) + 1\<rparr>, s') \<and>
    i \<noteq> 1 \<and> minimal_load example_cluster 0 ({..<length example_cluster} - {1}) i \<and> wf_mem_store s' \<and>
    (\<forall>t' k'. fst (200, 200 :: real) \<le> t' \<longrightarrow> mem_home_at t' s' k' = mem_home_at t' example_store k')"
  by (rule congestion_detours_without_rehoming)
    (simp_all add: inflight_def example_router_def new_affinity_router_def)

text \<open>
  A new session comes back. A session that is warm nowhere is sent to the replica with the
  least load of all (fewest in flight, then soonest free, then least utilized) and homed there;
  if that replica then holds its prefix and is not congested, the next call within the time to
  live returns to the same replica, whatever has happened to the load of the others.
\<close>

theorem cold_session_is_homed_and_returns:
  assumes s: "wf_mem_store s" and reps: "wf_cluster reps"
    and cold: "\<forall>h. \<not> warm_at reps (mem_home_at (fst clocks) s sid) sid h"
    and later: "length reps' = length reps" "fst clocks' \<le> snd clocks + ttl_s s"
  shows "\<exists>i s1. affinity_select mem_ops reps sid now clocks rt s = (Inr i, rt, s1) \<and>
    minimal_load reps now {..<length reps} i \<and>
    (fst (lookup sid (reps' ! i)) \<noteq> MISS \<longrightarrow>
     inflight (reps' ! i) \<le> affinity_queue_limit (ar_config rt) \<longrightarrow>
     (\<exists>s2. affinity_select mem_ops reps' sid now' clocks' rt s1 =
        (Inr i, rt\<lparr>affinity_hits := affinity_hits rt + 1\<rparr>, s2)))"
proof -
  have cold': "\<And>h. \<not> warm_at reps (mem_home_at (fst clocks) s sid) sid h" using cold by simp
  obtain i s1 where sel: "affinity_select mem_ops reps sid now clocks rt s = (Inr i, rt, s1)"
    and min: "minimal_load reps now {..<length reps} i"
    using mem.select_cold [OF s cold' reps, of now rt] by blast
  with mem.select_then_return [OF s cold' reps sel later(1) _ _ later(2), of now'] show ?thesis by blast
qed

lemma cold_session_is_homed_and_returns_witness:
  "\<exists>i s1. affinity_select mem_ops example_cluster ''new'' 0 (200, 201) (example_router 6) example_store =
      (Inr i, example_router 6, s1) \<and>
    minimal_load example_cluster 0 {..<length example_cluster} i \<and>
    (fst (lookup ''new'' (example_cluster ! i)) \<noteq> MISS \<longrightarrow>
     inflight (example_cluster ! i) \<le> affinity_queue_limit (ar_config (example_router 6)) \<longrightarrow>
     (\<exists>s2. affinity_select mem_ops example_cluster ''new'' 50 (260, 260) (example_router 6) s1 =
        (Inr i, (example_router 6)\<lparr>affinity_hits := affinity_hits (example_router 6) + 1\<rparr>, s2)))"
  by (rule cold_session_is_homed_and_returns)
    (simp_all add: warm_at_def mem_home_at_def live_def)

lemma rr_run_eq:
  "reps \<noteq> [] \<Longrightarrow> rr_run m reps rt = Inr (map (\<lambda>j. (cursor rt + j) mod length reps) [0..<m])"
proof (induction m arbitrary: rt)
  case (Suc m)
  then have "rr_run m reps (rt\<lparr>cursor := Suc (cursor rt)\<rparr>) =
      Inr (map (\<lambda>j. (cursor rt + Suc j) mod length reps) [0..<m])" by simp
  moreover have "map (\<lambda>j. (cursor rt + j) mod length reps) [0..<Suc m] =
      cursor rt mod length reps # map (\<lambda>j. (cursor rt + Suc j) mod length reps) [0..<m]"
    by (simp only: upt_conv_Cons zero_less_Suc list.map add_0_right map_Suc_upt [symmetric]) simp
  ultimately show ?case using Suc.prems by (simp add: rr_select_def del: upt_Suc)
qed simp

text \<open>
  The baseline scatters. Wherever its cursor stands, as many consecutive round-robin
  decisions as there are replicas visit every replica exactly once, so consecutive calls of one
  session land on different replicas; with no replica the decision raises.
\<close>

theorem round_robin_visits_all:
  "(reps \<noteq> [] \<longrightarrow> (\<exists>is. rr_run (length reps) reps rt = Inr is \<and> distinct is \<and> set is = {..<length reps})) \<and>
   (reps = [] \<longrightarrow> rr_select reps rt = Inl ZeroDivisionError)"
proof -
  let ?n = "length reps"
  let ?f = "\<lambda>j. (cursor rt + j) mod ?n"
  have "inj_on ?f {..<?n}"
  proof (rule linorder_inj_onI')
    fix i j assume "i \<in> {..<?n}" "j \<in> {..<?n}" "i < j"
    then have "\<not> ?n dvd (cursor rt + j) - (cursor rt + i)" by (auto dest: dvd_imp_le)
    then show "?f i \<noteq> ?f j" using \<open>i < j\<close> by (metis add_le_cancel_left less_imp_le mod_eq_dvd_iff_nat)
  qed
  moreover from this have "?f ` {..<?n} = {..<?n}" if "reps \<noteq> []"
    using that by (intro card_subset_eq) (auto simp: card_image)
  ultimately show ?thesis
    by (auto simp: rr_run_eq rr_select_def distinct_map lessThan_atLeast0 simp flip: atLeast0LessThan)
qed

lemma round_robin_visits_all_witness:
  "\<exists>is. rr_run (length example_cluster) example_cluster \<lparr>cursor = 5\<rparr> = Inr is \<and> distinct is \<and>
     set is = {..<length example_cluster}"
proof -
  have "example_cluster \<noteq> []" by (metis example_cluster_simps(1) list.size(3) zero_neq_numeral)
  then show ?thesis using round_robin_visits_all [of example_cluster "\<lparr>cursor = 5\<rparr>"] by blast
qed

end
