(* ===== verification/Backend.thy ===== *)
theory Backend
  imports Replica
begin

section \<open>The backend interface\<close>

text \<open>
  \<open>agentserve/backends/base.py\<close>. A backend serves one call on a replica and updates its cache; in
  the model \<open>execute\<close> returns an exception, or the result with the updated replica.

  \<open>serving_backend\<close> is what every backend keeps, the vLLM adapter included: it touches nothing of
  the replica but its cache and its clock, so slots and routing data are the gateway's own.
  \<open>backend\<close> adds that a call on a well-formed replica succeeds and keeps the replica well formed,
  and \<open>timed_backend\<close> that no time is negative; the simulated worker satisfies those as well.
\<close>

type_synonym execute_method =
  "replica \<Rightarrow> string \<Rightarrow> int \<Rightarrow> int \<Rightarrow> real \<Rightarrow> real \<Rightarrow> py_error + request_result \<times> replica"

locale serving_backend =
  fixes exec :: execute_method
  assumes exec_frame:
    "exec r sid pt ot now ret = Inr (res, r') \<Longrightarrow>
       hw r' = hw r \<and> policy r' = policy r \<and> rep_id r' = rep_id r \<and> pending r' = pending r \<and>
       active r' = active r \<and> peak_active r' = peak_active r \<and>
       rr_session_id res = sid \<and> rr_replica_id res = rep_id r"
begin

text \<open>A call served inside a slot gives the slot back, whatever it did to the cache.\<close>

lemma exec_in_slot:
  assumes "exec (slot_enter r) sid pt ot now ret = Inr (res, r')" "0 \<le> active r"
  shows "active (slot_exit r') = active r" "inflight (slot_exit r') = inflight r"
  using exec_frame [OF assms(1)] assms(2)
  by (simp_all add: slot_exit_def slot_enter_def Let_def inflight_def)

end

locale backend = serving_backend +
  assumes exec_total:
    "wf_replica r \<Longrightarrow> code_policy (policy r) \<Longrightarrow> 0 \<le> pt \<Longrightarrow> 0 \<le> ot \<Longrightarrow>
     \<exists>res r'. exec r sid pt ot now ret = Inr (res, r') \<and> wf_replica r' \<and>
       gpu_tokens r' \<le> gpu_cache_tokens (hw r') \<and> 0 \<le> reused_tokens res \<and> 0 \<le> computed_tokens res"

locale timed_backend = backend +
  assumes exec_times:
    "wf_replica r \<Longrightarrow> code_policy (policy r) \<Longrightarrow> 0 \<le> pt \<Longrightarrow> 0 \<le> ot \<Longrightarrow>
     exec r sid pt ot now ret = Inr (res, r') \<Longrightarrow>
     0 \<le> queue_ms res \<and> 0 \<le> restore_ms res \<and> 0 \<le> prefill_ms res \<and> 0 \<le> decode_ms res"
begin

lemma exec_latency:
  assumes "wf_replica r" "code_policy (policy r)" "0 \<le> pt" "0 \<le> ot"
    and "exec r sid pt ot now ret = Inr (res, r')"
  shows "0 \<le> ttft_ms res" "ttft_ms res \<le> latency_ms res"
  using exec_times [OF assms] by (auto simp: ttft_ms_def latency_ms_def)

end

end
