(* ===== verification/Simulated.thy ===== *)
theory Simulated
  imports Backend
begin

section \<open>The simulated backend\<close>

text \<open>
  \<open>agentserve/backends/simulated.py\<close>: the deterministic cost model of a worker. It satisfies the
  backend interface for every hardware profile; no time it reports is negative for the default
  profile, nor for any profile that passes the settings.
\<close>

subsection \<open>The cost model\<close>

definition sim_execute :: "hardware_profile \<Rightarrow> execute_method" where
  "sim_execute h r sid pt ot now ret =
     (let (t, cached) = lookup sid r;
          reusable = (if t \<noteq> MISS then min cached pt else 0);
          computed = pt - reusable;
          restore = (if t = DRAM then real_of_int reusable * dram_restore_ms_per_token h else 0);
          r1 = (if t = DRAM then promote_from_dram sid r else r);
          prefill = real_of_int computed * prefill_ms_per_token h;
          decode = real_of_int ot * decode_ms_per_token h;
          queue = max 0 (free_at_ms r1 - now);
          service = restore + prefill + decode;
          r2 = r1\<lparr>free_at_ms := max (free_at_ms r1) now + service\<rparr>
      in case store sid (pt + ot) (now + queue + service) ret r2 of
           Inl e \<Rightarrow> Inl e
         | Inr r3 \<Rightarrow>
             Inr (\<lparr>rr_session_id = sid, rr_replica_id = rep_id r, rr_tier = t,
                   reused_tokens = reusable, computed_tokens = computed, prefill_ms = prefill,
                   decode_ms = decode, queue_ms = queue, restore_ms = restore, rr_text = JStr [],
                   completion_tokens = 0\<rparr>, r3))"

text \<open>The parts of the result, as functions of the replica before the call.\<close>

definition reusable_tokens :: "string \<Rightarrow> int \<Rightarrow> replica \<Rightarrow> int" where
  "reusable_tokens sid pt r = (if fst (lookup sid r) = MISS then 0 else min (snd (lookup sid r)) pt)"

definition restore_cost :: "hardware_profile \<Rightarrow> string \<Rightarrow> int \<Rightarrow> replica \<Rightarrow> real" where
  "restore_cost h sid pt r =
     (if fst (lookup sid r) = DRAM
      then real_of_int (reusable_tokens sid pt r) * dram_restore_ms_per_token h else 0)"

definition prefill_cost :: "hardware_profile \<Rightarrow> string \<Rightarrow> int \<Rightarrow> replica \<Rightarrow> real" where
  "prefill_cost h sid pt r = real_of_int (pt - reusable_tokens sid pt r) * prefill_ms_per_token h"

definition service_cost :: "hardware_profile \<Rightarrow> string \<Rightarrow> int \<Rightarrow> int \<Rightarrow> replica \<Rightarrow> real" where
  "service_cost h sid pt ot r =
     restore_cost h sid pt r + prefill_cost h sid pt r + real_of_int ot * decode_ms_per_token h"

definition ready_replica :: "hardware_profile \<Rightarrow> string \<Rightarrow> int \<Rightarrow> int \<Rightarrow> real \<Rightarrow> replica \<Rightarrow> replica" where
  \<comment> \<open>the replica as it enters \<open>store\<close>\<close>
  "ready_replica h sid pt ot now r =
     (if fst (lookup sid r) = DRAM then promote_from_dram sid r else r)
       \<lparr>free_at_ms := max (free_at_ms r) now + service_cost h sid pt ot r\<rparr>"

lemma promote_frame [simp]:
  "rep_id (promote_from_dram sid r) = rep_id r" "hw (promote_from_dram sid r) = hw r"
  "policy (promote_from_dram sid r) = policy r" "free_at_ms (promote_from_dram sid r) = free_at_ms r"
  "pending (promote_from_dram sid r) = pending r" "active (promote_from_dram sid r) = active r"
  "peak_active (promote_from_dram sid r) = peak_active r"
  "evictions (promote_from_dram sid r) = evictions r"
  by (simp_all add: promote_from_dram_def split: option.split)

lemma sim_execute_eq:
  "sim_execute h r sid pt ot now ret =
     (case store sid (pt + ot) (now + max 0 (free_at_ms r - now) + service_cost h sid pt ot r) ret
             (ready_replica h sid pt ot now r) of
        Inl e \<Rightarrow> Inl e
      | Inr r3 \<Rightarrow>
          Inr (\<lparr>rr_session_id = sid, rr_replica_id = rep_id r, rr_tier = fst (lookup sid r),
                reused_tokens = reusable_tokens sid pt r,
                computed_tokens = pt - reusable_tokens sid pt r,
                prefill_ms = prefill_cost h sid pt r, decode_ms = real_of_int ot * decode_ms_per_token h,
                queue_ms = max 0 (free_at_ms r - now), restore_ms = restore_cost h sid pt r,
                rr_text = JStr [], completion_tokens = 0\<rparr>, r3))"
  by (cases "lookup sid r"; cases "fst (lookup sid r)")
    (simp_all add: sim_execute_def ready_replica_def service_cost_def restore_cost_def
      prefill_cost_def reusable_tokens_def Let_def split: sum.split)

lemma wf_promote [wf_intros]:
  assumes r: "wf_replica r"
  shows "wf_replica (promote_from_dram sid r)"
proof (cases "map_of (dram r) sid")
  case None
  with r show ?thesis by (simp add: promote_from_dram_def)
next
  case (Some e)
  have e: "entry_ok DRAM sid e" by (rule entries_ok_entry [OF wf_replicaD(2) [OF r] Some])
  then have "entries_ok GPU (AList.update sid (e\<lparr>ce_tier := GPU\<rparr>) (gpu r))"
    using wf_replicaD(1) [OF r] by (intro wf_intros) (simp_all add: entry_ok_def)
  moreover have "dict_sum ce_tokens (AList.delete sid (dram r)) \<le> dict_sum ce_tokens (dram r)"
    using Some entry_okD(2) [OF e] entries_ok_wf [OF wf_replicaD(2) [OF r]]
    by (simp add: dict_sum_delete)
  ultimately show ?thesis
    using r Some
    by (auto simp: promote_from_dram_def wf_replica_def dram_tokens_def keys_update keys_delete
        simp del: set_map)
qed

lemma wf_ready [wf_intros]: "wf_replica r \<Longrightarrow> wf_replica (ready_replica h sid pt ot now r)"
  using wf_promote [of r sid] by (simp add: ready_replica_def wf_replica_def dram_tokens_def)

lemma ready_frame [simp]:
  "rep_id (ready_replica h sid pt ot now r) = rep_id r" "hw (ready_replica h sid pt ot now r) = hw r"
  "policy (ready_replica h sid pt ot now r) = policy r"
  "pending (ready_replica h sid pt ot now r) = pending r"
  "active (ready_replica h sid pt ot now r) = active r"
  "peak_active (ready_replica h sid pt ot now r) = peak_active r"
  "free_at_ms (ready_replica h sid pt ot now r) = max (free_at_ms r) now + service_cost h sid pt ot r"
  by (simp_all add: ready_replica_def)

lemma lookup_nonneg: "wf_replica r \<Longrightarrow> 0 \<le> snd (lookup sid r)"
  using entries_okD(2) [OF wf_replicaD(1), of r sid] entries_okD(2) [OF wf_replicaD(2), of r sid]
  by (auto simp: lookup_def split: option.split)

lemma reusable_bounds:
  assumes "wf_replica r" "0 \<le> pt"
  shows "0 \<le> reusable_tokens sid pt r" "reusable_tokens sid pt r \<le> pt"
    "reusable_tokens sid pt r \<le> snd (lookup sid r)"
  using lookup_nonneg [OF assms(1), of sid] assms(2)
  by (auto simp: reusable_tokens_def)

lemma sim_execute_law:
  assumes r: "wf_replica r" "code_policy (policy r)" and n: "0 \<le> pt" "0 \<le> ot"
  shows "\<exists>res r'. sim_execute h r sid pt ot now ret = Inr (res, r') \<and>
    wf_replica r' \<and> gpu_tokens r' \<le> gpu_cache_tokens (hw r') \<and>
    hw r' = hw r \<and> policy r' = policy r \<and> rep_id r' = rep_id r \<and>
    load_of r' = (max (free_at_ms r) now + service_cost h sid pt ot r, pending r, active r, peak_active r) \<and>
    res = \<lparr>rr_session_id = sid, rr_replica_id = rep_id r, rr_tier = fst (lookup sid r),
           reused_tokens = reusable_tokens sid pt r, computed_tokens = pt - reusable_tokens sid pt r,
           prefill_ms = prefill_cost h sid pt r, decode_ms = real_of_int ot * decode_ms_per_token h,
           queue_ms = max 0 (free_at_ms r - now), restore_ms = restore_cost h sid pt r,
           rr_text = JStr [], completion_tokens = 0\<rparr>"
proof -
  let ?q = "ready_replica h sid pt ot now r"
  let ?t = "now + max 0 (free_at_ms r - now) + service_cost h sid pt ot r"
  have q: "wf_replica ?q" "code_policy (policy ?q)" using r by (simp_all add: wf_ready)
  have pos: "0 \<le> pt + ot" using n by simp
  obtain r' where st: "store sid (pt + ot) ?t ret ?q = Inr r'" and r': "wf_replica r'"
    "gpu_tokens r' \<le> gpu_cache_tokens (hw r')" "hw r' = hw ?q" "policy r' = policy ?q" "rep_id r' = rep_id ?q"
    using store_wf [OF q pos, of sid ?t ret] by blast
  have "load_of r' = load_of ?q" by (rule store_load [OF q pos st])
  then have "load_of r' =
      (max (free_at_ms r) now + service_cost h sid pt ot r, pending r, active r, peak_active r)"
    by (simp add: load_of_def)
  with st r' show ?thesis by (simp add: sim_execute_eq)
qed

lemma sim_execute_frame:
  assumes "sim_execute h r sid pt ot now ret = Inr (res, r')"
  shows "hw r' = hw r \<and> policy r' = policy r \<and> rep_id r' = rep_id r \<and> pending r' = pending r \<and>
    active r' = active r \<and> peak_active r' = peak_active r \<and>
    rr_session_id res = sid \<and> rr_replica_id res = rep_id r"
proof -
  obtain t where "store sid (pt + ot) t ret (ready_replica h sid pt ot now r) = Inr r'"
    and "rr_session_id res = sid \<and> rr_replica_id res = rep_id r"
    using assms by (auto simp: sim_execute_eq split: sum.splits)
  with frame_of_store show ?thesis by (fastforce simp: frame_of_def load_of_def)
qed

interpretation sim: backend "sim_execute h" for h
proof
  fix r r' :: replica and res :: request_result and pt ot :: int and sid :: string and now ret :: real
  assume "sim_execute h r sid pt ot now ret = Inr (res, r')"
  then show "hw r' = hw r \<and> policy r' = policy r \<and> rep_id r' = rep_id r \<and> pending r' = pending r \<and>
      active r' = active r \<and> peak_active r' = peak_active r \<and>
      rr_session_id res = sid \<and> rr_replica_id res = rep_id r"
    by (rule sim_execute_frame)
next
  fix r :: replica and pt ot :: int and sid :: string and now ret :: real
  assume r: "wf_replica r" "code_policy (policy r)" and n: "0 \<le> pt" "0 \<le> ot"
  from sim_execute_law [OF r n, of h sid now ret] reusable_bounds [OF r(1) n(1), of sid]
  show "\<exists>res r'. sim_execute h r sid pt ot now ret = Inr (res, r') \<and> wf_replica r' \<and>
      gpu_tokens r' \<le> gpu_cache_tokens (hw r') \<and> 0 \<le> reused_tokens res \<and> 0 \<le> computed_tokens res"
    by auto
qed

lemma sim_execute_times:
  assumes h: "wf_hardware h" and r: "wf_replica r" "code_policy (policy r)" and n: "0 \<le> pt" "0 \<le> ot"
    and ex: "sim_execute h r sid pt ot now ret = Inr (res, r')"
  shows "0 \<le> queue_ms res \<and> 0 \<le> restore_ms res \<and> 0 \<le> prefill_ms res \<and> 0 \<le> decode_ms res"
  using sim_execute_law [OF r n, of h sid now ret] ex h n reusable_bounds [OF r(1) n(1), of sid]
  by (auto simp: restore_cost_def prefill_cost_def wf_hardware_def)

interpretation sim_default: timed_backend "sim_execute default_hardware"
  by unfold_locales (rule sim_execute_times [OF wf_default_hardware])

subsection \<open>Properties\<close>

text \<open>
  C29: The cost model accounts for every prompt token and every millisecond. A call on a
  well-formed replica never fails, reports the tier where the session was found, splits the
  prompt exactly into reused and recomputed tokens with no more reuse than was cached, reports
  only non-negative times, and advances the replica's busy time to exactly arrival plus latency.
\<close>

theorem simulated_call_accounts_for_all:
  assumes "wf_hardware h" and "wf_replica r" and "code_policy (policy r)" and "0 \<le> pt" and "0 \<le> ot"
  shows "\<exists>res r'. sim_execute h r sid pt ot now ret = Inr (res, r') \<and> wf_replica r' \<and>
    rr_tier res = fst (lookup sid r) \<and>
    reused_tokens res + computed_tokens res = pt \<and> 0 \<le> reused_tokens res \<and> 0 \<le> computed_tokens res \<and>
    reused_tokens res \<le> snd (lookup sid r) \<and>
    0 \<le> queue_ms res \<and> 0 \<le> ttft_ms res \<and> ttft_ms res \<le> latency_ms res \<and>
    free_at_ms r' = now + latency_ms res"
proof -
  obtain res r' where ex: "sim_execute h r sid pt ot now ret = Inr (res, r')" and r': "wf_replica r'"
    and load: "load_of r' = (max (free_at_ms r) now + service_cost h sid pt ot r, pending r, active r, peak_active r)"
    and res: "rr_tier res = fst (lookup sid r)" "reused_tokens res = reusable_tokens sid pt r"
      "computed_tokens res = pt - reusable_tokens sid pt r" "queue_ms res = max 0 (free_at_ms r - now)"
      "latency_ms res = max 0 (free_at_ms r - now) + service_cost h sid pt ot r"
    using sim_execute_law [OF assms(2-5), of h sid now ret]
    by (auto simp: latency_ms_def service_cost_def)
  moreover have "free_at_ms r' = now + latency_ms res"
    using load by (simp add: load_of_def res(5))
  moreover have "0 \<le> ttft_ms res" "ttft_ms res \<le> latency_ms res" "0 \<le> queue_ms res"
    using sim_execute_times [OF assms ex] by (auto simp: ttft_ms_def latency_ms_def)
  ultimately show ?thesis using reusable_bounds [OF assms(2,4), of sid] by auto
qed

lemma simulated_call_accounts_for_all_witness:
  "\<exists>res r'. sim_execute example_hw (example_replica lru_policy) ''c'' 5000 40 100 300 = Inr (res, r') \<and>
    wf_replica r' \<and> rr_tier res = fst (lookup ''c'' (example_replica lru_policy)) \<and>
    reused_tokens res + computed_tokens res = 5000 \<and> 0 \<le> reused_tokens res \<and> 0 \<le> computed_tokens res \<and>
    reused_tokens res \<le> snd (lookup ''c'' (example_replica lru_policy)) \<and>
    0 \<le> queue_ms res \<and> 0 \<le> ttft_ms res \<and> ttft_ms res \<le> latency_ms res \<and>
    free_at_ms r' = 100 + latency_ms res"
  by (rule simulated_call_accounts_for_all)
    (simp_all add: wf_hardware_def example_hw_def default_hardware_def)

text \<open>
  A cached prefix never makes a call slower. With the same arrival and the same backlog, a
  call whose prefix is cached on the GPU answers no later than one whose prefix covers as many
  tokens in host memory, and that one no later than one that is not cached at all; the saving
  over the cold call is the number of reused tokens times the difference in cost per token.
\<close>

theorem warm_calls_are_never_slower:
  assumes h: "wf_hardware h" and n: "0 \<le> pt" "0 \<le> ot"
    and r: "wf_replica r" "code_policy (policy r)" and q: "wf_replica q" "code_policy (policy q)"
    and c: "wf_replica c" "code_policy (policy c)"
    and tiers: "lookup sid r = (GPU, k)" "lookup sid q = (DRAM, k)" "lookup sid c = (MISS, 0)"
    and load: "free_at_ms q = free_at_ms r" "free_at_ms c = free_at_ms r"
    and ex: "sim_execute h r sid pt ot now ret = Inr (rres, r')"
      "sim_execute h q sid pt ot now ret = Inr (qres, q')" "sim_execute h c sid pt ot now ret = Inr (cres, c')"
  shows "ttft_ms rres \<le> ttft_ms qres \<and> ttft_ms qres \<le> ttft_ms cres \<and>
    ttft_ms cres - ttft_ms qres =
      real_of_int (min k pt) * (prefill_ms_per_token h - dram_restore_ms_per_token h)"
proof -
  have k: "0 \<le> min k pt" using lookup_nonneg [OF r(1), of sid] tiers(1) n(1) by simp
  have "ttft_ms rres = max 0 (free_at_ms r - now) + real_of_int (pt - min k pt) * prefill_ms_per_token h"
    using sim_execute_law [OF r n, of h sid now ret] ex(1) tiers(1)
    by (auto simp: ttft_ms_def restore_cost_def prefill_cost_def reusable_tokens_def)
  moreover have "ttft_ms qres = max 0 (free_at_ms r - now) +
      real_of_int (min k pt) * dram_restore_ms_per_token h + real_of_int (pt - min k pt) * prefill_ms_per_token h"
    using sim_execute_law [OF q n, of h sid now ret] ex(2) tiers(2) load(1)
    by (auto simp: ttft_ms_def restore_cost_def prefill_cost_def reusable_tokens_def)
  moreover have "ttft_ms cres = max 0 (free_at_ms r - now) + real_of_int pt * prefill_ms_per_token h"
    using sim_execute_law [OF c n, of h sid now ret] ex(3) tiers(3) load(2)
    by (auto simp: ttft_ms_def restore_cost_def prefill_cost_def reusable_tokens_def)
  moreover have "0 \<le> real_of_int (min k pt) * dram_restore_ms_per_token h"
    "0 \<le> real_of_int (min k pt) * (prefill_ms_per_token h - dram_restore_ms_per_token h)"
    using k h by (intro mult_nonneg_nonneg; simp add: wf_hardware_def)+
  ultimately show ?thesis by (simp add: algebra_simps)
qed

definition parked_example :: replica where
  "parked_example = (new_replica 0 example_hw lru_policy)
     \<lparr>dram := [(''a'', (example_entry ''a'' 4000 0 45000)\<lparr>ce_tier := DRAM\<rparr>)]\<rparr>"

lemma wf_parked_example [simp]: "wf_replica parked_example"
  by (simp add: parked_example_def wf_replica_def entries_ok_def entry_ok_def dram_tokens_def
      new_replica_def example_hw_def default_hardware_def example_entry_def)

lemma warm_calls_are_never_slower_witness:
  "\<exists>rres r' qres q' cres c'.
     sim_execute example_hw (example_replica lru_policy) ''a'' 5000 40 100 300 = Inr (rres, r') \<and>
     sim_execute example_hw parked_example ''a'' 5000 40 100 300 = Inr (qres, q') \<and>
     sim_execute example_hw (new_replica 0 example_hw lru_policy) ''a'' 5000 40 100 300 = Inr (cres, c') \<and>
     ttft_ms rres \<le> ttft_ms qres \<and> ttft_ms qres \<le> ttft_ms cres \<and>
     ttft_ms cres - ttft_ms qres =
       real_of_int (min 4000 5000) * (prefill_ms_per_token example_hw - dram_restore_ms_per_token example_hw)"
proof -
  let ?c = "new_replica 0 example_hw lru_policy"
  have hw: "wf_hardware example_hw" by (simp add: wf_hardware_def example_hw_def default_hardware_def)
  have wf: "wf_replica ?c" by (rule wf_new_replica) (simp_all add: example_hw_def default_hardware_def)
  have pol: "code_policy (policy parked_example)" "code_policy (policy ?c)"
    by (simp_all add: parked_example_def new_replica_def)
  obtain rres r' qres q' cres c' where ex:
    "sim_execute example_hw (example_replica lru_policy) ''a'' 5000 40 100 300 = Inr (rres, r')"
    "sim_execute example_hw parked_example ''a'' 5000 40 100 300 = Inr (qres, q')"
    "sim_execute example_hw ?c ''a'' 5000 40 100 300 = Inr (cres, c')"
    using sim_execute_law [of "example_replica lru_policy" 5000 40 example_hw "''a''" 100 300]
      sim_execute_law [of parked_example 5000 40 example_hw "''a''" 100 300]
      sim_execute_law [of ?c 5000 40 example_hw "''a''" 100 300] wf pol by auto
  have tiers: "lookup ''a'' (example_replica lru_policy) = (GPU, 4000)"
    "lookup ''a'' parked_example = (DRAM, 4000)" "lookup ''a'' ?c = (MISS, 0)"
    by (simp_all add: lookup_def parked_example_def new_replica_def example_entry_def)
  have load: "free_at_ms parked_example = free_at_ms (example_replica lru_policy)"
    "free_at_ms ?c = free_at_ms (example_replica lru_policy)"
    by (simp_all add: parked_example_def new_replica_def example_replica_def)
  show ?thesis
    using warm_calls_are_never_slower [OF hw _ _ _ _ _ pol(1) wf pol(2) tiers load ex] ex by auto
qed

end
