(* ===== verification/Vllm.thy ===== *)
theory Vllm
  imports Backend
begin

section \<open>The vLLM backend\<close>

text \<open>
  \<open>agentserve/backends/vllm.py\<close>. The HTTP client is library code: a record of functions over its
  own state \<open>'h\<close>. A POST returns an exception, or a response that says whether
  \<open>raise_for_status\<close> passes and what \<open>json()\<close> gives. While a request is awaited other coroutines
  run, so a call is two parts: \<open>try_workers\<close>, which only talks to the workers, and \<open>vllm_result\<close>,
  which updates the replica as it is when the response has come back. Stopwatch readings are
  arguments.
\<close>

record http_response =
  resp_ok :: bool
  resp_json :: "py_error + json"

record 'h http_client =
  http_post :: "string \<Rightarrow> json \<Rightarrow> 'h \<Rightarrow> (py_error + http_response) \<times> 'h"
  http_get :: "string \<Rightarrow> 'h \<Rightarrow> (py_error + int) \<times> 'h"

record 'h vllm_backend =
  endpoints :: "string list"
  model_name :: string
  max_retries :: int
  failovers :: int
  http :: 'h

definition rstrip_slash :: "string \<Rightarrow> string" where
  "rstrip_slash s = rev (dropWhile (\<lambda>c. c = CHR ''/'') (rev s))"

definition new_vllm_backend ::
  "string list \<Rightarrow> string \<Rightarrow> int \<Rightarrow> 'h \<Rightarrow> py_error + 'h vllm_backend" where
  "new_vllm_backend eps m retries h =
     (if eps = [] then Inl ValueError
      else Inr \<lparr>endpoints = map rstrip_slash eps, model_name = m, max_retries = retries,
                failovers = 0, http = h\<rparr>)"

subsection \<open>Choosing workers\<close>

definition worker_url :: "'h vllm_backend \<Rightarrow> int \<Rightarrow> string" where
  "worker_url b i = endpoints b ! nat (i mod int (length (endpoints b))) @ ''/v1/chat/completions''"

definition take_slice :: "int \<Rightarrow> 'a list \<Rightarrow> 'a list" where
  \<comment> \<open>\<open>xs[:k]\<close>; a negative bound counts from the end\<close>
  "take_slice k xs = (if 0 \<le> k then take (nat k) xs else take (nat (int (length xs) + k)) xs)"

definition fallbacks :: "'h vllm_backend \<Rightarrow> int \<Rightarrow> int list" where
  "fallbacks b rid =
     take_slice (1 + max_retries b)
       (rid # filter (\<lambda>i. i \<noteq> rid) (map int [0..<length (endpoints b)]))"

definition payload :: "'h vllm_backend \<Rightarrow> json list \<Rightarrow> int \<Rightarrow> bool \<Rightarrow> json" where
  "payload b messages max_tokens stream =
     JDict ([(''model'', JStr (model_name b)), (''messages'', JList messages),
             (''max_tokens'', JInt max_tokens), (''stream'', JBool stream)] @
            (if stream then [(''stream_options'', JDict [(''include_usage'', JBool True)])] else []))"

definition backoff_s :: "nat \<Rightarrow> real" where
  "backoff_s attempt = min (1 / 4 * 2 ^ attempt) 2"

fun try_workers ::
  "'h http_client \<Rightarrow> json \<Rightarrow> nat \<Rightarrow> int list \<Rightarrow> 'h vllm_backend \<Rightarrow> real list
   \<Rightarrow> (py_error + nat \<times> http_response) \<times> 'h vllm_backend \<times> real list" where
  \<comment> \<open>the loop of \<open>aexecute\<close>; the last argument collects the sleeps between attempts\<close>
  "try_workers api body attempt [] b slept = (Inl RuntimeError, b, slept)"
| "try_workers api body attempt (target # targets) b slept =
     (case http_post api (worker_url b target) body (http b) of
        (Inl e, h) \<Rightarrow>
          try_workers api body (attempt + 1) targets (b\<lparr>http := h\<rparr>) (slept @ [backoff_s attempt])
      | (Inr resp, h) \<Rightarrow>
          if resp_ok resp
          then (Inr (attempt, resp),
                b\<lparr>http := h, failovers := (if attempt \<noteq> 0 then failovers b + 1 else failovers b)\<rparr>, slept)
          else try_workers api body (attempt + 1) targets (b\<lparr>http := h\<rparr>) (slept @ [backoff_s attempt]))"

subsection \<open>Reading a response\<close>

definition int_field :: "json \<Rightarrow> string \<Rightarrow> int \<Rightarrow> py_error + int" where
  \<comment> \<open>\<open>int(x.get(key, default) or default)\<close>\<close>
  "int_field x key dflt =
     (case json_get x key (JInt dflt) of
        Inl e \<Rightarrow> Inl e
      | Inr v \<Rightarrow> json_int (json_or v (JInt dflt)))"

definition usage_counts :: "json \<Rightarrow> int \<Rightarrow> int \<Rightarrow> py_error + int \<times> int \<times> int" where
  \<comment> \<open>cached, prompt and completion tokens\<close>
  "usage_counts usage fallback_prompt fallback_completion =
     (case json_get usage ''prompt_tokens_details'' JNull of Inl e \<Rightarrow> Inl e | Inr d \<Rightarrow>
     (case int_field (json_or d (JDict [])) ''cached_tokens'' 0 of Inl e \<Rightarrow> Inl e | Inr cached \<Rightarrow>
     (case int_field usage ''prompt_tokens'' fallback_prompt of Inl e \<Rightarrow> Inl e | Inr prompt \<Rightarrow>
     (case int_field usage ''completion_tokens'' fallback_completion of Inl e \<Rightarrow> Inl e | Inr completion \<Rightarrow>
      Inr (cached, prompt, completion)))))"

record worker_report =
  wr_usage :: json
  wr_elapsed_ms :: real
  wr_ttft_ms :: real
  wr_text :: json

definition vllm_result :: "worker_report \<Rightarrow> execute_method" where
  "vllm_result w r sid fallback_prompt fallback_completion now ret =
     (case usage_counts (wr_usage w) fallback_prompt fallback_completion of
        Inl e \<Rightarrow> Inl e
      | Inr (cached, prompt, completion) \<Rightarrow>
          (case store sid (prompt + completion) (now + wr_elapsed_ms w) ret r of
             Inl e \<Rightarrow> Inl e
           | Inr r' \<Rightarrow>
               Inr (\<lparr>rr_session_id = sid, rr_replica_id = rep_id r,
                     rr_tier = (if 0 < cached then GPU else MISS),
                     reused_tokens = cached, computed_tokens = max 0 (prompt - cached),
                     prefill_ms = wr_ttft_ms w,
                     decode_ms = max 0 (wr_elapsed_ms w - wr_ttft_ms w),
                     queue_ms = 0, restore_ms = 0,
                     rr_text = wr_text w, completion_tokens = completion\<rparr>, r')))"

definition answer_text :: "json \<Rightarrow> py_error + json" where
  "answer_text body =
     (case json_get body ''choices'' JNull of Inl e \<Rightarrow> Inl e | Inr choices \<Rightarrow>
     (case json_first (json_or choices (JList [JDict []])) of Inl e \<Rightarrow> Inl e | Inr choice \<Rightarrow>
     (case json_get choice ''message'' (JDict []) of Inl e \<Rightarrow> Inl e | Inr message \<Rightarrow>
      json_get message ''content'' (JStr []))))"

definition read_answer :: "py_error + json \<Rightarrow> real \<Rightarrow> py_error + worker_report" where
  \<comment> \<open>what \<open>aexecute\<close> takes from the body of a successful response\<close>
  "read_answer parsed elapsed =
     (case parsed of Inl e \<Rightarrow> Inl e | Inr body \<Rightarrow>
     (case answer_text body of Inl e \<Rightarrow> Inl e | Inr txt \<Rightarrow>
     (case json_get body ''usage'' (JDict []) of Inl e \<Rightarrow> Inl e | Inr usage \<Rightarrow>
      Inr \<lparr>wr_usage = json_or usage (JDict []), wr_elapsed_ms = elapsed, wr_ttft_ms = elapsed, wr_text = txt\<rparr>)))"

definition aexecute ::
  "'h http_client \<Rightarrow> (nat \<Rightarrow> real) \<Rightarrow> json list \<Rightarrow> int \<Rightarrow> int \<Rightarrow> 'h vllm_backend
   \<Rightarrow> (py_error + worker_report) \<times> 'h vllm_backend" where
  \<comment> \<open>up to the call of \<open>_result\<close>; \<open>elapsed k\<close> is the stopwatch of attempt \<open>k\<close>\<close>
  "aexecute api elapsed messages max_tokens rid b =
     (case try_workers api (payload b messages max_tokens False) 0 (fallbacks b rid) b [] of
        (Inl e, b', slept) \<Rightarrow> (Inl e, b')
      | (Inr (attempt, resp), b', slept) \<Rightarrow> (read_answer (resp_json resp) (elapsed attempt), b'))"

subsection \<open>Reading a stream\<close>

text \<open>
  \<open>astream\<close> reads server-sent events. \<open>loads\<close> is the JSON parser (\<open>None\<close> for a
  \<open>JSONDecodeError\<close>), \<open>watch k\<close> the stopwatch when the chunk after the first \<open>k\<close> arrives. The
  lines may end because the connection was closed, or broke with an exception.
\<close>

record stream_state =
  ss_usage :: json
  ss_ttft :: real
  ss_chunks :: "json list"

definition delta_content :: "json \<Rightarrow> py_error + json" where
  \<comment> \<open>the content of a chunk, a false value when there is none\<close>
  "delta_content chunk =
     (case json_get chunk ''choices'' JNull of Inl e \<Rightarrow> Inl e | Inr cs \<Rightarrow>
      (let choices = json_or cs (JList [])
       in if \<not> json_truth choices then Inr JNull
          else case json_first choices of Inl e \<Rightarrow> Inl e | Inr choice \<Rightarrow>
               (case json_get choice ''delta'' JNull of Inl e \<Rightarrow> Inl e | Inr d \<Rightarrow>
                json_get (json_or d (JDict [])) ''content'' JNull)))"

definition read_chunk :: "(nat \<Rightarrow> real) \<Rightarrow> json \<Rightarrow> stream_state \<Rightarrow> (py_error + unit) \<times> stream_state" where
  "read_chunk watch chunk st =
     (case json_get chunk ''usage'' JNull of
        Inl e \<Rightarrow> (Inl e, st)
      | Inr u \<Rightarrow>
          (let st1 = (if json_truth u then st\<lparr>ss_usage := u\<rparr> else st)
           in case delta_content chunk of
                Inl e \<Rightarrow> (Inl e, st1)
              | Inr delta \<Rightarrow>
                  if \<not> json_truth delta then (Inr (), st1)
                  else (Inr (), st1\<lparr>ss_ttft := (if ss_ttft st1 = 0 then watch (length (ss_chunks st1)) else ss_ttft st1),
                                    ss_chunks := ss_chunks st1 @ [delta]\<rparr>)))"

fun read_lines ::
  "(string \<Rightarrow> json option) \<Rightarrow> (nat \<Rightarrow> real) \<Rightarrow> string list \<Rightarrow> py_error option \<Rightarrow> stream_state
   \<Rightarrow> (py_error + unit) \<times> stream_state" where
  "read_lines loads watch [] broken st =
     ((case broken of None \<Rightarrow> Inr () | Some e \<Rightarrow> Inl e), st)"
| "read_lines loads watch (line # rest) broken st =
     (if take 6 line \<noteq> ''data: '' then read_lines loads watch rest broken st
      else let blob = strip (drop 6 line)
           in if blob = ''[DONE]'' then (Inr (), st)
              else case loads blob of
                     None \<Rightarrow> read_lines loads watch rest broken st
                   | Some chunk \<Rightarrow>
                       (case read_chunk watch chunk st of
                          (Inl e, st1) \<Rightarrow> (Inl e, st1)
                        | (Inr _, st1) \<Rightarrow> read_lines loads watch rest broken st1))"

fun join_text :: "json list \<Rightarrow> py_error + string" where
  "join_text [] = Inr []"
| "join_text (JStr s # xs) = (case join_text xs of Inl e \<Rightarrow> Inl e | Inr t \<Rightarrow> Inr (s @ t))"
| "join_text (_ # xs) = Inl TypeError"

definition astream ::
  "(string \<Rightarrow> json option) \<Rightarrow> (nat \<Rightarrow> real) \<Rightarrow> real \<Rightarrow> string list \<Rightarrow> py_error option
   \<Rightarrow> json list \<times> (py_error + worker_report)" where
  \<comment> \<open>the chunks it yields, then its report or the exception that ends it\<close>
  "astream loads watch elapsed lines broken =
     (let (ended, st) = read_lines loads watch lines broken
            \<lparr>ss_usage = JDict [], ss_ttft = 0, ss_chunks = []\<rparr>
      in (ss_chunks st,
          case ended of Inl e \<Rightarrow> Inl e | Inr _ \<Rightarrow>
          (case join_text (ss_chunks st) of Inl e \<Rightarrow> Inl e | Inr txt \<Rightarrow>
           Inr \<lparr>wr_usage = ss_usage st, wr_elapsed_ms = elapsed,
                wr_ttft_ms = (if ss_ttft st = 0 then elapsed else ss_ttft st), wr_text = JStr txt\<rparr>)))"

subsection \<open>Readiness\<close>

fun probe_all :: "'h http_client \<Rightarrow> string list \<Rightarrow> 'h \<Rightarrow> bool list \<times> 'h" where
  \<comment> \<open>the requests of \<open>gather\<close>, in the order the client issues them\<close>
  "probe_all api [] h = ([], h)"
| "probe_all api (e # es) h =
     (let (res, h1) = http_get api (e @ ''/health'') h;
          ok = (case res of Inl err \<Rightarrow> False | Inr status \<Rightarrow> status = 200);
          (oks, h2) = probe_all api es h1
      in (ok # oks, h2))"

definition aprobe :: "'h http_client \<Rightarrow> 'h vllm_backend \<Rightarrow> bool \<times> 'h vllm_backend" where
  "aprobe api b =
     (let (oks, h) = probe_all api (endpoints b) (http b)
      in (\<exists>ok \<in> set oks. ok, b\<lparr>http := h\<rparr>))"

subsection \<open>The adapter keeps the interface\<close>

interpretation vllm: serving_backend "vllm_result w" for w
proof
  fix r r' :: replica and res :: request_result and sid :: string and pt ot :: int and now ret :: real
  assume "vllm_result w r sid pt ot now ret = Inr (res, r')"
  then obtain n t where "store sid n t ret r = Inr r'" "rr_session_id res = sid" "rr_replica_id res = rep_id r"
    by (auto simp: vllm_result_def split: sum.splits prod.splits)
  with frame_of_store show "hw r' = hw r \<and> policy r' = policy r \<and> rep_id r' = rep_id r \<and>
      pending r' = pending r \<and> active r' = active r \<and> peak_active r' = peak_active r \<and>
      rr_session_id res = sid \<and> rr_replica_id res = rep_id r"
    by (fastforce simp: frame_of_def load_of_def)
qed

subsection \<open>Failover\<close>

lemma fallbacks_set:
  assumes "0 \<le> rid" "rid < int (length (endpoints b))" "0 \<le> max_retries b"
  shows "fallbacks b rid \<noteq> []" "hd (fallbacks b rid) = rid" "distinct (fallbacks b rid)"
    "set (fallbacks b rid) \<subseteq> {0..<int (length (endpoints b))}"
    "length (fallbacks b rid) = min (1 + nat (max_retries b)) (length (endpoints b))"
proof -
  let ?rest = "filter (\<lambda>i. i \<noteq> rid) (map int [0..<length (endpoints b)])"
  have f: "fallbacks b rid = rid # take (nat (max_retries b)) ?rest"
    using assms(3) by (simp add: fallbacks_def take_slice_def nat_add_distrib)
  have d: "distinct (map int [0..<length (endpoints b)])" by (simp add: distinct_map)
  have "set (filter (\<lambda>i. i \<noteq> rid) (map int [0..<length (endpoints b)])) = {0..<int (length (endpoints b))} - {rid}"
    by (auto simp: image_int_atLeastLessThan)
  moreover have "card ({0..<int (length (endpoints b))} - {rid}) = length (endpoints b) - 1"
    using assms(1,2) by simp
  ultimately have "length ?rest = length (endpoints b) - 1"
    using distinct_card [of ?rest] d by (metis distinct_filter)
  then show "length (fallbacks b rid) = min (1 + nat (max_retries b)) (length (endpoints b))"
    using assms(1,2) by (simp add: f)
  show "fallbacks b rid \<noteq> []" "hd (fallbacks b rid) = rid" by (simp_all add: f)
  show "distinct (fallbacks b rid)" using d by (auto simp: f dest: in_set_takeD)
  show "set (fallbacks b rid) \<subseteq> {0..<int (length (endpoints b))}"
    using assms(1,2) by (auto simp: f dest!: in_set_takeD)
qed

text \<open>Which workers answer, when what a worker does to this request does not change meanwhile.\<close>

definition steady :: "'h http_client \<Rightarrow> json \<Rightarrow> (string \<Rightarrow> http_response option) \<Rightarrow> bool" where
  "steady api body answer \<longleftrightarrow>
     (\<forall>url h. case answer url of
        None \<Rightarrow> (\<exists>e. fst (http_post api url body h) = Inl e) \<or>
                (\<exists>resp. fst (http_post api url body h) = Inr resp \<and> \<not> resp_ok resp)
      | Some resp \<Rightarrow> resp_ok resp \<and> fst (http_post api url body h) = Inr resp)"

definition down :: "(string \<Rightarrow> http_response option) \<Rightarrow> 'h vllm_backend \<Rightarrow> int \<Rightarrow> bool" where
  "down answer b target \<longleftrightarrow> answer (worker_url b target) = None"

fun first_live :: "(int \<Rightarrow> http_response option) \<Rightarrow> nat \<Rightarrow> int list \<Rightarrow> py_error + nat \<times> http_response" where
  "first_live ans attempt [] = Inl RuntimeError"
| "first_live ans attempt (t # ts) =
     (case ans t of None \<Rightarrow> first_live ans (attempt + 1) ts | Some resp \<Rightarrow> Inr (attempt, resp))"

lemma try_workers_first_live:
  assumes st: "steady api body answer"
  shows "\<exists>b' slept'. try_workers api body attempt targets b slept =
      (first_live (\<lambda>t. answer (worker_url b t)) attempt targets, b', slept') \<and>
    failovers b' = failovers b +
      (case first_live (\<lambda>t. answer (worker_url b t)) attempt targets of
         Inl e \<Rightarrow> 0 | Inr (k, resp) \<Rightarrow> if k = 0 then 0 else 1)"
proof (induction targets arbitrary: attempt b slept)
  case Nil
  show ?case by simp
next
  case (Cons t ts)
  obtain res h where post: "http_post api (worker_url b t) body (http b) = (res, h)" by fastforce
  note st' = st [unfolded steady_def, rule_format, of "worker_url b t" "http b"]
  show ?case
  proof (cases "answer (worker_url b t)")
    case None
    with st' post have step: "try_workers api body attempt (t # ts) b slept =
        try_workers api body (attempt + 1) ts (b\<lparr>http := h\<rparr>) (slept @ [backoff_s attempt])"
      by auto
    have "worker_url (b\<lparr>http := h\<rparr>) = worker_url b" by (simp add: worker_url_def fun_eq_iff)
    then show ?thesis
      using Cons.IH [of "attempt + 1" "b\<lparr>http := h\<rparr>" "slept @ [backoff_s attempt]"] None
      unfolding step by simp
  next
    case (Some resp)
    with st' post have "res = Inr resp" "resp_ok resp" by simp_all
    with Some post show ?thesis by simp
  qed
qed

lemma first_live_all_down: "\<forall>t \<in> set ts. ans t = None \<Longrightarrow> first_live ans attempt ts = Inl RuntimeError"
  by (induction ts arbitrary: attempt) auto

lemma first_live_at:
  "k < length ts \<Longrightarrow> ans (ts ! k) = Some resp \<Longrightarrow> \<forall>j < k. ans (ts ! j) = None \<Longrightarrow>
     first_live ans attempt ts = Inr (attempt + k, resp)"
proof (induction ts arbitrary: k attempt)
  case (Cons t ts)
  show ?case
  proof (cases k)
    case 0
    with Cons.prems show ?thesis by simp
  next
    case (Suc m)
    then have "\<forall>j < m. ans (ts ! j) = None" "ans t = None" using Cons.prems(3) by force+
    with Cons.IH [of m "attempt + 1"] Cons.prems Suc show ?thesis by simp
  qed
qed simp

subsection \<open>What a stream stands for\<close>

definition data_blobs :: "string list \<Rightarrow> string list" where
  "data_blobs lines = [strip (drop 6 l). l \<leftarrow> lines, take 6 l = ''data: '']"

definition stream_chunks :: "(string \<Rightarrow> json option) \<Rightarrow> string list \<Rightarrow> json list" where
  \<comment> \<open>the data lines before the end marker that are valid JSON\<close>
  "stream_chunks loads lines = List.map_filter loads (takeWhile (\<lambda>b. b \<noteq> ''[DONE]'') (data_blobs lines))"

definition good_chunk :: "json \<Rightarrow> bool" where
  \<comment> \<open>an object whose content, when it has one, is a string\<close>
  "good_chunk c \<longleftrightarrow> (case c of JDict d \<Rightarrow> True | _ \<Rightarrow> False) \<and>
     (case delta_content c of Inl e \<Rightarrow> False
      | Inr v \<Rightarrow> json_truth v \<longrightarrow> (case v of JStr s \<Rightarrow> True | _ \<Rightarrow> False))"

definition chunk_text :: "json \<Rightarrow> string" where
  "chunk_text c = (case delta_content c of Inr (JStr s) \<Rightarrow> s | _ \<Rightarrow> [])"

definition chunk_usage :: "json \<Rightarrow> json \<Rightarrow> json" where
  "chunk_usage u c = (case json_get c ''usage'' JNull of Inr v \<Rightarrow> json_or v u | Inl e \<Rightarrow> u)"

lemma read_chunk_good:
  assumes "good_chunk c"
  shows "\<exists>st'. read_chunk watch c st = (Inr (), st') \<and>
    ss_chunks st' = ss_chunks st @ (if chunk_text c = [] then [] else [JStr (chunk_text c)]) \<and>
    ss_usage st' = chunk_usage (ss_usage st) c"
proof -
  obtain d where c: "c = JDict d" using assms by (auto simp: good_chunk_def split: json.splits)
  obtain v where v: "delta_content c = Inr v" using assms by (auto simp: good_chunk_def split: sum.splits)
  show ?thesis
  proof (cases "json_truth v")
    case True
    with assms v obtain t where "v = JStr t" "t \<noteq> []" by (auto simp: good_chunk_def split: json.splits)
    with c v show ?thesis by (simp add: read_chunk_def chunk_text_def chunk_usage_def json_or_def Let_def)
  next
    case False
    with v have "chunk_text c = []" by (auto simp: chunk_text_def split: json.splits)
    with c v False show ?thesis by (simp add: read_chunk_def chunk_usage_def json_or_def Let_def)
  qed
qed

lemma read_lines_good:
  "\<forall>c \<in> set (stream_chunks loads lines). good_chunk c \<Longrightarrow>
   \<exists>st'. read_lines loads watch lines broken st =
      (if ''[DONE]'' \<in> set (data_blobs lines) then Inr () else case broken of None \<Rightarrow> Inr () | Some e \<Rightarrow> Inl e, st') \<and>
     ss_chunks st' = ss_chunks st @ map JStr (filter (\<lambda>t. t \<noteq> []) (map chunk_text (stream_chunks loads lines))) \<and>
     ss_usage st' = foldl chunk_usage (ss_usage st) (stream_chunks loads lines)"
proof (induction lines arbitrary: st)
  case Nil
  show ?case by (simp add: data_blobs_def stream_chunks_def map_filter_simps)
next
  case (Cons l lines)
  let ?blob = "strip (drop 6 l)"
  consider "take 6 l \<noteq> ''data: ''" | "take 6 l = ''data: ''" "?blob = ''[DONE]''"
    | "take 6 l = ''data: ''" "?blob \<noteq> ''[DONE]''" "loads ?blob = None"
    | c where "take 6 l = ''data: ''" "?blob \<noteq> ''[DONE]''" "loads ?blob = Some c" by blast
  then show ?case
  proof cases
    case (4 c)
    then have chunks: "stream_chunks loads (l # lines) = c # stream_chunks loads lines"
      and blobs: "data_blobs (l # lines) = ?blob # data_blobs lines"
      by (simp_all add: data_blobs_def stream_chunks_def map_filter_simps)
    with Cons.prems have good: "good_chunk c" by simp
    obtain st1 where st1: "read_chunk watch c st = (Inr (), st1)"
      "ss_chunks st1 = ss_chunks st @ (if chunk_text c = [] then [] else [JStr (chunk_text c)])"
      "ss_usage st1 = chunk_usage (ss_usage st) c"
      using read_chunk_good [OF good] by blast
    have "read_lines loads watch (l # lines) broken st = read_lines loads watch lines broken st1"
      using 4 st1(1) by simp
    then show ?thesis
      using Cons.IH [of st1] Cons.prems 4(2) st1(2,3) by (auto simp: chunks blobs)
  qed (use Cons in \<open>auto simp: data_blobs_def stream_chunks_def map_filter_simps\<close>)
qed

lemma join_text_strings: "join_text (map JStr ts) = Inr (concat ts)"
  by (induction ts) simp_all

lemma concat_nonempty: "concat (filter (\<lambda>t. t \<noteq> []) ts) = concat ts"
  by (induction ts) auto

lemma astream_good:
  assumes "\<forall>c \<in> set (stream_chunks loads lines). good_chunk c"
  shows "\<exists>ttft. astream loads watch elapsed lines broken =
    (map JStr (filter (\<lambda>t. t \<noteq> []) (map chunk_text (stream_chunks loads lines))),
     if broken \<noteq> None \<and> ''[DONE]'' \<notin> set (data_blobs lines) then Inl (the broken)
     else Inr \<lparr>wr_usage = foldl chunk_usage (JDict []) (stream_chunks loads lines), wr_elapsed_ms = elapsed,
               wr_ttft_ms = ttft, wr_text = JStr (concat (map chunk_text (stream_chunks loads lines)))\<rparr>)"
proof -
  let ?st = "\<lparr>ss_usage = JDict [], ss_ttft = 0, ss_chunks = []\<rparr>"
  obtain st' where "read_lines loads watch lines broken ?st =
      (if ''[DONE]'' \<in> set (data_blobs lines) then Inr () else case broken of None \<Rightarrow> Inr () | Some e \<Rightarrow> Inl e, st')"
    "ss_chunks st' = map JStr (filter (\<lambda>t. t \<noteq> []) (map chunk_text (stream_chunks loads lines)))"
    "ss_usage st' = foldl chunk_usage (JDict []) (stream_chunks loads lines)"
    using read_lines_good [OF assms, of watch broken ?st] by auto
  then show ?thesis
    by (cases broken)
      (simp_all add: astream_def Let_def join_text_strings concat_nonempty del: map_map)
qed

lemma read_lines_ttft:
  "read_lines loads (\<lambda>k. x) lines broken st = (res, st') \<Longrightarrow> ss_ttft st \<in> {0, x} \<Longrightarrow> ss_ttft st' \<in> {0, x}"
proof (induction lines arbitrary: st)
  case (Cons l lines)
  have "read_chunk (\<lambda>k. x) c st = (r, st1) \<Longrightarrow> ss_ttft st1 \<in> {0, x}" for c r st1
    using Cons.prems(2) by (auto simp: read_chunk_def Let_def split: sum.splits if_splits)
  then show ?case using Cons
    by (auto simp: Let_def split: if_splits option.splits prod.splits sum.splits)
qed (auto split: option.splits)

lemma astream_ttft:
  "astream loads (\<lambda>k. elapsed) elapsed lines broken = (cs, Inr w) \<Longrightarrow> wr_ttft_ms w = elapsed \<and> wr_elapsed_ms w = elapsed"
  using read_lines_ttft [of loads elapsed lines broken "\<lparr>ss_usage = JDict [], ss_ttft = 0, ss_chunks = []\<rparr>"]
  by (auto simp: astream_def Let_def split: prod.splits sum.splits)

text \<open>A stream with a comment, two chunks, a malformed line, the end marker and a line after it.\<close>

definition example_chunk :: json where
  "example_chunk = JDict [(''choices'', JList [JDict [(''delta'', JDict [(''content'', JStr ''hi'')])]])]"

definition example_loads :: "string \<Rightarrow> json option" where
  "example_loads b = (if b = ''1'' then Some example_chunk else None)"

definition example_lines :: "string list" where
  "example_lines = ['': keep-alive'', ''data: 1'', ''data: ?'', ''data: 1'', ''data: [DONE]'', ''data: 1'']"

lemma example_stream [simp]:
  "data_blobs example_lines = [''1'', ''?'', ''1'', ''[DONE]'', ''1'']"
  "stream_chunks example_loads example_lines = [example_chunk, example_chunk]"
  "chunk_text example_chunk = ''hi''" "good_chunk example_chunk"
proof -
  show blobs: "data_blobs example_lines = [''1'', ''?'', ''1'', ''[DONE]'', ''1'']" by code_simp
  show "stream_chunks example_loads example_lines = [example_chunk, example_chunk]"
    by (simp add: stream_chunks_def blobs map_filter_simps example_loads_def)
  have c: "delta_content example_chunk = Inr (JStr ''hi'')"
    by (simp add: delta_content_def json_first_def example_chunk_def)
  then show "chunk_text example_chunk = ''hi''" "good_chunk example_chunk"
    by (simp_all add: chunk_text_def good_chunk_def) (simp add: example_chunk_def)
qed

subsection \<open>Properties\<close>

text \<open>
  C18: Failover reaches the first worker that answers. With steady workers, a call tries the
  scheduled worker first and each other worker at most once, within one plus the retry budget;
  it is answered by the first of them that is up, it fails only when all of them are down, and
  the failover counter grows by one exactly when a worker other than the scheduled one answered.
\<close>

theorem failover_reaches_the_first_live_worker:
  assumes rid: "0 \<le> rid" "rid < int (length (endpoints b))" and retries: "0 \<le> max_retries b"
    and steady: "steady api (payload b messages n False) answer"
  shows "hd (fallbacks b rid) = rid \<and> distinct (fallbacks b rid) \<and>
    set (fallbacks b rid) \<subseteq> {0..<int (length (endpoints b))} \<and>
    length (fallbacks b rid) = min (1 + nat (max_retries b)) (length (endpoints b)) \<and>
    (\<exists>b'. ((\<forall>t \<in> set (fallbacks b rid). down answer b t) \<longrightarrow>
         aexecute api elapsed messages n rid b = (Inl RuntimeError, b') \<and> failovers b' = failovers b) \<and>
       (\<forall>k < length (fallbacks b rid).
          \<not> down answer b (fallbacks b rid ! k) \<longrightarrow> (\<forall>j < k. down answer b (fallbacks b rid ! j)) \<longrightarrow>
          aexecute api elapsed messages n rid b =
            (read_answer (resp_json (the (answer (worker_url b (fallbacks b rid ! k))))) (elapsed k), b') \<and>
          failovers b' = failovers b + (if k = 0 then 0 else 1)))"
proof -
  let ?order = "fallbacks b rid" and ?ans = "\<lambda>t. answer (worker_url b t)"
  obtain b' slept where run: "try_workers api (payload b messages n False) 0 ?order b [] =
      (first_live ?ans 0 ?order, b', slept)"
    and count: "failovers b' = failovers b +
      (case first_live ?ans 0 ?order of Inl e \<Rightarrow> 0 | Inr (k, resp) \<Rightarrow> if k = 0 then 0 else 1)"
    using try_workers_first_live [OF steady, of 0 ?order b "[]"] by blast
  have "aexecute api elapsed messages n rid b = (Inl RuntimeError, b') \<and> failovers b' = failovers b"
    if "\<forall>t \<in> set ?order. down answer b t"
    using run count first_live_all_down [of ?order ?ans 0] that by (simp add: aexecute_def down_def)
  moreover have "aexecute api elapsed messages n rid b =
        (read_answer (resp_json (the (?ans (?order ! k)))) (elapsed k), b') \<and>
      failovers b' = failovers b + (if k = 0 then 0 else 1)"
    if "k < length ?order" "\<not> down answer b (?order ! k)" "\<forall>j < k. down answer b (?order ! j)" for k
    using run count first_live_at [of k ?order ?ans _ 0] that by (auto simp: aexecute_def down_def)
  ultimately show ?thesis
    using fallbacks_set [OF rid retries] by blast
qed

text \<open>A client whose first worker refuses connections and whose second answers.\<close>

definition example_answer :: http_response where
  "example_answer = \<lparr>resp_ok = True, resp_json = Inr (JDict [(''usage'', JDict [(''prompt_tokens'', JInt 12)])])\<rparr>"

definition example_http :: "unit http_client" where
  "example_http =
     \<lparr>http_post = (\<lambda>url body h. (if url = ''b/v1/chat/completions'' then Inr example_answer else Inl RuntimeError, h)),
      http_get = (\<lambda>url h. (Inr 200, h))\<rparr>"

definition example_vllm :: "unit vllm_backend" where
  "example_vllm = \<lparr>endpoints = [''a'', ''b'', ''c''], model_name = ''m'', max_retries = 2, failovers = 0, http = ()\<rparr>"

lemma failover_reaches_the_first_live_worker_witness:
  "\<exists>b'. aexecute example_http (\<lambda>k. 5) [] 64 0 example_vllm =
      (read_answer (resp_json example_answer) 5, b') \<and> failovers b' = 1"
proof -
  let ?answer = "\<lambda>url. if url = ''b/v1/chat/completions'' then Some example_answer else None"
  have order: "fallbacks example_vllm 0 = [0, 1, 2]"
    by (simp add: fallbacks_def take_slice_def example_vllm_def upt_rec numeral_2_eq_2)
  have url: "worker_url example_vllm 0 = ''a/v1/chat/completions''"
    "worker_url example_vllm 1 = ''b/v1/chat/completions''" by (simp_all add: worker_url_def example_vllm_def)
  have "steady example_http (payload example_vllm [] 64 False) ?answer"
    by (simp add: steady_def example_http_def example_answer_def)
  from failover_reaches_the_first_live_worker [OF _ _ _ this, of 0 "\<lambda>k. 5"]
  obtain b' where "\<forall>k < 3. \<not> down ?answer example_vllm ([0, 1, 2] ! k) \<longrightarrow>
      (\<forall>j < k. down ?answer example_vllm ([0, 1, 2] ! j)) \<longrightarrow>
      aexecute example_http (\<lambda>k. 5) [] 64 0 example_vllm =
        (read_answer (resp_json (the (?answer (worker_url example_vllm ([0, 1, 2] ! k))))) 5, b') \<and>
      failovers b' = failovers example_vllm + (if k = 0 then 0 else 1)"
    unfolding order by (auto simp: example_vllm_def numeral_3_eq_3)
  from this [rule_format, of 1] show ?thesis
    by (auto simp: down_def url example_vllm_def [THEN arg_cong [of _ _ failovers]])
qed

text \<open>
  C26: A stream is read faithfully. When the worker's data lines are objects whose content is
  text, the adapter yields exactly the non-empty pieces of content in order, ignores every line
  that is not data, is not JSON or comes after the end marker, and finishes with their
  concatenation as the text and the last usage it was sent; a connection that breaks before the
  end marker yields the same pieces and then fails.
\<close>

theorem stream_is_read_faithfully:
  assumes "\<forall>c \<in> set (stream_chunks loads lines). good_chunk c"
  shows "\<exists>ttft. astream loads watch elapsed lines broken =
    (map JStr (filter (\<lambda>t. t \<noteq> []) (map chunk_text (stream_chunks loads lines))),
     if broken \<noteq> None \<and> ''[DONE]'' \<notin> set (data_blobs lines) then Inl (the broken)
     else Inr \<lparr>wr_usage = foldl chunk_usage (JDict []) (stream_chunks loads lines), wr_elapsed_ms = elapsed,
               wr_ttft_ms = ttft, wr_text = JStr (concat (map chunk_text (stream_chunks loads lines)))\<rparr>)"
  using assms by (rule astream_good)

lemma stream_is_read_faithfully_witness:
  "\<exists>ttft. astream example_loads (\<lambda>k. 3) 9 example_lines None =
    ([JStr ''hi'', JStr ''hi''],
     Inr \<lparr>wr_usage = JDict [], wr_elapsed_ms = 9, wr_ttft_ms = ttft, wr_text = JStr ''hihi''\<rparr>)"
  using stream_is_read_faithfully [of example_loads example_lines "\<lambda>k. 3" 9 None]
  by (simp add: chunk_usage_def) (simp add: example_chunk_def)

definition counted :: "int option \<Rightarrow> int \<Rightarrow> int" where
  "counted n estimate = (case n of None \<Rightarrow> estimate | Some k \<Rightarrow> if k = 0 then estimate else k)"

text \<open>
  C28: The worker's own usage drives the accounting. For a report whose counts are integers, a
  missing or zero prompt or completion count is replaced by the gateway's estimate; the reused
  tokens are the worker's cached ones, the call counts as a GPU hit exactly when there are some,
  reused and recomputed add up to the prompt unless more was reported cached than sent, and the
  replica keeps its invariant.
\<close>

theorem worker_usage_drives_the_accounting:
  assumes r: "wf_replica r" "code_policy (policy r)"
    and usage: "wr_usage w = JDict d" "map_of d ''prompt_tokens'' = map_option JInt p"
      "map_of d ''completion_tokens'' = map_option JInt c"
      "map_of d ''prompt_tokens_details'' = map_option (\<lambda>k. JDict [(''cached_tokens'', JInt k)]) k"
    and nonneg: "0 \<le> counted p pt" "0 \<le> counted c ot"
  shows "\<exists>res r'. vllm_result w r sid pt ot now ret = Inr (res, r') \<and> wf_replica r' \<and>
    gpu_tokens r' \<le> gpu_cache_tokens (hw r') \<and> reused_tokens res = counted k 0 \<and>
    (rr_tier res = GPU \<longleftrightarrow> 0 < counted k 0) \<and> completion_tokens res = counted c ot \<and>
    computed_tokens res = max 0 (counted p pt - reused_tokens res) \<and>
    (wr_ttft_ms w \<le> wr_elapsed_ms w \<longrightarrow> latency_ms res = wr_elapsed_ms w)"
proof -
  have "usage_counts (wr_usage w) pt ot = Inr (counted k 0, counted p pt, counted c ot)"
    using usage by (cases p; cases c; cases k) (simp_all add: usage_counts_def int_field_def counted_def)
  moreover have "0 \<le> counted p pt + counted c ot" using nonneg by simp
  then obtain r' where "store sid (counted p pt + counted c ot) (now + wr_elapsed_ms w) ret r = Inr r'"
    "wf_replica r'" "gpu_tokens r' \<le> gpu_cache_tokens (hw r')"
    using store_wf [OF r] by blast
  ultimately show ?thesis by (simp add: vllm_result_def latency_ms_def)
qed

lemma worker_usage_drives_the_accounting_witness:
  "\<exists>res r'. vllm_result \<lparr>wr_usage = JDict [(''prompt_tokens'', JInt 900),
        (''prompt_tokens_details'', JDict [(''cached_tokens'', JInt 700)])],
      wr_elapsed_ms = 50, wr_ttft_ms = 20, wr_text = JStr ''ok''\<rparr>
      (example_replica lru_policy) ''c'' 880 64 100 300 = Inr (res, r') \<and>
    wf_replica r' \<and> reused_tokens res = 700 \<and> rr_tier res = GPU \<and> completion_tokens res = 64 \<and>
    computed_tokens res = 200 \<and> latency_ms res = 50"
  using worker_usage_drives_the_accounting [of "example_replica lru_policy"
      "\<lparr>wr_usage = JDict [(''prompt_tokens'', JInt 900),
        (''prompt_tokens_details'', JDict [(''cached_tokens'', JInt 700)])],
      wr_elapsed_ms = 50, wr_ttft_ms = 20, wr_text = JStr ''ok''\<rparr>" _ "Some 900" None "Some 700" 880 64 "''c''" 100 300]
  by (auto simp: counted_def)

end
