(* ===== verification/Tokenizer.thy ===== *)
theory Tokenizer
  imports PyJson
begin

section \<open>Prompt length measurement\<close>

text \<open>
  \<open>agentserve/tokenizer.py\<close>. The encoder is \<open>tiktoken\<close>'s, a library: a function from a text to
  the length of its encoding, absent when the package is missing or the encoding is unknown.
\<close>

type_synonym encoder = "string \<Rightarrow> nat"

record tokenizer =
  tk_name :: string
  tk_encoder :: "encoder option"

definition new_tokenizer :: "(string \<Rightarrow> py_error + encoder) option \<Rightarrow> string \<Rightarrow> tokenizer" where
  \<comment> \<open>the first argument is \<open>tiktoken.get_encoding\<close>, when the package can be imported\<close>
  "new_tokenizer tiktoken encoding =
     (case tiktoken of
        None \<Rightarrow> \<lparr>tk_name = ''heuristic'', tk_encoder = None\<rparr>
      | Some get \<Rightarrow>
          (case get encoding of
             Inl e \<Rightarrow> \<lparr>tk_name = ''heuristic'', tk_encoder = None\<rparr>
           | Inr enc \<Rightarrow> \<lparr>tk_name = encoding, tk_encoder = Some enc\<rparr>))"

definition count_text :: "tokenizer \<Rightarrow> string \<Rightarrow> int" where
  "count_text tk s =
     (case tk_encoder tk of
        Some enc \<Rightarrow> int (enc s)
      | None \<Rightarrow> max 1 (int (length s div 4)))"

definition count_part :: "tokenizer \<Rightarrow> json \<Rightarrow> int" where
  "count_part tk part =
     (case part of
        JDict d \<Rightarrow> (case map_of d ''text'' of Some (JStr s) \<Rightarrow> count_text tk s | _ \<Rightarrow> 0)
      | _ \<Rightarrow> 0)"

definition count_value :: "tokenizer \<Rightarrow> json \<Rightarrow> int" where
  "count_value tk v =
     (case v of
        JStr s \<Rightarrow> count_text tk s
      | JList parts \<Rightarrow> sum_list (map (count_part tk) parts)
      | _ \<Rightarrow> 0)"

fun count_from :: "tokenizer \<Rightarrow> int \<Rightarrow> json list \<Rightarrow> py_error + int" where
  \<comment> \<open>the loop over the messages, with the total so far\<close>
  "count_from tk acc [] = Inr acc"
| "count_from tk acc (m # ms) =
     (case json_values m of
        Inl e \<Rightarrow> Inl e
      | Inr vs \<Rightarrow> count_from tk (acc + 4 + sum_list (map (count_value tk) vs)) ms)"

definition count_messages :: "tokenizer \<Rightarrow> json list \<Rightarrow> py_error + int" where
  "count_messages tk ms =
     (case count_from tk 0 ms of Inl e \<Rightarrow> Inl e | Inr acc \<Rightarrow> Inr (max 1 acc))"

subsection \<open>The count as a sum over the messages\<close>

fun message_tokens :: "tokenizer \<Rightarrow> json \<Rightarrow> int" where
  "message_tokens tk (JDict d) = 4 + sum_list (map (count_value tk) (map snd d))"
| "message_tokens tk _ = 0"

definition is_object :: "json \<Rightarrow> bool" where
  "is_object x \<longleftrightarrow> (case x of JDict d \<Rightarrow> True | _ \<Rightarrow> False)"

lemma is_object_iff [simp]: "is_object x \<longleftrightarrow> (\<exists>d. x = JDict d)"
  by (simp add: is_object_def split: json.split)

lemma count_text_nonneg [simp]: "0 \<le> count_text tk s"
  by (cases "tk_encoder tk") (simp_all add: count_text_def)

lemma count_part_nonneg [simp]: "0 \<le> count_part tk p"
  by (simp add: count_part_def split: json.split option.split)

lemma count_value_nonneg [simp]: "0 \<le> count_value tk v"
  by (auto simp: count_value_def intro!: sum_list_nonneg split: json.split)

lemma message_tokens_four: "is_object m \<Longrightarrow> 4 \<le> message_tokens tk m"
  by (auto intro!: sum_list_nonneg)

lemma message_tokens_nonneg [simp]: "0 \<le> message_tokens tk m"
  by (cases m) (auto intro!: add_nonneg_nonneg sum_list_nonneg)

lemma count_from_sum:
  "count_from tk acc ms =
     (if \<forall>m \<in> set ms. is_object m then Inr (acc + sum_list (map (message_tokens tk) ms))
      else Inl AttributeError)"
proof (induction ms arbitrary: acc)
  case (Cons m ms)
  then show ?case by (cases m) (simp_all add: json_values_def algebra_simps)
qed simp

lemma messages_at_least_four:
  "\<forall>m \<in> set ms. is_object m \<Longrightarrow> 4 * int (length ms) \<le> sum_list (map (message_tokens tk) ms)"
proof (induction ms)
  case (Cons m ms)
  then have "4 \<le> message_tokens tk m" by (intro message_tokens_four) simp
  with Cons show ?case by simp
qed simp

lemma count_messages_sum:
  assumes "ms \<noteq> []"
  shows "count_messages tk ms =
    (if \<forall>m \<in> set ms. is_object m then Inr (sum_list (map (message_tokens tk) ms)) else Inl AttributeError)"
  using messages_at_least_four [of ms tk] assms
  by (cases ms) (auto simp: count_messages_def count_from_sum)

subsection \<open>Properties\<close>

text \<open>
  The measured length of a conversation is additive and grows with every message. Counting a
  non-empty conversation and a non-empty continuation apart gives exactly the count of the two
  together, so no turn can be measured shorter than the history it contains; each message counts
  at least its framing of four tokens, and the count fails only when a message is not an object.
\<close>

theorem conversation_count_is_additive:
  assumes "old \<noteq> []" and "new \<noteq> []"
  shows "(\<exists>a b. count_messages tk old = Inr a \<and> count_messages tk new = Inr b \<and>
      count_messages tk (old @ new) = Inr (a + b) \<and>
      4 * int (length old) \<le> a \<and> 4 * int (length new) \<le> b) \<or>
    (count_messages tk (old @ new) = Inl AttributeError \<and> (\<exists>m \<in> set (old @ new). \<not> is_object m))"
proof (cases "\<forall>m \<in> set (old @ new). is_object m")
  case True
  then have "\<forall>m \<in> set old. is_object m" "\<forall>m \<in> set new. is_object m" by auto
  then show ?thesis
    using assms messages_at_least_four [of old tk] messages_at_least_four [of new tk] True
    by (intro disjI1) (simp add: count_messages_sum del: is_object_iff)
next
  case False
  then have "\<exists>m \<in> set (old @ new). \<not> is_object m" by blast
  moreover from False assms have "count_messages tk (old @ new) = Inl AttributeError"
    by (simp add: count_messages_sum del: is_object_iff)
  ultimately show ?thesis by blast
qed

definition user_message :: "string \<Rightarrow> json" where
  "user_message s = JDict [(''role'', JStr ''user''), (''content'', JStr s)]"

lemma conversation_count_is_additive_witness:
  "\<exists>a b. count_messages (new_tokenizer None ''cl100k_base'') [user_message ''hello there''] = Inr a \<and>
     count_messages (new_tokenizer None ''cl100k_base'') [user_message ''go on''] = Inr b \<and>
     count_messages (new_tokenizer None ''cl100k_base'') [user_message ''hello there'', user_message ''go on''] =
       Inr (a + b)"
  using conversation_count_is_additive [of "[user_message ''hello there'']" "[user_message ''go on'']"
      "new_tokenizer None ''cl100k_base''"]
  by (auto simp: user_message_def)

end
