(* ===== verification/Settings.thy ===== *)
theory Settings
  imports Models
begin

section \<open>Environment configuration\<close>

text \<open>
  \<open>agentserve/settings.py\<close>. The environment is a map from names to strings. Numbers are parsed by
  Python's \<open>int\<close> and \<open>float\<close>, so a float here is a \<open>pyfloat\<close>: it may be an infinity or NaN.
  \<open>load_settings\<close> returns the settings or the \<open>ConfigError\<close> it raises, which carries the variable
  the message names. \<open>finite_cluster\<close> is the cluster configuration the rest of the development is
  about, when every float that was read is a finite number.
\<close>

type_synonym env = "string \<Rightarrow> string option"

datatype config_error =
    NotANumber string string
  | NotPositive string
  | BadChoice string string
  | MissingEndpoints string
  | AlphaRange string
  | ThresholdOrder string

subsection \<open>Reading one variable\<close>

definition blank :: "string option \<Rightarrow> bool" where
  "blank raw = (case raw of None \<Rightarrow> True | Some s \<Rightarrow> strip s = [])"

definition num_int :: "env \<Rightarrow> string \<Rightarrow> int \<Rightarrow> config_error + int" where
  \<comment> \<open>\<open>_num\<close> with \<open>cast=int\<close>\<close>
  "num_int env name dflt =
     (case env name of
        None \<Rightarrow> Inr dflt
      | Some raw \<Rightarrow>
          if strip raw = [] then Inr dflt
          else case py_int raw of
                 None \<Rightarrow> Inl (NotANumber name raw)
               | Some v \<Rightarrow> if v \<le> 0 then Inl (NotPositive name) else Inr v)"

definition num_float :: "env \<Rightarrow> string \<Rightarrow> real \<Rightarrow> config_error + pyfloat" where
  \<comment> \<open>\<open>_num\<close> with \<open>cast=float\<close>\<close>
  "num_float env name dflt =
     (case env name of
        None \<Rightarrow> Inr (Finite dflt)
      | Some raw \<Rightarrow>
          if strip raw = [] then Inr (Finite dflt)
          else case py_float raw of
                 None \<Rightarrow> Inl (NotANumber name raw)
               | Some v \<Rightarrow> if float_le v (Finite 0) then Inl (NotPositive name) else Inr v)"

definition flag :: "env \<Rightarrow> string \<Rightarrow> bool \<Rightarrow> bool" where
  "flag env name dflt =
     (case env name of
        None \<Rightarrow> dflt
      | Some raw \<Rightarrow> lower (strip raw) \<in> {''1'', ''true'', ''yes'', ''on''})"

definition csv :: "env \<Rightarrow> string \<Rightarrow> string list" where
  "csv env name =
     (let raw = (case env name of None \<Rightarrow> [] | Some s \<Rightarrow> s)
      in [rstrip_comma (strip part). part \<leftarrow> split_comma raw, rstrip_comma (strip part) \<noteq> []])"

definition env_choice :: "env \<Rightarrow> string \<Rightarrow> string \<Rightarrow> string" where
  \<comment> \<open>\<open>os.environ.get(name, default).strip().lower()\<close>\<close>
  "env_choice env name dflt = lower (strip (case env name of None \<Rightarrow> dflt | Some s \<Rightarrow> s))"

definition env_text :: "env \<Rightarrow> string \<Rightarrow> string \<Rightarrow> string" where
  "env_text env name dflt = (case env name of None \<Rightarrow> dflt | Some s \<Rightarrow> s)"

definition env_optional :: "env \<Rightarrow> string \<Rightarrow> string option" where
  \<comment> \<open>\<open>os.environ.get(name) or None\<close>\<close>
  "env_optional env name = (case env name of None \<Rightarrow> None | Some s \<Rightarrow> if s = [] then None else Some s)"

subsection \<open>The settings\<close>

record env_policy =
  ep_pin :: pyfloat
  ep_offload :: pyfloat
  ep_dead :: pyfloat
  ep_queue_limit :: int

record env_predictor =
  en_alpha :: pyfloat
  en_prior :: pyfloat
  en_min_obs :: int

record env_cluster =
  ec_replicas :: int
  ec_hardware :: hardware_profile
  ec_policy :: env_policy
  ec_predictor :: env_predictor

record settings =
  set_backend :: string
  set_router :: string
  set_policy :: string
  vllm_endpoints :: "string list"
  vllm_model :: string
  vllm_timeout_s :: pyfloat
  vllm_max_retries :: int
  redis_url :: "string option"
  session_ttl_s :: pyfloat
  set_max_sessions :: int
  api_key :: "string option"
  set_tokenizer :: string
  set_cluster :: env_cluster

definition multi_pod_safe :: "settings \<Rightarrow> bool" where
  "multi_pod_safe s \<longleftrightarrow> redis_url s \<noteq> None"

definition load_hardware :: "env \<Rightarrow> config_error + hardware_profile" where
  "load_hardware env =
     (case num_int env ''AGENTSERVE_GPU_CACHE_TOKENS'' 150000 of Inl e \<Rightarrow> Inl e | Inr g \<Rightarrow>
     (case num_int env ''AGENTSERVE_DRAM_CACHE_TOKENS'' 1400000 of Inl e \<Rightarrow> Inl e | Inr d \<Rightarrow>
      Inr (default_hardware\<lparr>gpu_cache_tokens := g, dram_cache_tokens := d\<rparr>)))"

definition load_policy :: "env \<Rightarrow> config_error + env_policy" where
  "load_policy env =
     (case num_float env ''AGENTSERVE_PIN_THRESHOLD_MS'' 2000 of Inl e \<Rightarrow> Inl e | Inr p \<Rightarrow>
     (case num_float env ''AGENTSERVE_OFFLOAD_THRESHOLD_MS'' 300000 of Inl e \<Rightarrow> Inl e | Inr f \<Rightarrow>
     (case num_float env ''AGENTSERVE_DEAD_SESSION_MS'' 600000 of Inl e \<Rightarrow> Inl e | Inr d \<Rightarrow>
     (case num_int env ''AGENTSERVE_AFFINITY_QUEUE_LIMIT'' 6 of Inl e \<Rightarrow> Inl e | Inr q \<Rightarrow>
      Inr \<lparr>ep_pin = p, ep_offload = f, ep_dead = d, ep_queue_limit = q\<rparr>))))"

definition load_predictor :: "env \<Rightarrow> config_error + env_predictor" where
  "load_predictor env =
     (case num_float env ''AGENTSERVE_EWMA_ALPHA'' (3 / 10) of Inl e \<Rightarrow> Inl e | Inr a \<Rightarrow>
     (case num_float env ''AGENTSERVE_PREDICTOR_PRIOR_MS'' 5000 of Inl e \<Rightarrow> Inl e | Inr p \<Rightarrow>
     (case num_int env ''AGENTSERVE_PREDICTOR_MIN_OBS'' 2 of Inl e \<Rightarrow> Inl e | Inr m \<Rightarrow>
      Inr \<lparr>en_alpha = a, en_prior = p, en_min_obs = m\<rparr>)))"

definition load_cluster :: "env \<Rightarrow> string \<Rightarrow> string list \<Rightarrow> config_error + env_cluster" where
  \<comment> \<open>the cluster configuration, with the two checks that span variables\<close>
  "load_cluster env backend endpoints =
     (case (if backend = ''vllm'' then Inr (int (length endpoints))
            else num_int env ''AGENTSERVE_REPLICAS'' 4) of Inl e \<Rightarrow> Inl e | Inr n \<Rightarrow>
     (case load_hardware env of Inl e \<Rightarrow> Inl e | Inr h \<Rightarrow>
     (case load_policy env of Inl e \<Rightarrow> Inl e | Inr p \<Rightarrow>
     (case load_predictor env of Inl e \<Rightarrow> Inl e | Inr q \<Rightarrow>
      (if \<not> (float_less (Finite 0) (en_alpha q) \<and> float_le (en_alpha q) (Finite 1))
       then Inl (AlphaRange ''AGENTSERVE_EWMA_ALPHA'')
       else if float_le (ep_offload p) (ep_pin p)
       then Inl (ThresholdOrder ''AGENTSERVE_PIN_THRESHOLD_MS'')
       else Inr \<lparr>ec_replicas = n, ec_hardware = h, ec_policy = p, ec_predictor = q\<rparr>)))))"

definition load_settings :: "env \<Rightarrow> config_error + settings" where
  "load_settings env =
     (let backend = env_choice env ''AGENTSERVE_BACKEND'' ''simulated'';
          router = env_choice env ''AGENTSERVE_ROUTER'' ''affinity'';
          policy = env_choice env ''AGENTSERVE_POLICY'' ''adaptive'';
          endpoints = csv env ''AGENTSERVE_VLLM_ENDPOINTS''
      in if router \<notin> {''affinity'', ''round-robin''} then Inl (BadChoice ''AGENTSERVE_ROUTER'' router)
         else if policy \<notin> {''adaptive'', ''lru''} then Inl (BadChoice ''AGENTSERVE_POLICY'' policy)
         else if backend \<notin> {''simulated'', ''vllm''} then Inl (BadChoice ''AGENTSERVE_BACKEND'' backend)
         else if backend = ''vllm'' \<and> endpoints = [] then Inl (MissingEndpoints ''AGENTSERVE_VLLM_ENDPOINTS'')
         else
           (case load_cluster env backend endpoints of Inl e \<Rightarrow> Inl e | Inr c \<Rightarrow>
           (case num_float env ''AGENTSERVE_VLLM_TIMEOUT_S'' 300 of Inl e \<Rightarrow> Inl e | Inr timeout \<Rightarrow>
           (case num_int env ''AGENTSERVE_VLLM_MAX_RETRIES'' 2 of Inl e \<Rightarrow> Inl e | Inr retries \<Rightarrow>
           (case num_float env ''AGENTSERVE_SESSION_TTL_S'' 3600 of Inl e \<Rightarrow> Inl e | Inr ttl \<Rightarrow>
           (case num_int env ''AGENTSERVE_MAX_SESSIONS'' 100000 of Inl e \<Rightarrow> Inl e | Inr m \<Rightarrow>
            Inr \<lparr>set_backend = backend, set_router = router, set_policy = policy,
                 vllm_endpoints = endpoints,
                 vllm_model = env_text env ''AGENTSERVE_VLLM_MODEL'' ''mistralai/Mistral-7B-Instruct-v0.3'',
                 vllm_timeout_s = timeout, vllm_max_retries = retries,
                 redis_url = env_optional env ''AGENTSERVE_REDIS_URL'', session_ttl_s = ttl,
                 set_max_sessions = m, api_key = env_optional env ''AGENTSERVE_API_KEY'',
                 set_tokenizer = env_text env ''AGENTSERVE_TOKENIZER'' ''cl100k_base'',
                 set_cluster = c\<rparr>))))))"

subsection \<open>From the floats that were read to real numbers\<close>

fun finite_value :: "pyfloat \<Rightarrow> real option" where
  "finite_value (Finite x) = Some x"
| "finite_value _ = None"

definition finite_cluster :: "env_cluster \<Rightarrow> cluster_config option" where
  "finite_cluster c =
     (case (finite_value (ep_pin (ec_policy c)), finite_value (ep_offload (ec_policy c)),
            finite_value (ep_dead (ec_policy c)), finite_value (en_alpha (ec_predictor c)),
            finite_value (en_prior (ec_predictor c))) of
        (Some p, Some f, Some d, Some a, Some q) \<Rightarrow>
          Some \<lparr>cc_replicas = ec_replicas c, hardware = ec_hardware c,
                cc_policy = \<lparr>pin_threshold_ms = p, offload_threshold_ms = f, dead_session_ms = d,
                            affinity_queue_limit = ep_queue_limit (ec_policy c)\<rparr>,
                cc_predictor = \<lparr>ewma_alpha = a, prior_ms = q, min_observations = en_min_obs (ec_predictor c)\<rparr>\<rparr>
      | _ \<Rightarrow> None)"

subsection \<open>What was read\<close>

definition read_int :: "env \<Rightarrow> string \<Rightarrow> int \<Rightarrow> int \<Rightarrow> bool" where
  \<comment> \<open>\<open>v\<close> is the positive number in the variable, or its default when that is unset or blank\<close>
  "read_int env name dflt v \<longleftrightarrow>
     (if blank (env name) then v = dflt else py_int (the (env name)) = Some v \<and> 0 < v)"

definition read_float :: "env \<Rightarrow> string \<Rightarrow> real \<Rightarrow> pyfloat \<Rightarrow> bool" where
  "read_float env name dflt v \<longleftrightarrow>
     (if blank (env name) then v = Finite dflt
      else py_float (the (env name)) = Some v \<and> \<not> float_le v (Finite 0))"

lemma num_int_Inr: "num_int env name dflt = Inr v \<longleftrightarrow> read_int env name dflt v"
  by (auto simp: num_int_def read_int_def blank_def split: option.splits)

lemma num_float_Inr: "num_float env name dflt = Inr v \<longleftrightarrow> read_float env name dflt v"
  by (auto simp: num_float_def read_float_def blank_def split: option.splits)

lemmas num_Inr = num_int_Inr num_float_Inr

lemma read_int_pos: "read_int env name dflt v \<Longrightarrow> 0 < dflt \<Longrightarrow> 0 < v"
  by (auto simp: read_int_def split: if_splits)

lemma read_float_pos: "read_float env name dflt (Finite v) \<Longrightarrow> 0 < dflt \<Longrightarrow> 0 < v"
  by (auto simp: read_float_def split: if_splits)

lemma load_hardware_Inr:
  "load_hardware env = Inr h \<longleftrightarrow>
     read_int env ''AGENTSERVE_GPU_CACHE_TOKENS'' 150000 (gpu_cache_tokens h) \<and>
     read_int env ''AGENTSERVE_DRAM_CACHE_TOKENS'' 1400000 (dram_cache_tokens h) \<and>
     h = default_hardware\<lparr>gpu_cache_tokens := gpu_cache_tokens h, dram_cache_tokens := dram_cache_tokens h\<rparr>"
  by (auto simp: load_hardware_def sum_cases_Inr num_Inr) (metis surjective)

lemma load_policy_Inr:
  "load_policy env = Inr p \<longleftrightarrow>
     read_float env ''AGENTSERVE_PIN_THRESHOLD_MS'' 2000 (ep_pin p) \<and>
     read_float env ''AGENTSERVE_OFFLOAD_THRESHOLD_MS'' 300000 (ep_offload p) \<and>
     read_float env ''AGENTSERVE_DEAD_SESSION_MS'' 600000 (ep_dead p) \<and>
     read_int env ''AGENTSERVE_AFFINITY_QUEUE_LIMIT'' 6 (ep_queue_limit p)"
  by (cases p) (auto simp: load_policy_def sum_cases_Inr num_Inr)

lemma load_predictor_Inr:
  "load_predictor env = Inr q \<longleftrightarrow>
     read_float env ''AGENTSERVE_EWMA_ALPHA'' (3 / 10) (en_alpha q) \<and>
     read_float env ''AGENTSERVE_PREDICTOR_PRIOR_MS'' 5000 (en_prior q) \<and>
     read_int env ''AGENTSERVE_PREDICTOR_MIN_OBS'' 2 (en_min_obs q)"
  by (cases q) (auto simp: load_predictor_def sum_cases_Inr num_Inr)

lemma if_Inl_Inr: "(if b then Inl e else x) = Inr y \<longleftrightarrow> \<not> b \<and> x = Inr y"
  by simp

lemma load_cluster_Inr:
  "load_cluster env backend endpoints = Inr c \<longleftrightarrow>
     (if backend = ''vllm'' then ec_replicas c = int (length endpoints)
      else read_int env ''AGENTSERVE_REPLICAS'' 4 (ec_replicas c)) \<and>
     load_hardware env = Inr (ec_hardware c) \<and> load_policy env = Inr (ec_policy c) \<and>
     load_predictor env = Inr (ec_predictor c) \<and>
     float_less (Finite 0) (en_alpha (ec_predictor c)) \<and> float_le (en_alpha (ec_predictor c)) (Finite 1) \<and>
     \<not> float_le (ep_offload (ec_policy c)) (ep_pin (ec_policy c))"
  by (cases c) (auto simp: load_cluster_def sum_cases_Inr if_Inl_Inr num_Inr)

lemma load_settings_Inr:
  "load_settings env = Inr s \<longleftrightarrow>
     set_backend s = env_choice env ''AGENTSERVE_BACKEND'' ''simulated'' \<and>
     set_router s = env_choice env ''AGENTSERVE_ROUTER'' ''affinity'' \<and>
     set_policy s = env_choice env ''AGENTSERVE_POLICY'' ''adaptive'' \<and>
     vllm_endpoints s = csv env ''AGENTSERVE_VLLM_ENDPOINTS'' \<and>
     vllm_model s = env_text env ''AGENTSERVE_VLLM_MODEL'' ''mistralai/Mistral-7B-Instruct-v0.3'' \<and>
     redis_url s = env_optional env ''AGENTSERVE_REDIS_URL'' \<and>
     api_key s = env_optional env ''AGENTSERVE_API_KEY'' \<and>
     set_tokenizer s = env_text env ''AGENTSERVE_TOKENIZER'' ''cl100k_base'' \<and>
     set_router s \<in> {''affinity'', ''round-robin''} \<and> set_policy s \<in> {''adaptive'', ''lru''} \<and>
     set_backend s \<in> {''simulated'', ''vllm''} \<and>
     (set_backend s = ''vllm'' \<longrightarrow> vllm_endpoints s \<noteq> []) \<and>
     load_cluster env (set_backend s) (vllm_endpoints s) = Inr (set_cluster s) \<and>
     read_float env ''AGENTSERVE_VLLM_TIMEOUT_S'' 300 (vllm_timeout_s s) \<and>
     read_int env ''AGENTSERVE_VLLM_MAX_RETRIES'' 2 (vllm_max_retries s) \<and>
     read_float env ''AGENTSERVE_SESSION_TTL_S'' 3600 (session_ttl_s s) \<and>
     read_int env ''AGENTSERVE_MAX_SESSIONS'' 100000 (set_max_sessions s)"
  unfolding load_settings_def Let_def if_Inl_Inr sum_cases_Inr num_Inr
  by (cases s) auto

subsection \<open>Endpoint lists\<close>

lemma split_comma_nonempty [simp]: "split_comma s \<noteq> []"
  by (induction s rule: split_comma.induct) auto

lemma split_comma_parts: "part \<in> set (split_comma s) \<Longrightarrow> CHR '','' \<notin> set part"
proof (induction s arbitrary: part rule: split_comma.induct)
  case (2 c cs)
  then show ?case by (cases "split_comma cs") (auto split: if_splits)
qed simp

lemma set_strip: "set (strip s) \<subseteq> set s"
  by (auto simp: strip_def strip_by_def dest!: set_dropWhileD)

lemma strip_ends: "strip s \<noteq> [] \<Longrightarrow> \<not> is_space (hd (strip s)) \<and> \<not> is_space (last (strip s))"
proof -
  let ?u = "rev (dropWhile is_space s)"
  assume ne: "strip s \<noteq> []"
  then have d: "dropWhile is_space ?u \<noteq> []" by (simp add: strip_def strip_by_def)
  then have "\<not> is_space (hd (dropWhile is_space ?u))" by (rule hd_dropWhile)
  moreover have "last (dropWhile is_space ?u) = last ?u"
    using d by (metis append_Nil2 last_appendR takeWhile_dropWhile_id)
  moreover have "last ?u = hd (dropWhile is_space s)"
    using d by (auto simp: last_rev)
  moreover have "\<not> is_space (hd (dropWhile is_space s))"
    using d by (intro hd_dropWhile) (auto dest: set_dropWhileD)
  ultimately show ?thesis using d by (simp add: strip_def strip_by_def last_rev hd_rev)
qed

lemma rstrip_comma_id: "CHR '','' \<notin> set s \<Longrightarrow> rstrip_comma s = s"
  by (cases s rule: rev_cases) (auto simp: rstrip_comma_def)

lemma csv_parts:
  assumes "e \<in> set (csv env name)"
  shows "e \<noteq> [] \<and> CHR '','' \<notin> set e \<and> \<not> is_space (hd e) \<and> \<not> is_space (last e)"
proof -
  let ?raw = "case env name of None \<Rightarrow> [] | Some s \<Rightarrow> s"
  obtain part where part: "part \<in> set (split_comma ?raw)" "e = rstrip_comma (strip part)" "e \<noteq> []"
    using assms unfolding csv_def Let_def by auto
  have "CHR '','' \<notin> set (strip part)" using split_comma_parts [OF part(1)] set_strip by blast
  then have "e = strip part" by (simp add: part(2) rstrip_comma_id)
  with part(3) strip_ends [of part] \<open>CHR '','' \<notin> set (strip part)\<close> show ?thesis by simp
qed

subsection \<open>Properties\<close>

lemma finite_value_Some: "finite_value x = Some r \<longleftrightarrow> x = Finite r"
  by (cases x) auto

lemma finite_cluster_wf:
  assumes c: "load_cluster env backend endpoints = Inr c" and n: "0 < ec_replicas c"
    and fin: "finite_cluster c = Some r"
  shows "wf_cluster_config r"
proof -
  note c = c [unfolded load_cluster_Inr load_hardware_Inr load_policy_Inr load_predictor_Inr]
  obtain p f d a q where fl: "ep_pin (ec_policy c) = Finite p" "ep_offload (ec_policy c) = Finite f"
      "ep_dead (ec_policy c) = Finite d" "en_alpha (ec_predictor c) = Finite a" "en_prior (ec_predictor c) = Finite q"
    and r: "r = \<lparr>cc_replicas = ec_replicas c, hardware = ec_hardware c,
        cc_policy = \<lparr>pin_threshold_ms = p, offload_threshold_ms = f, dead_session_ms = d,
                    affinity_queue_limit = ep_queue_limit (ec_policy c)\<rparr>,
        cc_predictor = \<lparr>ewma_alpha = a, prior_ms = q, min_observations = en_min_obs (ec_predictor c)\<rparr>\<rparr>"
    using fin by (auto simp: finite_cluster_def finite_value_Some split: option.splits)
  have pos: "0 < p" "0 < d" "0 < q" using c fl read_float_pos by fastforce+
  have ints: "0 < gpu_cache_tokens (ec_hardware c)" "0 < dram_cache_tokens (ec_hardware c)"
    "0 < ep_queue_limit (ec_policy c)" "0 < en_min_obs (ec_predictor c)" using c read_int_pos by fastforce+
  have hw: "ec_hardware c = default_hardware\<lparr>gpu_cache_tokens := gpu_cache_tokens (ec_hardware c),
      dram_cache_tokens := dram_cache_tokens (ec_hardware c)\<rparr>" using c by blast
  have "wf_hardware (ec_hardware c)"
    by (subst hw) (use ints in \<open>simp add: wf_hardware_def default_hardware_def\<close>)
  moreover have "p < f" "0 < a" "a \<le> 1" using c by (simp_all add: fl)
  ultimately show ?thesis
    using n pos ints
    by (simp add: r wf_cluster_config_def wf_policy_config_def wf_predictor_config_def)
qed

lemma load_settings_sound:
  assumes "load_settings env = Inr s"
  shows "0 < ec_replicas (set_cluster s)"
    and "set_backend s = ''vllm'' \<longrightarrow> ec_replicas (set_cluster s) = int (length (vllm_endpoints s))"
    and "0 < vllm_max_retries s" and "0 < set_max_sessions s"
    and "finite_cluster (set_cluster s) = Some c \<Longrightarrow> wf_cluster_config c"
proof -
  note s = assms [unfolded load_settings_Inr]
  show n: "0 < ec_replicas (set_cluster s)"
    using s read_int_pos [of env "''AGENTSERVE_REPLICAS''" 4 "ec_replicas (set_cluster s)"]
    by (cases "set_backend s = ''vllm''") (auto simp: load_cluster_Inr)
  show "wf_cluster_config c" if "finite_cluster (set_cluster s) = Some c"
    using s n that finite_cluster_wf by blast
  show "0 < vllm_max_retries s" "0 < set_max_sessions s"
    using s read_int_pos by force+
  show "set_backend s = ''vllm'' \<longrightarrow> ec_replicas (set_cluster s) = int (length (vllm_endpoints s))"
    using s by (simp add: load_cluster_Inr)
qed

text \<open>The check \<open>value <= 0\<close> rejects neither NaN nor an infinity.\<close>

definition passes_positive :: "pyfloat \<Rightarrow> bool" where
  "passes_positive v \<longleftrightarrow> v = NaN \<or> v = PosInf \<or> (\<exists>x. v = Finite x \<and> 0 < x)"

lemma passes_positive_iff: "passes_positive v \<longleftrightarrow> \<not> float_le v (Finite 0)"
  by (cases v) (auto simp: passes_positive_def)

lemma read_float_passes: "read_float env name dflt v \<Longrightarrow> 0 < dflt \<Longrightarrow> passes_positive v"
  by (auto simp: read_float_def passes_positive_iff split: if_splits)

text \<open>
  C30: What settings that pass startup satisfy. The router, policy and backend are known ones, there
  is at least one replica and exactly one per endpoint when the backend is vLLM, the endpoints
  are trimmed, non-empty and free of commas, counts are positive, the smoothing factor is a number
  above 0 and at most 1, and every other float, the session lifetime and the worker timeout included, is a
  positive number, an infinity or NaN. When the thresholds and the prior are numbers, neither
  infinite nor NaN, the cluster configuration satisfies everything the other components assume; the
  check at startup does not guarantee that they are, and it accepts a session lifetime below
  the second that Redis needs.
\<close>

theorem accepted_settings_are_sound:
  assumes "load_settings env = Inr s"
  shows "set_router s \<in> {''affinity'', ''round-robin''} \<and> set_policy s \<in> {''adaptive'', ''lru''} \<and>
    set_backend s \<in> {''simulated'', ''vllm''} \<and> 0 < ec_replicas (set_cluster s) \<and>
    (set_backend s = ''vllm'' \<longrightarrow> ec_replicas (set_cluster s) = int (length (vllm_endpoints s))) \<and>
    (\<forall>e \<in> set (vllm_endpoints s). e \<noteq> [] \<and> CHR '','' \<notin> set e \<and> \<not> is_space (hd e) \<and> \<not> is_space (last e)) \<and>
    0 < vllm_max_retries s \<and> 0 < set_max_sessions s \<and>
    (\<exists>alpha. en_alpha (ec_predictor (set_cluster s)) = Finite alpha \<and> 0 < alpha \<and> alpha \<le> 1) \<and>
    passes_positive (session_ttl_s s) \<and> passes_positive (vllm_timeout_s s) \<and>
    passes_positive (ep_pin (ec_policy (set_cluster s))) \<and> passes_positive (ep_offload (ec_policy (set_cluster s))) \<and>
    passes_positive (ep_dead (ec_policy (set_cluster s))) \<and> passes_positive (en_prior (ec_predictor (set_cluster s))) \<and>
    \<not> float_le (ep_offload (ec_policy (set_cluster s))) (ep_pin (ec_policy (set_cluster s))) \<and>
    (\<forall>c. finite_cluster (set_cluster s) = Some c \<longrightarrow> wf_cluster_config c)"
proof -
  note s = assms [unfolded load_settings_Inr]
  note parts = s [unfolded load_cluster_Inr load_policy_Inr load_predictor_Inr]
  have "\<forall>e \<in> set (vllm_endpoints s).
      e \<noteq> [] \<and> CHR '','' \<notin> set e \<and> \<not> is_space (hd e) \<and> \<not> is_space (last e)"
    using s csv_parts by auto
  moreover have "\<exists>alpha. en_alpha (ec_predictor (set_cluster s)) = Finite alpha \<and> 0 < alpha \<and> alpha \<le> 1"
    using parts by (cases "en_alpha (ec_predictor (set_cluster s))") simp_all
  moreover have "passes_positive (session_ttl_s s)" "passes_positive (vllm_timeout_s s)"
    "passes_positive (ep_pin (ec_policy (set_cluster s)))" "passes_positive (ep_offload (ec_policy (set_cluster s)))"
    "passes_positive (ep_dead (ec_policy (set_cluster s)))" "passes_positive (en_prior (ec_predictor (set_cluster s)))"
    using parts by (blast intro: read_float_passes zero_less_numeral)+
  moreover have "\<not> float_le (ep_offload (ec_policy (set_cluster s))) (ep_pin (ec_policy (set_cluster s)))"
    using parts by blast
  ultimately show ?thesis using s load_settings_sound [OF assms] by blast
qed

definition numeric_variables :: "string list" where
  "numeric_variables =
     [''AGENTSERVE_REPLICAS'', ''AGENTSERVE_GPU_CACHE_TOKENS'', ''AGENTSERVE_DRAM_CACHE_TOKENS'',
      ''AGENTSERVE_PIN_THRESHOLD_MS'', ''AGENTSERVE_OFFLOAD_THRESHOLD_MS'',
      ''AGENTSERVE_DEAD_SESSION_MS'', ''AGENTSERVE_AFFINITY_QUEUE_LIMIT'', ''AGENTSERVE_EWMA_ALPHA'',
      ''AGENTSERVE_PREDICTOR_PRIOR_MS'', ''AGENTSERVE_PREDICTOR_MIN_OBS'', ''AGENTSERVE_VLLM_TIMEOUT_S'',
      ''AGENTSERVE_VLLM_MAX_RETRIES'', ''AGENTSERVE_SESSION_TTL_S'', ''AGENTSERVE_MAX_SESSIONS'']"

definition default_settings :: settings where
  "default_settings =
     \<lparr>set_backend = ''simulated'', set_router = ''affinity'', set_policy = ''adaptive'', vllm_endpoints = [],
      vllm_model = ''mistralai/Mistral-7B-Instruct-v0.3'', vllm_timeout_s = Finite 300, vllm_max_retries = 2,
      redis_url = None, session_ttl_s = Finite 3600, set_max_sessions = 100000, api_key = None,
      set_tokenizer = ''cl100k_base'',
      set_cluster =
        \<lparr>ec_replicas = 4, ec_hardware = default_hardware,
         ec_policy = \<lparr>ep_pin = Finite 2000, ep_offload = Finite 300000, ep_dead = Finite 600000, ep_queue_limit = 6\<rparr>,
         ec_predictor = \<lparr>en_alpha = Finite (3 / 10), en_prior = Finite 5000, en_min_obs = 2\<rparr>\<rparr>\<rparr>"

lemma finite_default_settings: "finite_cluster (set_cluster default_settings) = Some default_cluster_config"
  by (simp add: default_settings_def finite_cluster_def default_cluster_config_def
      default_policy_config_def default_predictor_config_def)

text \<open>
  The gateway runs with no environment set. When every numeric variable is unset or blank and
  every other variable is unset, loading succeeds with exactly the documented defaults, and the
  cluster is the default configuration.
\<close>

theorem empty_environment_gives_the_defaults:
  assumes num: "\<forall>name \<in> set numeric_variables. blank (env name)"
    and rest: "\<forall>name. name \<notin> set numeric_variables \<longrightarrow> env name = None"
  shows "load_settings env = Inr default_settings \<and>
    finite_cluster (set_cluster default_settings) = Some default_cluster_config"
proof -
  have unset: "env ''AGENTSERVE_BACKEND'' = None" "env ''AGENTSERVE_ROUTER'' = None"
    "env ''AGENTSERVE_POLICY'' = None" "env ''AGENTSERVE_VLLM_ENDPOINTS'' = None"
    "env ''AGENTSERVE_VLLM_MODEL'' = None" "env ''AGENTSERVE_REDIS_URL'' = None"
    "env ''AGENTSERVE_API_KEY'' = None" "env ''AGENTSERVE_TOKENIZER'' = None"
    by (rule rest [rule_format], simp add: numeric_variables_def)+
  have choices: "env_choice env ''AGENTSERVE_BACKEND'' ''simulated'' = ''simulated''"
    "env_choice env ''AGENTSERVE_ROUTER'' ''affinity'' = ''affinity''"
    "env_choice env ''AGENTSERVE_POLICY'' ''adaptive'' = ''adaptive''"
    "csv env ''AGENTSERVE_VLLM_ENDPOINTS'' = []"
    by (simp_all only: env_choice_def csv_def unset option.case) code_simp+
  have "load_settings env = Inr default_settings"
    using num unset
    by (simp add: load_settings_Inr load_cluster_Inr load_hardware_Inr load_policy_Inr load_predictor_Inr
        default_settings_def choices read_int_def read_float_def numeric_variables_def env_text_def
        env_optional_def default_hardware_def)
  then show ?thesis by (simp add: finite_default_settings)
qed

lemma empty_environment_gives_the_defaults_witness:
  "load_settings (\<lambda>name. if name = ''AGENTSERVE_REPLICAS'' then Some '' '' else None) = Inr default_settings \<and>
   finite_cluster (set_cluster default_settings) = Some default_cluster_config"
proof (rule empty_environment_gives_the_defaults)
  have "blank (Some '' '')" "blank None" by code_simp+
  then show "\<forall>name \<in> set numeric_variables.
      blank (if name = ''AGENTSERVE_REPLICAS'' then Some '' '' else None)" by simp
qed (simp add: numeric_variables_def)

lemma load_no_environment: "load_settings (\<lambda>name. None) = Inr default_settings"
proof -
  have "env_choice (\<lambda>name. None) name ''simulated'' = ''simulated''"
    "env_choice (\<lambda>name. None) name ''affinity'' = ''affinity''"
    "env_choice (\<lambda>name. None) name ''adaptive'' = ''adaptive''" "csv (\<lambda>name. None) name = []" for name
    by (simp_all only: env_choice_def csv_def option.case) code_simp+
  then show ?thesis
    by (simp add: load_settings_Inr load_cluster_Inr load_hardware_Inr load_policy_Inr load_predictor_Inr
        default_settings_def read_int_def read_float_def blank_def env_text_def env_optional_def
        default_hardware_def)
qed

lemma accepted_settings_are_sound_witness:
  "0 < ec_replicas (set_cluster default_settings) \<and> wf_cluster_config default_cluster_config"
  using accepted_settings_are_sound [OF load_no_environment] finite_default_settings by blast

text \<open>
  The variable an error names, and what the environment must have held for it to be raised. The
  replica count is read unless the backend is vLLM.
\<close>

definition int_variables :: "env \<Rightarrow> string list" where
  "int_variables env =
     [''AGENTSERVE_GPU_CACHE_TOKENS'', ''AGENTSERVE_DRAM_CACHE_TOKENS'', ''AGENTSERVE_AFFINITY_QUEUE_LIMIT'',
      ''AGENTSERVE_PREDICTOR_MIN_OBS'', ''AGENTSERVE_VLLM_MAX_RETRIES'', ''AGENTSERVE_MAX_SESSIONS''] @
     (if env_choice env ''AGENTSERVE_BACKEND'' ''simulated'' = ''vllm'' then [] else [''AGENTSERVE_REPLICAS''])"

definition float_variables :: "string list" where
  "float_variables =
     [''AGENTSERVE_PIN_THRESHOLD_MS'', ''AGENTSERVE_OFFLOAD_THRESHOLD_MS'', ''AGENTSERVE_DEAD_SESSION_MS'',
      ''AGENTSERVE_EWMA_ALPHA'', ''AGENTSERVE_PREDICTOR_PRIOR_MS'', ''AGENTSERVE_VLLM_TIMEOUT_S'',
      ''AGENTSERVE_SESSION_TTL_S'']"

definition choice_variables :: "(string \<times> string list) list" where
  "choice_variables =
     [(''AGENTSERVE_ROUTER'', [''affinity'', ''round-robin'']), (''AGENTSERVE_POLICY'', [''adaptive'', ''lru'']),
      (''AGENTSERVE_BACKEND'', [''simulated'', ''vllm''])]"

definition holds :: "env \<Rightarrow> string \<Rightarrow> string \<Rightarrow> bool" where
  "holds env name raw \<longleftrightarrow> env name = Some raw \<and> strip raw \<noteq> []"

fun justified :: "env \<Rightarrow> config_error \<Rightarrow> bool" where
  "justified env (NotANumber name raw) =
     (holds env name raw \<and>
      (name \<in> set (int_variables env) \<and> py_int raw = None \<or> name \<in> set float_variables \<and> py_float raw = None))"
| "justified env (NotPositive name) =
     (\<exists>raw. holds env name raw \<and>
      (name \<in> set (int_variables env) \<and> (\<exists>v. py_int raw = Some v \<and> v \<le> 0) \<or>
       name \<in> set float_variables \<and> (\<exists>v. py_float raw = Some v \<and> float_le v (Finite 0))))"
| "justified env (BadChoice name v) =
     (\<exists>raw allowed. env name = Some raw \<and> v = lower (strip raw) \<and> (name, allowed) \<in> set choice_variables \<and> v \<notin> set allowed)"
| "justified env (MissingEndpoints name) =
     (name = ''AGENTSERVE_VLLM_ENDPOINTS'' \<and> env_choice env ''AGENTSERVE_BACKEND'' ''simulated'' = ''vllm'' \<and> csv env name = [])"
| "justified env (AlphaRange name) =
     (name = ''AGENTSERVE_EWMA_ALPHA'' \<and>
      (\<exists>a. read_float env name (3 / 10) a \<and> \<not> (float_less (Finite 0) a \<and> float_le a (Finite 1))))"
| "justified env (ThresholdOrder name) =
     (name = ''AGENTSERVE_PIN_THRESHOLD_MS'' \<and>
      (\<exists>p f. read_float env name 2000 p \<and> read_float env ''AGENTSERVE_OFFLOAD_THRESHOLD_MS'' 300000 f \<and> float_le f p))"

lemma sum_cases_Inl:
  "(case x of Inl e \<Rightarrow> Inl e | Inr a \<Rightarrow> f a) = Inl e \<longleftrightarrow> x = Inl e \<or> (\<exists>a. x = Inr a \<and> f a = Inl e)"
  by (cases x) auto

lemma if_Inl_Inl: "(if b then Inl e else x) = Inl e' \<longleftrightarrow> b \<and> e = e' \<or> \<not> b \<and> x = Inl e'"
  by auto

lemma num_justified:
  "num_int env name d = Inl e \<Longrightarrow> name \<in> set (int_variables env) \<Longrightarrow> justified env e"
  "num_float env name d' = Inl e \<Longrightarrow> name \<in> set float_variables \<Longrightarrow> justified env e"
  by (auto simp: num_int_def num_float_def holds_def split: option.splits if_splits)

lemma load_parts_justified:
  "load_hardware env = Inl e \<Longrightarrow> justified env e"
  "load_policy env = Inl e \<Longrightarrow> justified env e"
  "load_predictor env = Inl e \<Longrightarrow> justified env e"
  unfolding load_hardware_def load_policy_def load_predictor_def sum_cases_Inl
  by (auto dest!: num_justified simp: int_variables_def float_variables_def)

lemma load_cluster_justified:
  assumes "load_cluster env (env_choice env ''AGENTSERVE_BACKEND'' ''simulated'') endpoints = Inl e"
  shows "justified env e"
proof -
  let ?b = "env_choice env ''AGENTSERVE_BACKEND'' ''simulated''"
  consider "(if ?b = ''vllm'' then Inr (int (length endpoints))
             else num_int env ''AGENTSERVE_REPLICAS'' 4) = Inl e"
    | "load_hardware env = Inl e" | "load_policy env = Inl e" | "load_predictor env = Inl e"
    | q where "load_predictor env = Inr q" "e = AlphaRange ''AGENTSERVE_EWMA_ALPHA''"
        "\<not> (float_less (Finite 0) (en_alpha q) \<and> float_le (en_alpha q) (Finite 1))"
    | p where "load_policy env = Inr p" "e = ThresholdOrder ''AGENTSERVE_PIN_THRESHOLD_MS''"
        "float_le (ep_offload p) (ep_pin p)"
    using assms unfolding load_cluster_def sum_cases_Inl if_Inl_Inl by blast
  then show ?thesis
  proof cases
    case 1
    then show ?thesis by (auto intro: num_justified(1) simp: int_variables_def split: if_splits)
  next
    case (5 q)
    then show ?thesis by (auto simp: load_predictor_Inr)
  next
    case (6 p)
    then show ?thesis by (auto simp: load_policy_Inr)
  qed (rule load_parts_justified, assumption)+
qed

lemma default_choices:
  "lower (strip ''affinity'') = ''affinity''" "lower (strip ''adaptive'') = ''adaptive''" "lower (strip ''simulated'') = ''simulated''"
  by code_simp+

lemma choice_justified:
  assumes "(name, allowed) \<in> set choice_variables" "lower (strip dflt) \<in> set allowed" "env_choice env name dflt \<notin> set allowed"
  shows "justified env (BadChoice name (env_choice env name dflt))"
  using assms by (auto simp: env_choice_def split: option.splits)

lemma load_settings_justified:
  assumes "load_settings env = Inl e"
  shows "justified env e"
proof -
  let ?b = "env_choice env ''AGENTSERVE_BACKEND'' ''simulated''"
  let ?r = "env_choice env ''AGENTSERVE_ROUTER'' ''affinity''"
  let ?p = "env_choice env ''AGENTSERVE_POLICY'' ''adaptive''"
  have names: "''AGENTSERVE_VLLM_TIMEOUT_S'' \<in> set float_variables" "''AGENTSERVE_SESSION_TTL_S'' \<in> set float_variables"
    "''AGENTSERVE_VLLM_MAX_RETRIES'' \<in> set (int_variables env)" "''AGENTSERVE_MAX_SESSIONS'' \<in> set (int_variables env)"
    by (simp_all add: int_variables_def float_variables_def)
  show ?thesis
  proof (cases "?r \<in> {''affinity'', ''round-robin''} \<and> ?p \<in> {''adaptive'', ''lru''} \<and>
      ?b \<in> {''simulated'', ''vllm''} \<and> \<not> (?b = ''vllm'' \<and> csv env ''AGENTSERVE_VLLM_ENDPOINTS'' = [])")
    case True
    then have "load_cluster env ?b (csv env ''AGENTSERVE_VLLM_ENDPOINTS'') = Inl e \<or>
        num_float env ''AGENTSERVE_VLLM_TIMEOUT_S'' 300 = Inl e \<or>
        num_int env ''AGENTSERVE_VLLM_MAX_RETRIES'' 2 = Inl e \<or>
        num_float env ''AGENTSERVE_SESSION_TTL_S'' 3600 = Inl e \<or>
        num_int env ''AGENTSERVE_MAX_SESSIONS'' 100000 = Inl e"
      using assms unfolding load_settings_def Let_def by (auto split: sum.splits)
    then show ?thesis using load_cluster_justified num_justified names by blast
  next
    case False
    have choices: "(''AGENTSERVE_ROUTER'', [''affinity'', ''round-robin'']) \<in> set choice_variables"
      "(''AGENTSERVE_POLICY'', [''adaptive'', ''lru'']) \<in> set choice_variables"
      "(''AGENTSERVE_BACKEND'', [''simulated'', ''vllm'']) \<in> set choice_variables"
      by (simp_all add: choice_variables_def)
    from False consider "e = BadChoice ''AGENTSERVE_ROUTER'' ?r" "?r \<notin> set [''affinity'', ''round-robin'']"
      | "e = BadChoice ''AGENTSERVE_POLICY'' ?p" "?p \<notin> set [''adaptive'', ''lru'']"
      | "e = BadChoice ''AGENTSERVE_BACKEND'' ?b" "?b \<notin> set [''simulated'', ''vllm'']"
      | "e = MissingEndpoints ''AGENTSERVE_VLLM_ENDPOINTS''" "?b = ''vllm''" "csv env ''AGENTSERVE_VLLM_ENDPOINTS'' = []"
      using assms unfolding load_settings_def Let_def by (auto split: if_splits)
    then show ?thesis
    proof cases
      case 1
      then show ?thesis using choice_justified [OF choices(1) _ 1(2)] by (simp add: default_choices)
    next
      case 2
      then show ?thesis using choice_justified [OF choices(2) _ 2(2)] by (simp add: default_choices)
    next
      case 3
      then show ?thesis using choice_justified [OF choices(3) _ 3(2)] by (simp add: default_choices)
    qed simp
  qed
qed

lemma loaded_reads:
  assumes "load_settings env = Inr s"
  shows "name \<in> set (int_variables env) \<Longrightarrow> \<exists>d v. read_int env name d v"
    and "name \<in> set float_variables \<Longrightarrow> \<exists>d v. read_float env name d v"
  using assms [unfolded load_settings_Inr load_cluster_Inr load_hardware_Inr load_policy_Inr load_predictor_Inr]
  by (auto simp: int_variables_def float_variables_def split: if_splits)

lemma read_unique:
  "read_float env name d v \<Longrightarrow> read_float env name d v' \<Longrightarrow> v = v'"
  by (auto simp: read_float_def split: if_splits)

lemma read_holds:
  "read_int env name d v \<Longrightarrow> holds env name raw \<Longrightarrow> py_int raw = Some v \<and> 0 < v"
  "read_float env name d' v' \<Longrightarrow> holds env name raw \<Longrightarrow> py_float raw = Some v' \<and> \<not> float_le v' (Finite 0)"
  by (auto simp: read_int_def read_float_def blank_def holds_def)

lemma loaded_not_justified:
  assumes s: "load_settings env = Inr s"
  shows "\<not> justified env e"
proof
  note parts = s [unfolded load_settings_Inr load_cluster_Inr load_policy_Inr load_predictor_Inr]
  assume e: "justified env e"
  then show False
  proof (cases e)
    case (NotANumber name raw)
    with e loaded_reads [OF s, of name] read_holds [where env = env and name = name and raw = raw] show ?thesis by fastforce
  next
    case (NotPositive name)
    with e obtain raw where "holds env name raw" "name \<in> set (int_variables env) \<and> (\<exists>v. py_int raw = Some v \<and> v \<le> 0) \<or>
       name \<in> set float_variables \<and> (\<exists>v. py_float raw = Some v \<and> float_le v (Finite 0))" by auto
    with loaded_reads [OF s, of name] read_holds [where env = env and name = name and raw = raw] show ?thesis by fastforce
  next
    case (BadChoice name v)
    with e obtain raw allowed where "env name = Some raw" "v = lower (strip raw)" "(name, allowed) \<in> set choice_variables"
      "v \<notin> set allowed" by auto
    moreover from parts have "set_router s = env_choice env ''AGENTSERVE_ROUTER'' ''affinity''"
      "set_policy s = env_choice env ''AGENTSERVE_POLICY'' ''adaptive''"
      "set_backend s = env_choice env ''AGENTSERVE_BACKEND'' ''simulated''"
      "set_router s \<in> {''affinity'', ''round-robin''}" "set_policy s \<in> {''adaptive'', ''lru''}"
      "set_backend s \<in> {''simulated'', ''vllm''}" by blast+
    ultimately show ?thesis by (auto simp: choice_variables_def env_choice_def)
  next
    case (MissingEndpoints name)
    with e parts show ?thesis by (metis justified.simps(4))
  next
    case (AlphaRange name)
    with e obtain a where "read_float env ''AGENTSERVE_EWMA_ALPHA'' (3 / 10) a" "\<not> (float_less (Finite 0) a \<and> float_le a (Finite 1))"
      by auto
    with parts read_unique show ?thesis by blast
  next
    case (ThresholdOrder name)
    with e obtain p f where "read_float env ''AGENTSERVE_PIN_THRESHOLD_MS'' 2000 p"
      "read_float env ''AGENTSERVE_OFFLOAD_THRESHOLD_MS'' 300000 f" "float_le f p" by auto
    with parts read_unique show ?thesis by metis
  qed
qed

definition usable_int :: "string \<Rightarrow> bool" where
  "usable_int raw \<longleftrightarrow> (\<exists>v. py_int raw = Some v \<and> 0 < v)"

definition accepted_float :: "string \<Rightarrow> bool" where
  "accepted_float raw \<longleftrightarrow> (\<exists>v. py_float raw = Some v \<and> passes_positive v)"

lemma usable_read:
  "read_int env name d v \<Longrightarrow> holds env name raw \<Longrightarrow> usable_int raw"
  "read_float env name d' v' \<Longrightarrow> holds env name raw \<Longrightarrow> accepted_float raw"
  by (auto simp: read_int_def read_float_def blank_def usable_int_def accepted_float_def passes_positive_iff holds_def)

text \<open>
  C31: Loading fails exactly on a bad value, and names it. If it fails, the error is justified: the variable
  it names is one that is read and its content does not parse as the number it has to be, is zero or
  negative, is not one of the allowed words, is an empty endpoint list for the vLLM backend, lies
  outside the range of the smoothing factor, or is a pin threshold not below the offload threshold. If it
  succeeds, no such complaint about the environment would be justified, and every numeric variable that
  is read, set and not blank holds a positive number; for a float, an infinity or NaN is accepted too.
\<close>

theorem bad_values_fail_at_startup:
  "case load_settings env of
     Inl e \<Rightarrow> justified env e
   | Inr s \<Rightarrow>
       (\<forall>e. \<not> justified env e) \<and>
       (\<forall>name raw. holds env name raw \<longrightarrow>
         (name \<in> set (int_variables env) \<longrightarrow> usable_int raw) \<and>
         (name \<in> set float_variables \<longrightarrow> accepted_float raw))"
proof (cases "load_settings env")
  case (Inl e)
  with load_settings_justified show ?thesis by simp
next
  case (Inr s)
  with loaded_not_justified [OF Inr] loaded_reads [OF Inr] usable_read show ?thesis
    by (simp del: justified.simps) blast
qed

lemma bad_values_fail_at_startup_witness:
  "\<exists>e. load_settings (\<lambda>name. if name = ''AGENTSERVE_ROUTER'' then Some ''Random'' else None) = Inl e \<and>
     justified (\<lambda>name. if name = ''AGENTSERVE_ROUTER'' then Some ''Random'' else None) e"
proof -
  let ?env = "\<lambda>name. if name = ''AGENTSERVE_ROUTER'' then Some ''Random'' else None"
  have "lower (strip ''Random'') = ''random''" by code_simp
  then have "justified ?env (BadChoice ''AGENTSERVE_ROUTER'' ''random'')" by (simp add: choice_variables_def)
  with bad_values_fail_at_startup [of ?env] show ?thesis
    by (cases "load_settings ?env") (simp_all del: justified.simps)
qed

text \<open>
  A NaN threshold survives startup. Every comparison with NaN is false, so in any environment
  that loads, setting the pin threshold to \<open>nan\<close> still loads: the threshold becomes NaN and both
  the positivity check and the check that it lies below the offload threshold are passed.
\<close>

theorem nan_threshold_survives_startup:
  assumes "load_settings env = Inr s"
  shows "load_settings (env(''AGENTSERVE_PIN_THRESHOLD_MS'' := Some ''nan'')) =
      Inr (s\<lparr>set_cluster := (set_cluster s)\<lparr>ec_policy := (ec_policy (set_cluster s))\<lparr>ep_pin := NaN\<rparr>\<rparr>\<rparr>) \<and>
    finite_cluster ((set_cluster s)\<lparr>ec_policy := (ec_policy (set_cluster s))\<lparr>ep_pin := NaN\<rparr>\<rparr>) = None"
proof -
  let ?env = "env(''AGENTSERVE_PIN_THRESHOLD_MS'' := Some ''nan'')"
  have nan: "py_float ''nan'' = Some NaN" "strip ''nan'' \<noteq> []" by code_simp+
  have same: "read_int ?env name d v = read_int env name d v" "read_float ?env name d' v' = read_float env name d' v'"
    "csv ?env name = csv env name" "env_text ?env name t = env_text env name t"
    "env_optional ?env name = env_optional env name" "env_choice ?env name t = env_choice env name t"
    if "name \<noteq> ''AGENTSERVE_PIN_THRESHOLD_MS''" for name d v d' v' t
    using that by (simp_all add: read_int_def read_float_def csv_def env_text_def env_optional_def env_choice_def)
  have pin: "read_float ?env ''AGENTSERVE_PIN_THRESHOLD_MS'' 2000 NaN"
    by (simp add: read_float_def blank_def nan)
  have le: "\<not> float_le x NaN" for x by (cases x) simp_all
  have "load_settings ?env =
      Inr (s\<lparr>set_cluster := (set_cluster s)\<lparr>ec_policy := (ec_policy (set_cluster s))\<lparr>ep_pin := NaN\<rparr>\<rparr>\<rparr>)"
    using assms unfolding load_settings_Inr load_cluster_Inr load_hardware_Inr load_policy_Inr load_predictor_Inr
    by (elim conjE) (simp add: same pin le)
  then show ?thesis by (simp add: finite_cluster_def)
qed

lemma nan_threshold_survives_startup_witness:
  "\<exists>s. load_settings ((\<lambda>name. None)(''AGENTSERVE_PIN_THRESHOLD_MS'' := Some ''nan'')) = Inr s \<and>
     ep_pin (ec_policy (set_cluster s)) = NaN"
  using nan_threshold_survives_startup [OF load_no_environment] by auto

end
