(* ===== verification/Metrics.thy ===== *)
theory Metrics
  imports Predictor Replica
begin

section \<open>Prometheus instrumentation\<close>

text \<open>
  \<open>agentserve/metrics.py\<close>. The metrics registry and its exposition format are library code; what
  the program does is declare its metric families and call them, so the model is the table of
  declarations and the sequence of calls: a counter, its labels and the increment; a histogram
  observation; a gauge value. The library raises \<open>ValueError\<close> on a call whose label names are not
  the declared ones: \<open>well_typed\<close> says a call does not, and is proved of all of them. It also raises \<open>ValueError\<close>
  on a negative increment, which the amounts of a result can be: \<open>make_calls\<close> stops at such a call.
\<close>

subsection \<open>The declared families\<close>

datatype family_kind = Counter | Gauge | Histogram "real list"

record metric_family =
  mf_name :: string
  mf_help :: string
  mf_kind :: family_kind
  mf_labels :: "string list"

definition registry :: "metric_family list" where
  "registry =
     [\<lparr>mf_name = ''agentserve_requests_total'', mf_help = ''Requests served'',
       mf_kind = Counter, mf_labels = [''tier'']\<rparr>,
      \<lparr>mf_name = ''agentserve_tokens_reused_total'', mf_help = ''Prompt tokens served from cache'',
       mf_kind = Counter, mf_labels = []\<rparr>,
      \<lparr>mf_name = ''agentserve_tokens_computed_total'', mf_help = ''Prompt tokens prefilled from scratch'',
       mf_kind = Counter, mf_labels = []\<rparr>,
      \<lparr>mf_name = ''agentserve_affinity_decisions_total'', mf_help = ''Routing decisions'',
       mf_kind = Counter, mf_labels = [''outcome'']\<rparr>,
      \<lparr>mf_name = ''agentserve_cache_actions_total'', mf_help = ''Cache placement decisions'',
       mf_kind = Counter, mf_labels = [''action'']\<rparr>,
      \<lparr>mf_name = ''agentserve_ttft_seconds'', mf_help = ''Time to first token'',
       mf_kind = Histogram [1 / 20, 1 / 10, 1 / 4, 1 / 2, 1, 2, 5, 10, 30, 60], mf_labels = []\<rparr>,
      \<lparr>mf_name = ''agentserve_gpu_cache_utilization'', mf_help = ''Fraction of KV cache capacity in use'',
       mf_kind = Gauge, mf_labels = [''replica'']\<rparr>,
      \<lparr>mf_name = ''agentserve_dram_cache_tokens'', mf_help = ''Tokens parked in host DRAM'',
       mf_kind = Gauge, mf_labels = [''replica'']\<rparr>,
      \<lparr>mf_name = ''agentserve_predicted_tool_gap_seconds'', mf_help = ''EWMA estimate of tool duration'',
       mf_kind = Gauge, mf_labels = [''tool'']\<rparr>]"

datatype metric_call =
    Inc string "(string \<times> string) list" real
  | Observe string real
  | SetGauge string "(string \<times> string) list" real

definition declared :: "string \<Rightarrow> (family_kind \<Rightarrow> bool) \<Rightarrow> string list \<Rightarrow> bool" where
  "declared name kind labels \<longleftrightarrow>
     (\<exists>f \<in> set registry. mf_name f = name \<and> kind (mf_kind f) \<and> mf_labels f = labels)"

fun is_histogram :: "family_kind \<Rightarrow> bool" where
  "is_histogram (Histogram bs) = True"
| "is_histogram _ = False"

fun well_typed :: "metric_call \<Rightarrow> bool" where
  "well_typed (Inc name labels x) = declared name (\<lambda>k. k = Counter) (map fst labels)"
| "well_typed (Observe name x) = declared name is_histogram []"
| "well_typed (SetGauge name labels x) = declared name (\<lambda>k. k = Gauge) (map fst labels)"

lemma declared_families [simp]:
  "declared ''agentserve_requests_total'' (\<lambda>k. k = Counter) [''tier'']"
  "declared ''agentserve_tokens_reused_total'' (\<lambda>k. k = Counter) []"
  "declared ''agentserve_tokens_computed_total'' (\<lambda>k. k = Counter) []"
  "declared ''agentserve_affinity_decisions_total'' (\<lambda>k. k = Counter) [''outcome'']"
  "declared ''agentserve_cache_actions_total'' (\<lambda>k. k = Counter) [''action'']"
  "declared ''agentserve_ttft_seconds'' is_histogram []"
  "declared ''agentserve_gpu_cache_utilization'' (\<lambda>k. k = Gauge) [''replica'']"
  "declared ''agentserve_dram_cache_tokens'' (\<lambda>k. k = Gauge) [''replica'']"
  "declared ''agentserve_predicted_tool_gap_seconds'' (\<lambda>k. k = Gauge) [''tool'']"
  by (simp_all add: declared_def registry_def)

lemma registry_names_distinct: "distinct (map mf_name registry)"
  by (simp add: registry_def)

subsection \<open>The calls\<close>

text \<open>A counter only takes increments that are not negative.\<close>

fun counter_ok :: "metric_call \<Rightarrow> bool" where
  "counter_ok (Inc name labels x) = (0 \<le> x)"
| "counter_ok _ = True"

fun make_calls :: "metric_call list \<Rightarrow> metric_call list \<times> (py_error + unit)" where
  \<comment> \<open>the calls that take effect, and the exception of the first that does not\<close>
  "make_calls [] = ([], Inr ())"
| "make_calls (m # ms) =
     (if counter_ok m then (let (made, out) = make_calls ms in (m # made, out)) else ([], Inl ValueError))"

definition observe_result :: "request_result \<Rightarrow> metric_call list \<times> (py_error + unit)" where
  "observe_result res = make_calls
     [Inc ''agentserve_requests_total'' [(''tier'', tier_value (rr_tier res))] 1,
      Inc ''agentserve_tokens_reused_total'' [] (real_of_int (reused_tokens res)),
      Inc ''agentserve_tokens_computed_total'' [] (real_of_int (computed_tokens res)),
      Observe ''agentserve_ttft_seconds'' (ttft_ms res / 1000)]"

fun observe_replicas :: "replica list \<Rightarrow> py_error + metric_call list" where
  "observe_replicas [] = Inr []"
| "observe_replicas (r # rs) =
     (case gpu_utilization r of Inl e \<Rightarrow> Inl e | Inr u \<Rightarrow>
     (case observe_replicas rs of Inl e \<Rightarrow> Inl e | Inr calls \<Rightarrow>
      Inr ([SetGauge ''agentserve_gpu_cache_utilization'' [(''replica'', py_str_int (rep_id r))] u,
            SetGauge ''agentserve_dram_cache_tokens'' [(''replica'', py_str_int (rep_id r))]
              (real_of_int (dram_tokens r))] @ calls)))"

definition observe_cluster :: "replica list \<Rightarrow> predictor \<Rightarrow> py_error + metric_call list" where
  \<comment> \<open>the calls of a scrape that completes\<close>
  "observe_cluster reps p =
     (case observe_replicas reps of
        Inl e \<Rightarrow> Inl e
      | Inr calls \<Rightarrow>
          Inr (calls @ map (\<lambda>(tool, ms). SetGauge ''agentserve_predicted_tool_gap_seconds'' [(''tool'', tool)] (ms / 1000))
                         (snapshot p)))"

lemma make_calls_set: "m \<in> set (fst (make_calls ms)) \<Longrightarrow> m \<in> set ms \<and> counter_ok m"
  by (induction ms) (auto split: prod.splits if_splits)

lemma make_calls_whole: "\<forall>m \<in> set ms. counter_ok m \<Longrightarrow> make_calls ms = (ms, Inr ())"
  by (induction ms) simp_all

lemma observe_result_typed: "m \<in> set (fst (observe_result res)) \<Longrightarrow> well_typed m \<and> counter_ok m"
  unfolding observe_result_def by (drule make_calls_set) auto

lemma observe_result_whole:
  "0 \<le> reused_tokens res \<Longrightarrow> 0 \<le> computed_tokens res \<Longrightarrow> snd (observe_result res) = Inr ()"
  by (simp add: observe_result_def)

lemma observe_result_raises:
  "reused_tokens res < 0 \<or> computed_tokens res < 0 \<Longrightarrow> snd (observe_result res) = Inl ValueError"
  by (auto simp: observe_result_def)

lemma observe_replicas_typed: "observe_replicas rs = Inr calls \<Longrightarrow> m \<in> set calls \<Longrightarrow> well_typed m"
proof (induction rs arbitrary: calls)
  case (Cons r rs)
  then show ?case by (cases "gpu_utilization r"; cases "observe_replicas rs") auto
qed simp

lemma observe_cluster_typed: "observe_cluster rs p = Inr calls \<Longrightarrow> m \<in> set calls \<Longrightarrow> well_typed m"
  using observe_replicas_typed by (auto simp: observe_cluster_def split: sum.splits)

fun counted_amount :: "string \<Rightarrow> metric_call \<Rightarrow> real" where
  "counted_amount name (Inc n labels x) = (if n = name then x else 0)"
| "counted_amount name _ = 0"

definition counter_total :: "string \<Rightarrow> metric_call list \<Rightarrow> real" where
  "counter_total name calls = sum_list (map (counted_amount name) calls)"

lemma counter_total_simps [simp]:
  "counter_total name [] = 0"
  "counter_total name (c # cs) = counted_amount name c + counter_total name cs"
  "counter_total name (cs @ cs') = counter_total name cs + counter_total name cs'"
  by (simp_all add: counter_total_def)

end
