(* ===== verification/Gateway.thy ===== *)
theory Gateway
  imports Router Simulated Vllm Tokenizer Settings Metrics
begin

section \<open>The gateway\<close>

text \<open>
  \<open>agentserve/gateway.py\<close>. The objects \<open>create_app\<close> shares between its handlers are one state
  record; a handler is a function of it. The session store is a record of methods over its own
  state, the backend an \<open>execute\<close> method. Readings of the clock the store makes are arguments, and
  so is \<open>now\<close>, the handler's own reading in milliseconds.

  An \<open>HTTPException\<close> is \<open>Rejected\<close> with its status; any other exception that leaves a handler is
  \<open>Unhandled\<close>, which the web framework turns into status 500.
\<close>

datatype gw_router = GAffinity affinity_router | GRoundRobin round_robin

record 's gateway =
  g_replicas :: "replica list"
  g_router :: gw_router
  g_predictor :: predictor
  g_store :: 's
  g_metrics :: "metric_call list"

definition create_gateway :: "cluster_config \<Rightarrow> string \<Rightarrow> string \<Rightarrow> 's \<Rightarrow> 's gateway" where
  "create_gateway c router_kind policy_kind s =
     \<lparr>g_replicas = build_replicas (cc_replicas c) (hardware c)
        (if policy_kind = ''adaptive'' then adaptive_policy (cc_policy c) else lru_policy),
      g_router = (if router_kind = ''affinity'' then GAffinity (new_affinity_router (cc_policy c))
                  else GRoundRobin \<lparr>cursor = 0\<rparr>),
      g_predictor = new_predictor (cc_predictor c), g_store = s, g_metrics = []\<rparr>"

datatype http_failure = Rejected int string | Unhandled py_error

subsection \<open>Reading a request\<close>

record http_request =
  rq_authorization :: "string option"
  rq_session_id :: "string option"
  rq_tool_name :: "string option"
  rq_body :: "py_error + json"

record call =
  c_sid :: string
  c_tool :: "string option"
  c_messages :: "json list"
  c_prompt :: int
  c_max :: int
  c_stream :: bool
  c_body :: json

definition require_api_key :: "string option \<Rightarrow> http_request \<Rightarrow> http_failure + unit" where
  "require_api_key key rq =
     (case key of
        None \<Rightarrow> Inr ()
      | Some k \<Rightarrow>
          if rq_authorization rq \<noteq> Some (''Bearer '' @ k)
          then Inl (Rejected 401 ''invalid or missing bearer token'') else Inr ())"

definition or_unhandled :: "py_error + 'a \<Rightarrow> http_failure + 'a" where
  "or_unhandled x = (case x of Inl e \<Rightarrow> Inl (Unhandled e) | Inr a \<Rightarrow> Inr a)"

definition check_session_id :: "http_request \<Rightarrow> http_failure + string" where
  "check_session_id rq =
     (case rq_session_id rq of
        None \<Rightarrow> Inl (Rejected 400 ''X-Session-Id header is required'')
      | Some sid \<Rightarrow>
          if sid = [] then Inl (Rejected 400 ''X-Session-Id header is required'')
          else if 256 < length sid then Inl (Rejected 400 ''X-Session-Id must be at most 256 characters'')
          else Inr sid)"

definition check_messages :: "json \<Rightarrow> http_failure + json list" where
  "check_messages v =
     (case v of
        JList (m # ms) \<Rightarrow> Inr (m # ms)
      | _ \<Rightarrow> Inl (Rejected 400 ''messages must be a non-empty array''))"

definition read_call :: "string option \<Rightarrow> tokenizer \<Rightarrow> http_request \<Rightarrow> http_failure + call" where
  \<comment> \<open>the dependency and the first half of \<open>chat_completions\<close>, up to the token count\<close>
  "read_call key tk rq =
     (case require_api_key key rq of Inl e \<Rightarrow> Inl e | Inr _ \<Rightarrow>
     (case check_session_id rq of Inl e \<Rightarrow> Inl e | Inr sid \<Rightarrow>
     (case rq_body rq of Inl e \<Rightarrow> Inl (Rejected 400 ''request body must be valid JSON'') | Inr body \<Rightarrow>
     (case or_unhandled (json_get body ''messages'' JNull) of Inl e \<Rightarrow> Inl e | Inr v \<Rightarrow>
     (case check_messages v of Inl e \<Rightarrow> Inl e | Inr messages \<Rightarrow>
     (case or_unhandled (json_get body ''max_tokens'' (JInt 256)) of Inl e \<Rightarrow> Inl e | Inr m \<Rightarrow>
     (case or_unhandled (json_int m) of Inl e \<Rightarrow> Inl e | Inr max_tokens \<Rightarrow>
     (case or_unhandled (json_get body ''stream'' (JBool False)) of Inl e \<Rightarrow> Inl e | Inr st \<Rightarrow>
     (case or_unhandled (count_messages tk messages) of Inl e \<Rightarrow> Inl e | Inr prompt \<Rightarrow>
      Inr \<lparr>c_sid = sid, c_tool = rq_tool_name rq, c_messages = messages, c_prompt = prompt,
           c_max = max_tokens, c_stream = json_truth st, c_body = body\<rparr>)))))))))"

subsection \<open>Scheduling\<close>

definition router_hit_count :: "gw_router \<Rightarrow> int" where
  "router_hit_count rt = (case rt of GAffinity ar \<Rightarrow> affinity_hits ar | GRoundRobin rr \<Rightarrow> 0)"

definition gw_select ::
  "'s session_store \<Rightarrow> real \<times> real \<Rightarrow> string \<Rightarrow> real \<Rightarrow> 's gateway \<Rightarrow> (py_error + nat) \<times> 's gateway" where
  "gw_select ops clocks sid now g =
     (case g_router g of
        GRoundRobin rr \<Rightarrow>
          (case rr_select (g_replicas g) rr of
             Inl e \<Rightarrow> (Inl e, g)
           | Inr (i, rr') \<Rightarrow> (Inr i, g\<lparr>g_router := GRoundRobin rr'\<rparr>))
      | GAffinity ar \<Rightarrow>
          (let (res, ar', s) = affinity_select ops (g_replicas g) sid now clocks ar (g_store g)
           in (res, g\<lparr>g_router := GAffinity ar', g_store := s\<rparr>)))"

definition learn_return :: "string \<Rightarrow> string option \<Rightarrow> real \<Rightarrow> real option \<Rightarrow> predictor \<Rightarrow> py_error + predictor" where
  \<comment> \<open>the gap since the session's last response, clamped at zero\<close>
  "learn_return sid tool now last_seen p =
     (case last_seen of None \<Rightarrow> Inr p | Some t \<Rightarrow> observe sid tool (max 0 (now - t)) p)"

definition schedule ::
  "'s session_store \<Rightarrow> real \<times> real \<times> real \<Rightarrow> string \<Rightarrow> string option \<Rightarrow> real \<Rightarrow> 's gateway
   \<Rightarrow> (py_error + nat \<times> real) \<times> 's gateway" where
  "schedule ops clocks sid tool now g =
     (let g1 = g\<lparr>g_replicas := map (prune now) (g_replicas g)\<rparr>
      in case get_last_seen ops (fst clocks) sid (g_store g1) of
           (Inl e, s) \<Rightarrow> (Inl e, g1\<lparr>g_store := s\<rparr>)
         | (Inr last_seen, s) \<Rightarrow>
           (let g2 = g1\<lparr>g_store := s\<rparr>
            in case learn_return sid tool now last_seen (g_predictor g2) of
                 Inl e \<Rightarrow> (Inl e, g2)
               | Inr p \<Rightarrow>
                 (let g3 = g2\<lparr>g_predictor := p\<rparr>; before = router_hit_count (g_router g3)
                  in case gw_select ops (snd clocks) sid now g3 of
                       (Inl e, g4) \<Rightarrow> (Inl e, g4)
                     | (Inr i, g4) \<Rightarrow>
                       (let outcome = (if before < router_hit_count (g_router g4) then ''affinity'' else ''rebalanced'');
                            g5 = g4\<lparr>g_metrics := g_metrics g4 @
                              [Inc ''agentserve_affinity_decisions_total'' [(''outcome'', outcome)] 1]\<rparr>
                        in case predict_ms sid tool (g_predictor g5) of
                             Inl e \<Rightarrow> (Inl e, g5)
                           | Inr (gap, p') \<Rightarrow> (Inr (i, gap), g5\<lparr>g_predictor := p'\<rparr>)))))"

definition record_result ::
  "'s session_store \<Rightarrow> real \<Rightarrow> string \<Rightarrow> request_result \<Rightarrow> real \<Rightarrow> 's gateway \<Rightarrow> (py_error + unit) \<times> 's gateway" where
  "record_result ops clock sid res now g =
     (let (made, counted) = observe_result res; g1 = g\<lparr>g_metrics := g_metrics g @ made\<rparr>
      in case counted of
           Inl e \<Rightarrow> (Inl e, g1)
         | Inr _ \<Rightarrow>
             (let g2 = g1\<lparr>g_metrics := g_metrics g1 @
                    [Inc ''agentserve_cache_actions_total'' [(''action'', tier_value (rr_tier res))] 1]\<rparr>;
                  (out, s) = set_last_seen ops clock sid (now + latency_ms res) (g_store g2)
              in (out, g2\<lparr>g_store := s\<rparr>)))"

subsection \<open>Serving a call\<close>

definition enter_slot :: "nat \<Rightarrow> 's gateway \<Rightarrow> 's gateway" where
  "enter_slot i g = g\<lparr>g_replicas := (g_replicas g)[i := slot_enter (g_replicas g ! i)]\<rparr>"

definition leave_slot :: "nat \<Rightarrow> 's gateway \<Rightarrow> 's gateway" where
  "leave_slot i g = g\<lparr>g_replicas := (g_replicas g)[i := slot_exit (g_replicas g ! i)]\<rparr>"

definition finish_call ::
  "'s session_store \<Rightarrow> execute_method \<Rightarrow> real \<Rightarrow> nat \<Rightarrow> call \<Rightarrow> real \<Rightarrow> real \<Rightarrow> 's gateway
   \<Rightarrow> (http_failure + request_result) \<times> 's gateway" where
  \<comment> \<open>from the backend's answer to the end of the handler: the slot is released either way\<close>
  "finish_call ops exec clock i c now gap g =
     (case exec (g_replicas g ! i) (c_sid c) (c_prompt c) (c_max c) now (now + gap) of
        Inl e \<Rightarrow> (Inl (Rejected 502 ''upstream worker error''), leave_slot i g)
      | Inr (res, r') \<Rightarrow>
          (case record_result ops clock (c_sid c) res now
                  (leave_slot i (g\<lparr>g_replicas := (g_replicas g)[i := r']\<rparr>)) of
             (Inl e, g') \<Rightarrow> (Inl (Unhandled e), g')
           | (Inr _, g') \<Rightarrow> (Inr res, g')))"

definition chat_completions ::
  "'s session_store \<Rightarrow> execute_method \<Rightarrow> string option \<Rightarrow> tokenizer \<Rightarrow> real \<times> real \<times> real \<Rightarrow> real \<Rightarrow> real
   \<Rightarrow> http_request \<Rightarrow> 's gateway \<Rightarrow> (http_failure + call \<times> real \<times> request_result) \<times> 's gateway" where
  \<comment> \<open>the whole non-streaming handler, with nothing running in between\<close>
  "chat_completions ops exec key tk clocks clock now rq g =
     (case read_call key tk rq of
        Inl e \<Rightarrow> (Inl e, g)
      | Inr c \<Rightarrow>
          (case schedule ops clocks (c_sid c) (c_tool c) now g of
             (Inl e, g1) \<Rightarrow> (Inl (Unhandled e), g1)
           | (Inr (i, gap), g1) \<Rightarrow>
               (case finish_call ops exec clock i c now gap (enter_slot i g1) of
                  (Inl e, g2) \<Rightarrow> (Inl e, g2)
                | (Inr res, g2) \<Rightarrow> (Inr (c, gap, res), g2))))"

subsection \<open>Responses\<close>

definition round_to :: "nat \<Rightarrow> real \<Rightarrow> pyfloat" where
  "round_to digits x = Finite (real_of_int (py_round (x * 10 ^ digits)) / 10 ^ digits)"

definition response_id :: "string \<Rightarrow> real \<Rightarrow> string" where
  "response_id sid now = ''agentserve-'' @ sid @ ''-'' @ py_str_int (py_trunc now)"

definition chat_response :: "string \<Rightarrow> call \<Rightarrow> real \<Rightarrow> real \<Rightarrow> request_result \<Rightarrow> py_error + json" where
  "chat_response default_model c now gap res =
     (case json_get (c_body c) ''model'' (JStr default_model) of
        Inl e \<Rightarrow> Inl e
      | Inr model \<Rightarrow>
          (let completion = completion_tokens res
           in Inr (JDict
             [(''id'', JStr (response_id (c_sid c) now)),
              (''object'', JStr ''chat.completion''),
              (''created'', JInt (py_trunc (now / 1000))),
              (''model'', model),
              (''choices'', JList [JDict
                 [(''index'', JInt 0),
                  (''message'', JDict [(''role'', JStr ''assistant''), (''content'', rr_text res)]),
                  (''finish_reason'', JStr ''stop'')]]),
              (''usage'', JDict
                 [(''prompt_tokens'', JInt (c_prompt c)),
                  (''completion_tokens'', JInt completion),
                  (''total_tokens'', JInt (c_prompt c + completion)),
                  (''prompt_tokens_details'', JDict [(''cached_tokens'', JInt (reused_tokens res))])]),
              (''agentserve'', JDict
                 [(''replica'', JInt (rr_replica_id res)),
                  (''cache_tier'', JStr (tier_value (rr_tier res))),
                  (''reused_tokens'', JInt (reused_tokens res)),
                  (''computed_tokens'', JInt (computed_tokens res)),
                  (''ttft_ms'', JFloat (round_to 2 (ttft_ms res))),
                  (''predicted_gap_ms'', JFloat (round_to 1 gap))])])))"

definition envelope :: "string \<Rightarrow> json \<Rightarrow> real \<Rightarrow> json \<Rightarrow> json \<Rightarrow> json" where
  "envelope sid model now delta finish = JDict
     [(''id'', JStr (response_id sid now)),
      (''object'', JStr ''chat.completion.chunk''),
      (''created'', JInt (py_trunc (now / 1000))),
      (''model'', model),
      (''choices'', JList [JDict [(''index'', JInt 0), (''delta'', delta), (''finish_reason'', finish)]])]"

definition final_event :: "string \<Rightarrow> real \<Rightarrow> request_result \<Rightarrow> json" where
  "final_event sid now res = JDict
     [(''id'', JStr (response_id sid now)),
      (''object'', JStr ''chat.completion.chunk''),
      (''agentserve'', JDict
         [(''replica'', JInt (rr_replica_id res)),
          (''cache_tier'', JStr (tier_value (rr_tier res))),
          (''reused_tokens'', JInt (reused_tokens res)),
          (''ttft_ms'', JFloat (round_to 2 (ttft_ms res)))]),
      (''choices'', JList [JDict [(''index'', JInt 0), (''delta'', JDict []), (''finish_reason'', JStr ''stop'')]])]"

datatype sse = Data json | StreamError py_error | StreamDone

fun delta_events :: "(json \<Rightarrow> sse) \<Rightarrow> bool \<Rightarrow> json list \<Rightarrow> sse list" where
  "delta_events wrap first [] = []"
| "delta_events wrap first (t # ts) =
     wrap (JDict (if first then [(''role'', JStr ''assistant''), (''content'', t)] else [(''content'', t)])) #
     delta_events wrap False ts"

definition stream_model :: "call \<Rightarrow> py_error + json" where
  "stream_model c = json_get (c_body c) ''model'' (JStr ''agentserve'')"

definition resume_stream ::
  "'s session_store \<Rightarrow> real \<Rightarrow> nat \<Rightarrow> call \<Rightarrow> real \<Rightarrow> request_result \<Rightarrow> 's gateway \<Rightarrow> sse list \<times> 's gateway" where
  \<comment> \<open>the generator from its last chunk to its end, still in its slot, the replica having accounted for the call\<close>
  "resume_stream ops clock i c now res g =
     (case record_result ops clock (c_sid c) res now (leave_slot i g) of
        (Inl e, g') \<Rightarrow> ([StreamError e, StreamDone], g')
      | (Inr _, g') \<Rightarrow> ([Data (final_event (c_sid c) now res), StreamDone], g'))"

definition stream_response ::
  "'s session_store \<Rightarrow> real \<Rightarrow> nat \<Rightarrow> call \<Rightarrow> json \<Rightarrow> real \<Rightarrow> json list \<Rightarrow> py_error + request_result \<times> replica
   \<Rightarrow> 's gateway \<Rightarrow> sse list \<times> 's gateway" where
  \<comment> \<open>the generator from inside its slot to its end: the chunks it yielded, and how the backend ended\<close>
  "stream_response ops clock i c model now chunks outcome g =
     (let deltas = delta_events (\<lambda>d. Data (envelope (c_sid c) model now d JNull)) True chunks
      in case outcome of
           Inl e \<Rightarrow> (deltas @ [StreamError e, StreamDone], leave_slot i g)
         | Inr (res, r') \<Rightarrow>
             (let (events, g') = resume_stream ops clock i c now res (g\<lparr>g_replicas := (g_replicas g)[i := r']\<rparr>)
              in (deltas @ events, g')))"

subsection \<open>Operational endpoints\<close>

definition ready ::
  "'s session_store \<Rightarrow> ('b \<Rightarrow> bool \<times> 'b) option \<Rightarrow> 's \<Rightarrow> 'b \<Rightarrow> int \<times> json \<times> 's \<times> 'b" where
  \<comment> \<open>the status code and the body; \<open>probe\<close> is the backend's \<open>aprobe\<close>, when it has one\<close>
  "ready ops probe s b =
     (let (size, s') = store_size ops s;
          (workers, b') = (case probe of None \<Rightarrow> (True, b) | Some p \<Rightarrow> p b);
          healthy = (0 \<le> size \<and> workers)
      in (if healthy then 200 else 503,
          JDict [(''ready'', JBool healthy),
                 (''checks'', JDict [(''session_store'', JBool (0 \<le> size)), (''workers'', JBool workers)])],
          s', b'))"

subsection \<open>Requests in flight\<close>

text \<open>
  Between two awaits of one request other requests run, so the gateway is a transition system
  over the shared state and the multiset of requests in flight. A streaming request is admitted
  before its generator enters the slot. A generator over an in-process backend executes the call, which
  charges the replica, and yields the text while it still holds the slot: other requests run before it
  is resumed, leaves the slot and records the result. A client that disconnects cancels its request at the
  point it has reached, which releases the slot if it holds one and records nothing. \<open>valid\<close> restricts the calls that
  are admitted, \<open>exec w\<close> is the backend's effect when the worker reported \<open>w\<close>. \<open>finish_stream\<close> is for a
  stream of a worker, whose adapter charges the replica after the last piece; over an in-process backend it is
  \<open>serve\<close> and \<open>resume\<close> with nothing in between.
\<close>

datatype phase = Queued | Running | Yielding request_result

definition in_process :: "('w \<Rightarrow> execute_method) \<Rightarrow> bool" where
  \<comment> \<open>the effect of a call depends on no worker\<close>
  "in_process exec \<longleftrightarrow> (\<forall>w w'. exec w = exec w')"

record job =
  j_replica :: nat
  j_phase :: phase
  j_call :: call
  j_now :: real
  j_gap :: real

inductive gw_step ::
  "'s session_store \<Rightarrow> ('w \<Rightarrow> execute_method) \<Rightarrow> (call \<Rightarrow> bool)
   \<Rightarrow> 's gateway \<times> job multiset \<Rightarrow> 's gateway \<times> job multiset \<Rightarrow> bool"
  for ops exec valid
where
  admit: "gw_step ops exec valid (g, J)
      (enter_slot i g', add_mset \<lparr>j_replica = i, j_phase = Running, j_call = c, j_now = now, j_gap = gap\<rparr> J)"
    if "valid c" "\<not> c_stream c" "schedule ops clocks (c_sid c) (c_tool c) now g = (Inr (i, gap), g')"
| admit_stream: "gw_step ops exec valid (g, J)
      (g', add_mset \<lparr>j_replica = i, j_phase = Queued, j_call = c, j_now = now, j_gap = gap\<rparr> J)"
    if "valid c" "c_stream c" "schedule ops clocks (c_sid c) (c_tool c) now g = (Inr (i, gap), g')"
| refuse: "gw_step ops exec valid (g, J) (g', J)"
    if "valid c" "schedule ops clocks (c_sid c) (c_tool c) now g = (Inl e, g')"
| start: "gw_step ops exec valid (g, add_mset j J)
      (enter_slot (j_replica j) g, add_mset (j\<lparr>j_phase := Running\<rparr>) J)"
    if "j_phase j = Queued"
| finish: "gw_step ops exec valid (g, add_mset j J) (g', J)"
    if "j_phase j = Running" "\<not> c_stream (j_call j)"
      "finish_call ops (exec w) clock (j_replica j) (j_call j) (j_now j) (j_gap j) g = (out, g')"
| finish_stream: "gw_step ops exec valid (g, add_mset j J) (g', J)"
    if "j_phase j = Running" "c_stream (j_call j)"
      "outcome = exec w (g_replicas g ! j_replica j) (c_sid (j_call j)) (c_prompt (j_call j)) (c_max (j_call j))
         (j_now j) (j_now j + j_gap j)"
      "stream_response ops clock (j_replica j) (j_call j) model (j_now j) chunks outcome g = (events, g')"
| serve: "gw_step ops exec valid (g, add_mset j J)
      (g\<lparr>g_replicas := (g_replicas g)[j_replica j := r']\<rparr>, add_mset (j\<lparr>j_phase := Yielding res\<rparr>) J)"
    if "j_phase j = Running" "c_stream (j_call j)" "in_process exec"
      "exec w (g_replicas g ! j_replica j) (c_sid (j_call j)) (c_prompt (j_call j)) (c_max (j_call j))
         (j_now j) (j_now j + j_gap j) = Inr (res, r')"
| resume: "gw_step ops exec valid (g, add_mset j J) (g', J)"
    if "j_phase j = Yielding res"
      "resume_stream ops clock (j_replica j) (j_call j) (j_now j) res g = (events, g')"
| upstream_failure: "gw_step ops exec valid (g, add_mset j J) (leave_slot (j_replica j) g, J)"
    if "j_phase j = Running"
| cancel: "gw_step ops exec valid (g, add_mset j J) (leave_slot (j_replica j) g, J)"
    if "j_phase j \<noteq> Queued"
| cancel_queued: "gw_step ops exec valid (g, add_mset j J) (g, J)"
    if "j_phase j = Queued"

inductive gw_reachable ::
  "'s session_store \<Rightarrow> ('w \<Rightarrow> execute_method) \<Rightarrow> (call \<Rightarrow> bool) \<Rightarrow> 's gateway
   \<Rightarrow> 's gateway \<times> job multiset \<Rightarrow> bool"
  for ops exec valid g0
where
  init: "gw_reachable ops exec valid g0 (g0, {#})"
| step: "gw_reachable ops exec valid g0 st'"
    if "gw_reachable ops exec valid g0 st" "gw_step ops exec valid st st'"

inductive_cases gw_step_cases: "gw_step ops exec valid (g, J) st'"

definition running_on :: "nat \<Rightarrow> job multiset \<Rightarrow> nat" where
  "running_on i J = size (filter_mset (\<lambda>j. j_phase j \<noteq> Queued \<and> j_replica j = i) J)"

definition slots_ok :: "'s gateway \<times> job multiset \<Rightarrow> bool" where
  "slots_ok = (\<lambda>(g, J).
     (\<forall>i < length (g_replicas g). active (g_replicas g ! i) = int (running_on i J) \<and> pending (g_replicas g ! i) = []) \<and>
     (\<forall>j \<in># J. j_replica j < length (g_replicas g)))"

lemma running_on_simps [simp]:
  "running_on i {#} = 0"
  "running_on i (add_mset j J) = (if j_phase j \<noteq> Queued \<and> j_replica j = i then 1 else 0) + running_on i J"
  by (simp_all add: running_on_def)

subsection \<open>What scheduling leaves alone\<close>

lemma affinity_select_range:
  "affinity_select ops reps sid now clocks rt s = (Inr i, rt', s') \<Longrightarrow> i < length reps"
proof -
  have place: "place_session ops reps sid now clock rt s = (Inr i, rt', s') \<Longrightarrow> i < length reps" for clock rt s rt' s'
    by (auto simp: place_session_def least_loaded_def Let_def split: sum.splits prod.splits if_splits
        dest!: candidates_range [OF arg_min_list_in])
  have least: "least_loaded reps now avoid = Inr i \<Longrightarrow> i < length reps" for avoid
    by (auto simp: least_loaded_def Let_def split: if_splits dest!: candidates_range [OF arg_min_list_in])
  assume "affinity_select ops reps sid now clocks rt s = (Inr i, rt', s')"
  then show ?thesis
    by (auto simp: affinity_select_def Let_def dest: place least split: sum.splits prod.splits option.splits if_splits)
qed

lemma gw_select_frame:
  assumes "gw_select ops clocks sid now g = (res, g')"
  shows "g_replicas g' = g_replicas g \<and> (\<forall>i. res = Inr i \<longrightarrow> g_replicas g \<noteq> [] \<longrightarrow> i < length (g_replicas g))"
  using assms affinity_select_range
  by (fastforce simp: gw_select_def rr_select_def split: gw_router.splits sum.splits prod.splits if_splits)

lemma schedule_frame:
  assumes "schedule ops clocks sid tool now g = (res, g')"
  shows "g_replicas g' = map (prune now) (g_replicas g)"
    and "res = Inr (i, gap) \<Longrightarrow> g_replicas g \<noteq> [] \<Longrightarrow> i < length (g_replicas g)"
  using assms
  by (auto simp: schedule_def Let_def dest!: gw_select_frame split: prod.splits sum.splits)

lemma record_result_frame [simp]: "g_replicas (snd (record_result ops clock sid res now g)) = g_replicas g"
  by (simp add: record_result_def Let_def split: prod.split sum.split)

lemma resume_stream_frame:
  "snd (resume_stream ops clock i c now res g) = snd (record_result ops clock (c_sid c) res now (leave_slot i g))"
  by (auto simp: resume_stream_def split: prod.split sum.split)

lemma enter_slot_active [simp]:
  "length (g_replicas (enter_slot i g)) = length (g_replicas g)"
  "k < length (g_replicas g) \<Longrightarrow> pending (g_replicas (enter_slot i g) ! k) = pending (g_replicas g ! k)"
  "k < length (g_replicas g) \<Longrightarrow>
     active (g_replicas (enter_slot i g) ! k) = active (g_replicas g ! k) + (if k = i then 1 else 0)"
  by (cases "k = i"; simp add: enter_slot_def slot_enter_def Let_def)+

lemma leave_slot_active [simp]:
  "length (g_replicas (leave_slot i g)) = length (g_replicas g)"
  "k < length (g_replicas g) \<Longrightarrow> pending (g_replicas (leave_slot i g) ! k) = pending (g_replicas g ! k)"
  "k < length (g_replicas g) \<Longrightarrow> (k = i \<Longrightarrow> 1 \<le> active (g_replicas g ! k)) \<Longrightarrow>
     active (g_replicas (leave_slot i g) ! k) = active (g_replicas g ! k) - (if k = i then 1 else 0)"
  by (cases "k = i"; simp add: leave_slot_def slot_exit_def)+

definition released :: "nat \<Rightarrow> 's gateway \<Rightarrow> 's gateway \<Rightarrow> bool" where
  \<comment> \<open>\<open>g'\<close> has the replicas of \<open>g\<close> with one slot of replica \<open>i\<close> released\<close>
  "released i g g' \<longleftrightarrow> length (g_replicas g') = length (g_replicas g) \<and>
     (\<forall>k < length (g_replicas g). pending (g_replicas g' ! k) = pending (g_replicas g ! k)) \<and>
     (\<forall>k < length (g_replicas g). (k = i \<longrightarrow> 1 \<le> active (g_replicas g ! k)) \<longrightarrow>
       active (g_replicas g' ! k) = active (g_replicas g ! k) - (if k = i then 1 else 0))"

lemma released_leave: "released i g (leave_slot i g)"
  by (simp add: released_def)

lemma released_served:
  assumes "active r' = active (g_replicas g ! i)" "pending r' = pending (g_replicas g ! i)"
    and "i < length (g_replicas g)"
    and "g_replicas g' = g_replicas (leave_slot i (g\<lparr>g_replicas := (g_replicas g)[i := r']\<rparr>))"
  shows "released i g g'"
  using assms by (auto simp: released_def leave_slot_def slot_exit_def nth_list_update)

locale gateway_backend =
  fixes exec :: "'w \<Rightarrow> execute_method"
  assumes exec_serving: "serving_backend (exec w)"
begin

lemma exec_active:
  "exec w r sid pt ot now ret = Inr (res, r') \<Longrightarrow> active r' = active r \<and> pending r' = pending r"
  using serving_backend.exec_frame [OF exec_serving] by blast

lemma finish_call_releases:
  assumes "i < length (g_replicas g)" "finish_call ops (exec w) clock i c now gap g = (out, g')"
  shows "released i g g'"
proof (cases "exec w (g_replicas g ! i) (c_sid c) (c_prompt c) (c_max c) now (now + gap)")
  case (Inl e)
  with assms(2) released_leave show ?thesis by (auto simp: finish_call_def)
next
  case (Inr a)
  obtain res r' where a: "a = (res, r')" by fastforce
  let ?g = "leave_slot i (g\<lparr>g_replicas := (g_replicas g)[i := r']\<rparr>)"
  have "g' = snd (record_result ops clock (c_sid c) res now ?g)"
    using assms(2) Inr a by (auto simp: finish_call_def split: prod.splits sum.splits)
  then show ?thesis
    using exec_active [OF Inr [unfolded a]] assms(1) by (intro released_served) simp_all
qed

lemma stream_response_releases:
  assumes i: "i < length (g_replicas g)"
    and outcome: "outcome = exec w (g_replicas g ! i) sid pt ot now ret"
    and run: "stream_response ops clock i c model now' chunks outcome g = (events, g')"
  shows "released i g g'"
proof (cases outcome)
  case (Inl e)
  with run released_leave show ?thesis by (auto simp: stream_response_def)
next
  case (Inr a)
  obtain res r' where a: "a = (res, r')" by fastforce
  let ?g = "leave_slot i (g\<lparr>g_replicas := (g_replicas g)[i := r']\<rparr>)"
  have "g' = snd (record_result ops clock (c_sid c) res now' ?g)"
    using run Inr a resume_stream_frame [of ops clock i c now' res "g\<lparr>g_replicas := (g_replicas g)[i := r']\<rparr>"]
    by (simp add: stream_response_def Let_def split: prod.splits)
  moreover have "exec w (g_replicas g ! i) sid pt ot now ret = Inr (res, r')" using outcome Inr a by simp
  then have "active r' = active (g_replicas g ! i) \<and> pending r' = pending (g_replicas g ! i)" by (rule exec_active)
  ultimately show ?thesis using i by (intro released_served) simp_all
qed

lemma slots_released:
  assumes "slots_ok (g, add_mset j J)" "j_phase j \<noteq> Queued" "released (j_replica j) g g'"
  shows "slots_ok (g', J)"
  using assms by (auto simp: slots_ok_def released_def)

lemma slots_released':
  assumes "slots_ok (g, add_mset j J)" "j_phase j \<noteq> Queued" "released (j_replica j) g g'"
  shows "slots_ok (fst (g', J), snd (g', J)) \<and>
    length (g_replicas (fst (g', J))) = length (g_replicas (fst (g, add_mset j J)))"
  using slots_released [OF assms] assms(3) by (simp add: released_def)

lemma slots_step:
  assumes "gw_step ops exec valid st st'" "slots_ok st" "g_replicas (fst st) \<noteq> []"
  shows "slots_ok st' \<and> length (g_replicas (fst st')) = length (g_replicas (fst st))"
  using assms
proof (induction rule: gw_step.induct)
  case (admit c clocks now g i gap g' J)
  have "i < length (g_replicas g)" "g_replicas g' = map (prune now) (g_replicas g)"
    using schedule_frame [OF admit(3)] admit(5) by auto
  with admit(4) show ?case by (auto simp: slots_ok_def prune_def)
next
  case (admit_stream c clocks now g i gap g' J)
  have "i < length (g_replicas g)" "g_replicas g' = map (prune now) (g_replicas g)"
    using schedule_frame [OF admit_stream(3)] admit_stream(5) by auto
  with admit_stream(4) show ?case by (auto simp: slots_ok_def prune_def)
next
  case (refuse c clocks now g e g' J)
  then show ?case using schedule_frame(1) [OF refuse(2)] by (auto simp: slots_ok_def prune_def)
next
  case (start j g J)
  then show ?case by (auto simp: slots_ok_def)
next
  case (finish j w clock g out g' J)
  then have "j_replica j < length (g_replicas g)" by (simp add: slots_ok_def)
  from finish_call_releases [OF this finish(3)] slots_released' [OF finish(4)] finish(1) show ?case by simp
next
  case (finish_stream j outcome w g clock model chunks events g' J)
  then have "j_replica j < length (g_replicas g)" by (simp add: slots_ok_def)
  from stream_response_releases [OF this finish_stream(3,4)] slots_released' [OF finish_stream(5)] finish_stream(1)
  show ?case by simp
next
  case (serve j w g res r' J)
  then show ?case using exec_active [OF serve(4)] by (auto simp: slots_ok_def nth_list_update)
next
  case (resume j res clock g events g' J)
  have "g_replicas g' = g_replicas (leave_slot (j_replica j) g)"
    using resume(2) resume_stream_frame [of ops clock "j_replica j" "j_call j" "j_now j" res g] by simp
  then have "released (j_replica j) g g'" using released_leave [of "j_replica j" g] by (simp add: released_def)
  from slots_released' [OF resume(3) _ this] resume(1) show ?case by simp
next
  case (upstream_failure j g J)
  from slots_released' [OF upstream_failure(2) _ released_leave] upstream_failure(1) show ?case by simp
next
  case (cancel j g J)
  from slots_released' [OF cancel(2,1) released_leave] show ?case by simp
next
  case (cancel_queued j g J)
  then show ?case by (auto simp: slots_ok_def)
qed

lemma slots_reachable:
  assumes "gw_reachable ops exec valid g0 st" "g_replicas g0 \<noteq> []"
    and "\<forall>i < length (g_replicas g0). active (g_replicas g0 ! i) = 0 \<and> pending (g_replicas g0 ! i) = []"
  shows "slots_ok st \<and> length (g_replicas (fst st)) = length (g_replicas g0)"
  using assms
proof (induction rule: gw_reachable.induct)
  case init
  then show ?case by (simp add: slots_ok_def)
next
  case (step st st')
  then have ok: "slots_ok st" "length (g_replicas (fst st)) = length (g_replicas g0)" by simp_all
  with step.prems(1) have "g_replicas (fst st) \<noteq> []" by auto
  with slots_step [OF step.hyps(2) ok(1)] ok(2) show ?case by simp
qed

end

interpretation sim_gateway: gateway_backend "\<lambda>w. sim_execute h" for h
  by unfold_locales

interpretation vllm_gateway: gateway_backend vllm_result
  by unfold_locales

subsection \<open>The gateway's own machinery\<close>

text \<open>
  What the handlers rely on: a well-formed cluster on the configured hardware and within its
  budgets with only admissible increments in the metrics (\<open>cluster_ok\<close>, which needs nothing of the session store),
  and beyond it a well-formed session store in memory and a predictor whose tables are averages of some
  history (\<open>machine_ok\<close>).
\<close>

definition valid_call :: "call \<Rightarrow> bool" where
  "valid_call c \<longleftrightarrow> 0 \<le> c_prompt c \<and> 0 \<le> c_max c"

definition cluster_ok :: "cluster_config \<Rightarrow> 's gateway \<Rightarrow> bool" where
  "cluster_ok c g \<longleftrightarrow> wf_cluster (g_replicas g) \<and>
     (\<forall>r \<in> set (g_replicas g). hw r = hardware c \<and> gpu_tokens r \<le> gpu_cache_tokens (hardware c)) \<and>
     (\<forall>m \<in> set (g_metrics g). counter_ok m)"

definition jobs_ok :: "'s gateway \<Rightarrow> job multiset \<Rightarrow> bool" where
  "jobs_ok g J \<longleftrightarrow> (\<forall>j \<in># J. valid_call (j_call j) \<and> j_replica j < length (g_replicas g) \<and>
     (\<forall>res. j_phase j = Yielding res \<longrightarrow> 0 \<le> reused_tokens res \<and> 0 \<le> computed_tokens res))"

definition budget_ok :: "cluster_config \<Rightarrow> 's gateway \<times> job multiset \<Rightarrow> bool" where
  "budget_ok c = (\<lambda>(g, J). cluster_ok c g \<and> jobs_ok g J)"

definition machine_ok :: "cluster_config \<Rightarrow> mem_store gateway \<Rightarrow> bool" where
  "machine_ok c g \<longleftrightarrow> cluster_ok c g \<and>
     wf_mem_store (g_store g) \<and> (\<exists>h. predictor_after (cc_predictor c) h (g_predictor g))"

definition gw_ok :: "cluster_config \<Rightarrow> mem_store gateway \<times> job multiset \<Rightarrow> bool" where
  "gw_ok c = (\<lambda>(g, J). machine_ok c g \<and> jobs_ok g J)"

lemma cluster_ok_replica:
  assumes "cluster_ok c g" "i < length (g_replicas g)"
  shows "wf_replica (g_replicas g ! i)" "code_policy (policy (g_replicas g ! i))"
    "rep_id (g_replicas g ! i) = int i" "hw (g_replicas g ! i) = hardware c"
    "gpu_tokens (g_replicas g ! i) \<le> gpu_cache_tokens (hardware c)"
  using assms wf_clusterD [of "g_replicas g" i] by (auto simp: cluster_ok_def)

lemma cluster_ok_update:
  assumes ok: "cluster_ok c g" "i < length (g_replicas g)"
    and r: "wf_replica r" "code_policy (policy r)" "rep_id r = int i" "hw r = hardware c"
      "gpu_tokens r \<le> gpu_cache_tokens (hardware c)"
  shows "cluster_ok c (g\<lparr>g_replicas := (g_replicas g)[i := r]\<rparr>)"
proof -
  have "0 < gpu_cache_tokens (hardware c)"
    using wf_clusterD(4) [of "g_replicas g" i] ok cluster_ok_replica(4) [OF ok] by (auto simp: cluster_ok_def)
  then have "wf_cluster ((g_replicas g)[i := r])"
    using ok r by (intro wf_cluster_update) (simp_all add: cluster_ok_def)
  with ok(1) r show ?thesis by (auto simp: cluster_ok_def dest!: set_update_subset_insert [THEN subsetD])
qed

lemma machine_ok_replica:
  assumes "machine_ok c g" "i < length (g_replicas g)"
  shows "wf_replica (g_replicas g ! i)" "code_policy (policy (g_replicas g ! i))"
    "rep_id (g_replicas g ! i) = int i" "hw (g_replicas g ! i) = hardware c"
    "gpu_tokens (g_replicas g ! i) \<le> gpu_cache_tokens (hardware c)"
  using assms cluster_ok_replica [of c g i] by (simp_all add: machine_ok_def)

lemma gpu_tokens_frame [simp]:
  "gpu_tokens (slot_enter r) = gpu_tokens r" "gpu_tokens (slot_exit r) = gpu_tokens r"
  "gpu_tokens (prune now r) = gpu_tokens r"
  by (simp_all add: gpu_tokens_def slot_enter_def slot_exit_def prune_def Let_def)

lemma slot_frame [simp]:
  "hw (slot_enter r) = hw r" "policy (slot_enter r) = policy r" "rep_id (slot_enter r) = rep_id r"
  "hw (slot_exit r) = hw r" "policy (slot_exit r) = policy r" "rep_id (slot_exit r) = rep_id r"
  "hw (prune now r) = hw r" "policy (prune now r) = policy r" "rep_id (prune now r) = rep_id r"
  by (simp_all add: slot_enter_def slot_exit_def prune_def Let_def)

lemma cluster_ok_slots:
  assumes "cluster_ok c g" "i < length (g_replicas g)"
  shows "cluster_ok c (enter_slot i g)" "cluster_ok c (leave_slot i g)"
  unfolding enter_slot_def leave_slot_def
  by (rule cluster_ok_update [OF assms];
      use cluster_ok_replica [OF assms] in \<open>simp add: wf_slot_enter wf_slot_exit\<close>)+

lemma slot_store [simp]:
  "g_store (enter_slot i g) = g_store g" "g_store (leave_slot i g) = g_store g"
  "g_predictor (enter_slot i g) = g_predictor g" "g_predictor (leave_slot i g) = g_predictor g"
  by (simp_all add: enter_slot_def leave_slot_def)

lemma machine_ok_slots:
  assumes "machine_ok c g" "i < length (g_replicas g)"
  shows "machine_ok c (enter_slot i g)" "machine_ok c (leave_slot i g)"
  using assms by (simp_all add: machine_ok_def cluster_ok_slots)

lemma gw_select_metrics: "gw_select ops clocks sid now g = (res, g') \<Longrightarrow> g_metrics g' = g_metrics g"
  by (auto simp: gw_select_def split: gw_router.splits sum.splits prod.splits)

lemma cluster_ok_schedule:
  assumes "cluster_ok c g" "schedule ops clocks sid tool now g = (res, g')"
  shows "cluster_ok c g'" "length (g_replicas g') = length (g_replicas g)"
    "res = Inr (i, gap) \<Longrightarrow> i < length (g_replicas g)"
proof -
  have reps: "g_replicas g' = map (prune now) (g_replicas g)" by (rule schedule_frame(1) [OF assms(2)])
  moreover have "\<forall>m \<in> set (g_metrics g'). m \<in> set (g_metrics g) \<or> counter_ok m"
    using assms(2) by (auto simp: schedule_def Let_def dest!: gw_select_metrics split: prod.splits sum.splits)
  ultimately show "cluster_ok c g'" using assms(1) by (auto simp: cluster_ok_def wf_cluster_def wf_prune)
  show "length (g_replicas g') = length (g_replicas g)" by (simp add: reps)
  show "res = Inr (i, gap) \<Longrightarrow> i < length (g_replicas g)"
    using schedule_frame(2) [OF assms(2)] assms(1) by (auto simp: cluster_ok_def wf_cluster_def)
qed

lemma cluster_ok_record:
  assumes "cluster_ok c g"
  shows "cluster_ok c (snd (record_result ops clock sid res now g))"
proof -
  have "\<forall>m \<in> set (g_metrics (snd (record_result ops clock sid res now g))). m \<in> set (g_metrics g) \<or> counter_ok m"
    using observe_result_typed [of _ res] by (auto simp: record_result_def Let_def split: prod.split sum.split)
  with assms show ?thesis by (auto simp: cluster_ok_def)
qed

lemma jobs_ok_simps [simp]:
  "jobs_ok g {#}"
  "jobs_ok g (add_mset j J) \<longleftrightarrow> valid_call (j_call j) \<and> j_replica j < length (g_replicas g) \<and>
     (\<forall>res. j_phase j = Yielding res \<longrightarrow> 0 \<le> reused_tokens res \<and> 0 \<le> computed_tokens res) \<and> jobs_ok g J"
  by (auto simp: jobs_ok_def)

lemma jobs_ok_length: "length (g_replicas g') = length (g_replicas g) \<Longrightarrow> jobs_ok g' J = jobs_ok g J"
  by (simp add: jobs_ok_def)

text \<open>
  A backend is sound when what it returns of a call with token counts that are not negative keeps the
  replica's invariant and counts no negative number of tokens. The simulated backend is; the vLLM
  adapter is as long as no worker reports a negative count.
\<close>

locale sound_backend = gateway_backend +
  assumes exec_sound:
    "exec w r sid pt ot now ret = Inr (res, r') \<Longrightarrow> wf_replica r \<Longrightarrow> code_policy (policy r) \<Longrightarrow> 0 \<le> pt \<Longrightarrow> 0 \<le> ot \<Longrightarrow>
     wf_replica r' \<and> gpu_tokens r' \<le> gpu_cache_tokens (hw r') \<and> 0 \<le> reused_tokens res \<and> 0 \<le> computed_tokens res"
begin

lemma exec_served:
  assumes ok: "cluster_ok c g" "i < length (g_replicas g)" and call: "valid_call cl"
    and ex: "exec w (g_replicas g ! i) (c_sid cl) (c_prompt cl) (c_max cl) now ret = Inr (res, r')"
  shows "cluster_ok c (g\<lparr>g_replicas := (g_replicas g)[i := r']\<rparr>)"
    "0 \<le> reused_tokens res" "0 \<le> computed_tokens res"
proof -
  note r = cluster_ok_replica [OF ok]
  have n: "0 \<le> c_prompt cl" "0 \<le> c_max cl" using call by (simp_all add: valid_call_def)
  note sound = exec_sound [OF ex r(1,2) n(1,2)]
  have "hw r' = hw (g_replicas g ! i) \<and> policy r' = policy (g_replicas g ! i) \<and> rep_id r' = rep_id (g_replicas g ! i)"
    using serving_backend.exec_frame [OF exec_serving ex] by simp
  with r sound show "cluster_ok c (g\<lparr>g_replicas := (g_replicas g)[i := r']\<rparr>)"
    by (intro cluster_ok_update [OF ok]) simp_all
  from sound show "0 \<le> reused_tokens res" "0 \<le> computed_tokens res" by simp_all
qed

lemma finish_call_ok:
  assumes ok: "cluster_ok c g" "i < length (g_replicas g)" and call: "valid_call cl"
    and run: "finish_call ops (exec w) clock i cl now gap g = (out, g')"
  shows "cluster_ok c g' \<and> length (g_replicas g') = length (g_replicas g)"
proof (cases "exec w (g_replicas g ! i) (c_sid cl) (c_prompt cl) (c_max cl) now (now + gap)")
  case (Inl e)
  with run cluster_ok_slots(2) [OF ok] show ?thesis by (auto simp: finish_call_def)
next
  case (Inr a)
  obtain res r' where a: "a = (res, r')" by fastforce
  let ?g = "leave_slot i (g\<lparr>g_replicas := (g_replicas g)[i := r']\<rparr>)"
  have "g' = snd (record_result ops clock (c_sid cl) res now ?g)"
    using run Inr a by (auto simp: finish_call_def split: prod.splits sum.splits)
  moreover have "cluster_ok c ?g" using exec_served(1) [OF ok call] Inr a ok(2) by (intro cluster_ok_slots) simp_all
  ultimately show ?thesis using cluster_ok_record by simp
qed

lemma resume_stream_ok:
  assumes "cluster_ok c g" "i < length (g_replicas g)" "resume_stream ops clock i cl now res g = (events, g')"
  shows "cluster_ok c g' \<and> length (g_replicas g') = length (g_replicas g)"
  using resume_stream_frame [of ops clock i cl now res g] cluster_ok_record [OF cluster_ok_slots(2) [OF assms(1,2)]] assms(3)
  by simp

lemma stream_response_ok:
  assumes ok: "cluster_ok c g" "i < length (g_replicas g)" and call: "valid_call cl"
    and run: "stream_response ops clock i cl model now chunks
      (exec w (g_replicas g ! i) (c_sid cl) (c_prompt cl) (c_max cl) now (now + gap)) g = (events, g')"
  shows "cluster_ok c g' \<and> length (g_replicas g') = length (g_replicas g)"
proof (cases "exec w (g_replicas g ! i) (c_sid cl) (c_prompt cl) (c_max cl) now (now + gap)")
  case (Inl e)
  with run cluster_ok_slots(2) [OF ok] show ?thesis by (auto simp: stream_response_def)
next
  case (Inr a)
  obtain res r' where a: "a = (res, r')" by fastforce
  let ?g = "g\<lparr>g_replicas := (g_replicas g)[i := r']\<rparr>"
  obtain ends where ends: "resume_stream ops clock i cl now res ?g = (ends, g')"
    using run Inr a by (auto simp: stream_response_def Let_def split: prod.splits)
  moreover have "cluster_ok c ?g" using exec_served(1) [OF ok call] Inr a by simp
  ultimately show ?thesis using resume_stream_ok [OF _ _ ends, of c] ok(2) by simp
qed

lemma budget_step:
  assumes "gw_step ops exec valid_call st st'" "budget_ok c st"
  shows "budget_ok c st'"
  using assms
proof (induction rule: gw_step.induct)
  case (admit cl clocks now g i gap g' J)
  then show ?case
    using cluster_ok_schedule [OF _ admit(3), of c] cluster_ok_slots(1) [of c g' i]
    by (simp add: budget_ok_def jobs_ok_length [of "enter_slot i g'" g])
next
  case (admit_stream cl clocks now g i gap g' J)
  then show ?case
    using cluster_ok_schedule [OF _ admit_stream(3), of c]
    by (simp add: budget_ok_def jobs_ok_length [of g' g])
next
  case (refuse cl clocks now g e g' J)
  then show ?case
    using cluster_ok_schedule(1,2) [OF _ refuse(2), of c]
    by (simp add: budget_ok_def jobs_ok_length [of g' g])
next
  case (start j g J)
  then show ?case using cluster_ok_slots(1) [of c g "j_replica j"] by (simp add: budget_ok_def jobs_ok_length [of "enter_slot _ g" g])
next
  case (finish j w clock g out g' J)
  then show ?case using finish_call_ok [OF _ _ _ finish(3), of c] by (simp add: budget_ok_def jobs_ok_length [of g' g])
next
  case (finish_stream j outcome w g clock model chunks events g' J)
  then show ?case
    using stream_response_ok [of c g "j_replica j" "j_call j" ops clock model "j_now j" chunks w "j_gap j" events g']
    by (simp add: budget_ok_def jobs_ok_length [of g' g])
next
  case (serve j w g res r' J)
  then show ?case
    using exec_served [OF _ _ _ serve(4), of c] by (simp add: budget_ok_def jobs_ok_length [of "g\<lparr>g_replicas := _\<rparr>" g])
next
  case (resume j res clock g events g' J)
  then show ?case using resume_stream_ok [OF _ _ resume(2), of c] by (simp add: budget_ok_def jobs_ok_length [of g' g])
next
  case (upstream_failure j g J)
  then show ?case using cluster_ok_slots(2) [of c g "j_replica j"] by (simp add: budget_ok_def jobs_ok_length [of "leave_slot _ g" g])
next
  case (cancel j g J)
  then show ?case using cluster_ok_slots(2) [of c g "j_replica j"] by (simp add: budget_ok_def jobs_ok_length [of "leave_slot _ g" g])
next
  case (cancel_queued j g J)
  then show ?case by (simp add: budget_ok_def)
qed

end

lemma sim_execute_sound:
  assumes "sim_execute h r sid pt ot now ret = Inr (res, r')" "wf_replica r" "code_policy (policy r)" "0 \<le> pt" "0 \<le> ot"
  shows "wf_replica r' \<and> gpu_tokens r' \<le> gpu_cache_tokens (hw r') \<and> 0 \<le> reused_tokens res \<and> 0 \<le> computed_tokens res"
proof -
  from sim.exec_total [OF assms(2-5)] obtain res2 r2 where "sim_execute h r sid pt ot now ret = Inr (res2, r2)"
    "wf_replica r2" "gpu_tokens r2 \<le> gpu_cache_tokens (hw r2)" "0 \<le> reused_tokens res2" "0 \<le> computed_tokens res2" by blast
  with assms(1) show ?thesis by simp
qed

interpretation sim_sound: sound_backend "\<lambda>w. sim_execute h" for h
  by unfold_locales (rule sim_execute_sound)

definition sane_report :: "worker_report \<Rightarrow> bool" where
  \<comment> \<open>no token count the worker reports is negative\<close>
  "sane_report w \<longleftrightarrow>
     (case usage_counts (wr_usage w) 0 0 of Inl e \<Rightarrow> True
      | Inr (cached, prompt, completion) \<Rightarrow> 0 \<le> cached \<and> 0 \<le> prompt \<and> 0 \<le> completion)"

lemma int_field_fallback:
  assumes "int_field x key d = Inr n" "0 \<le> d"
  shows "\<exists>m. int_field x key 0 = Inr m \<and> (0 \<le> m \<longrightarrow> 0 \<le> n)"
  using assms by (auto simp: int_field_def json_or_def json_get_def split: sum.splits json.splits option.splits if_splits)

lemma sane_counts:
  assumes "sane_report w" "usage_counts (wr_usage w) pt ot = Inr (cached, prompt, completion)" "0 \<le> pt" "0 \<le> ot"
  shows "0 \<le> cached \<and> 0 \<le> prompt \<and> 0 \<le> completion"
proof -
  obtain d where d: "json_get (wr_usage w) ''prompt_tokens_details'' JNull = Inr d"
    "int_field (json_or d (JDict [])) ''cached_tokens'' 0 = Inr cached"
    "int_field (wr_usage w) ''prompt_tokens'' pt = Inr prompt" "int_field (wr_usage w) ''completion_tokens'' ot = Inr completion"
    using assms(2) by (auto simp: usage_counts_def split: sum.splits)
  obtain p0 c0 where "int_field (wr_usage w) ''prompt_tokens'' 0 = Inr p0" "0 \<le> p0 \<longrightarrow> 0 \<le> prompt"
    "int_field (wr_usage w) ''completion_tokens'' 0 = Inr c0" "0 \<le> c0 \<longrightarrow> 0 \<le> completion"
    using int_field_fallback [OF d(3) assms(3)] int_field_fallback [OF d(4) assms(4)] by blast
  with assms(1) d(1,2) show ?thesis by (simp add: sane_report_def usage_counts_def)
qed

lemma vllm_result_sound:
  assumes "sane_report w" "vllm_result w r sid pt ot now ret = Inr (res, r')"
    and r: "wf_replica r" "code_policy (policy r)" and n: "0 \<le> pt" "0 \<le> ot"
  shows "wf_replica r' \<and> gpu_tokens r' \<le> gpu_cache_tokens (hw r') \<and> 0 \<le> reused_tokens res \<and> 0 \<le> computed_tokens res"
proof -
  obtain cached prompt completion where u: "usage_counts (wr_usage w) pt ot = Inr (cached, prompt, completion)"
    and st: "store sid (prompt + completion) (now + wr_elapsed_ms w) ret r = Inr r'"
    and res: "reused_tokens res = cached" "computed_tokens res = max 0 (prompt - cached)"
    using assms(2) by (auto simp: vllm_result_def split: sum.splits prod.splits)
  have "0 \<le> cached" "0 \<le> prompt + completion" using sane_counts [OF assms(1) u n] by simp_all
  with store_wf [OF r this(2), of sid "now + wr_elapsed_ms w" ret] st res show ?thesis by auto
qed

lemma vllm_sound: "\<forall>w. sane_report (reports w) \<Longrightarrow> sound_backend (\<lambda>w. vllm_result (reports w))"
  by unfold_locales (rule vllm_result_sound, erule spec, assumption+)

lemma sound_backends:
  assumes "exec = (\<lambda>w. sim_execute h) \<or> exec = (\<lambda>w. vllm_result (reports w)) \<and> (\<forall>w. sane_report (reports w))"
  shows "sound_backend exec"
  using assms by (elim disjE conjE) (simp_all add: sim_sound.sound_backend_axioms vllm_sound)

lemma learn_return_total:
  assumes "predictor_after pc h p"
  shows "\<exists>p' h'. learn_return sid tool now last_seen p = Inr p' \<and> predictor_after pc h' p'"
proof (cases last_seen)
  case None
  with assms show ?thesis by (auto simp: learn_return_def)
next
  case (Some t)
  obtain p' where "observe sid tool (max 0 (now - t)) p = Inr p'"
    using observe_total [of "max 0 (now - t)" sid tool p] by auto
  with observe_after [OF assms this] Some show ?thesis by (auto simp: learn_return_def)
qed

text \<open>Over any store that keeps the laws, scheduling and recording succeed.\<close>

context session_store_laws
begin

definition routable :: "cluster_config \<Rightarrow> 's gateway \<Rightarrow> bool" where
  \<comment> \<open>what scheduling needs\<close>
  "routable c g \<longleftrightarrow> wf_cluster (g_replicas g) \<and> inv (g_store g) \<and>
     (\<exists>h. predictor_after (cc_predictor c) h (g_predictor g))"

lemma gw_select_total:
  assumes "wf_cluster (g_replicas g)" "inv (g_store g)"
  shows "\<exists>i rt s. gw_select ops clocks sid now g = (Inr i, g\<lparr>g_router := rt, g_store := s\<rparr>) \<and>
    i < length (g_replicas g) \<and> inv s"
proof (cases "g_router g")
  case (GAffinity ar)
  from select_total [OF assms(2,1), of sid now clocks ar] obtain i ar' s'
    where "affinity_select ops (g_replicas g) sid now clocks ar (g_store g) = (Inr i, ar', s')"
      "i < length (g_replicas g)" "inv s'" by blast
  with GAffinity show ?thesis by (auto simp: gw_select_def)
next
  case (GRoundRobin rr)
  with assms obtain i rr' where "rr_select (g_replicas g) rr = Inr (i, rr')" "i < length (g_replicas g)"
    by (auto simp: rr_select_def wf_cluster_def)
  with GRoundRobin assms(2) show ?thesis
    by (intro exI [of _ i] exI [of _ "GRoundRobin rr'"] exI [of _ "g_store g"]) (simp add: gw_select_def)
qed

lemma schedule_routable:
  assumes ok: "routable c g" and c: "wf_predictor_config (cc_predictor c)"
  shows "\<exists>i gap g' outcome. schedule ops clocks sid tool now g = (Inr (i, gap), g') \<and> routable c g' \<and>
    i < length (g_replicas g) \<and> g_replicas g' = map (prune now) (g_replicas g) \<and>
    g_metrics g' = g_metrics g @ [Inc ''agentserve_affinity_decisions_total'' [(''outcome'', outcome)] 1]"
proof -
  let ?reps = "map (prune now) (g_replicas g)"
  have reps: "wf_cluster ?reps" and store: "inv (g_store g)"
    using ok by (auto simp: routable_def wf_cluster_def wf_prune)
  from get_seen_law [OF store, of "fst clocks" sid] obtain s
    where s: "get_last_seen ops (fst clocks) sid (g_store g) = (Inr (seen_at (fst clocks) (g_store g) sid), s)"
      "inv s" by blast
  obtain h where "predictor_after (cc_predictor c) h (g_predictor g)" using ok by (auto simp: routable_def)
  from learn_return_total [OF this, of sid tool now "seen_at (fst clocks) (g_store g) sid"] obtain p h'
    where p: "learn_return sid tool now (seen_at (fst clocks) (g_store g) sid) (g_predictor g) = Inr p"
      "predictor_after (cc_predictor c) h' p" by blast
  let ?g3 = "g\<lparr>g_replicas := ?reps, g_store := s, g_predictor := p\<rparr>"
  from gw_select_total [of ?g3 "snd clocks" sid now] reps s(2) obtain i rt s'
    where g4: "gw_select ops (snd clocks) sid now ?g3 = (Inr i, ?g3\<lparr>g_router := rt, g_store := s'\<rparr>)"
      "i < length (g_replicas g)" "inv s'" by auto
  have "0 < min_observations (cc_predictor c)" using c by (simp add: wf_predictor_config_def)
  from predict_after [OF p(2) this, of sid tool] obtain gap p'
    where "predict_ms sid tool p = Inr (gap, p')" "predictor_after (cc_predictor c) h' p'" by blast
  with g4 s(1) p(1) reps show ?thesis by (auto simp: schedule_def Let_def routable_def)
qed

lemma record_result_store:
  assumes "inv (g_store g)" "storable (now + latency_ms res)" and n: "0 \<le> reused_tokens res" "0 \<le> computed_tokens res"
  shows "\<exists>s. record_result ops clock sid res now g = (Inr (), g\<lparr>g_metrics := g_metrics g @ fst (observe_result res) @
      [Inc ''agentserve_cache_actions_total'' [(''action'', tier_value (rr_tier res))] 1], g_store := s\<rparr>) \<and>
    inv s"
  using set_seen_law [OF assms(1,2), of clock sid] observe_result_whole [OF n]
  by (cases "observe_result res") (auto simp: record_result_def)

end

context roomy_store
begin

lemma schedule_spares:
  assumes s: "inv (g_store g)" "roomy P (g_store g)" "sid \<in> P"
    and sched: "schedule ops (t1, t2, t3) sid tool now g = (Inr r, g')" and t: "t1 \<le> t" "t2 \<le> t"
  shows "roomy P (g_store g') \<and> spares t sid (g_store g) (g_store g')"
proof -
  obtain s1 where s1: "get_last_seen ops t1 sid (g_store g) = (Inr (seen_at t1 (g_store g) sid), s1)" "inv s1"
    using get_seen_law [OF s(1), of t1 sid] by blast
  have spared: "roomy P s1" "spares t sid (g_store g) s1"
    using roomy_get_seen [OF s(1,2), of t1 sid] spares_later [OF get_seen_spares [OF s(1), of t1 sid] t(1)] s1(1) by simp_all
  have "g_store g' = s1 \<or>
      (\<exists>ar res ar'. affinity_select ops (map (prune now) (g_replicas g)) sid now (t2, t3) ar s1 = (res, ar', g_store g'))"
    using sched s1(1)
    by (auto simp: schedule_def gw_select_def Let_def split: sum.splits prod.splits gw_router.splits)
  then show ?thesis
    using spared t(2) select_spares [OF s1(2) spared(1) s(3), where clocks = "(t2, t3)" and t = t] by (auto intro: spares_trans)
qed

end

lemma schedule_total:
  assumes ok: "machine_ok c g" and c: "wf_cluster_config c"
  shows "\<exists>i gap g'. schedule mem_ops clocks sid tool now g = (Inr (i, gap), g') \<and> machine_ok c g' \<and>
    i < length (g_replicas g) \<and> length (g_replicas g') = length (g_replicas g)"
proof -
  have "mem.routable c g" using ok by (simp add: machine_ok_def cluster_ok_def mem.routable_def)
  moreover have "wf_predictor_config (cc_predictor c)" using c by (simp add: wf_cluster_config_def)
  ultimately obtain i gap g' where sched: "schedule mem_ops clocks sid tool now g = (Inr (i, gap), g')" "mem.routable c g'"
    using mem.schedule_routable by blast
  have "cluster_ok c g" using ok by (simp add: machine_ok_def)
  from cluster_ok_schedule [OF this sched(1)] sched show ?thesis by (auto simp: machine_ok_def mem.routable_def)
qed

lemma record_result_total:
  assumes ok: "machine_ok c g" and res: "0 \<le> reused_tokens res" "0 \<le> computed_tokens res"
  shows "\<exists>g'. record_result mem_ops clock sid res now g = (Inr (), g') \<and> machine_ok c g' \<and>
    g_replicas g' = g_replicas g \<and> g_predictor g' = g_predictor g"
proof -
  have "wf_mem_store (g_store g)" "cluster_ok c g" using ok by (simp_all add: machine_ok_def)
  with mem.record_result_store [OF _ _ res, where g = g and now = now and sid = sid and clock = clock] cluster_ok_record [of c g mem_ops clock sid res now] ok
  show ?thesis by (auto simp: machine_ok_def)
qed

text \<open>What a request does leaves the store in memory well formed and the predictor alone.\<close>

definition kept_store :: "mem_store gateway \<Rightarrow> mem_store gateway \<Rightarrow> bool" where
  "kept_store g g' \<longleftrightarrow> (wf_mem_store (g_store g) \<longrightarrow> wf_mem_store (g_store g')) \<and> g_predictor g' = g_predictor g"

lemma record_keeps_store: "kept_store g (snd (record_result mem_ops clock sid res now g))"
  using mem.set_seen_law [where s = "g_store g" and x = "now + latency_ms res" and t = clock and k = sid]
  by (auto simp: kept_store_def record_result_def Let_def split: prod.split sum.split)

lemma machine_ok_kept: "machine_ok c g \<Longrightarrow> kept_store g g' \<Longrightarrow> cluster_ok c g' \<Longrightarrow> machine_ok c g'"
  by (simp add: machine_ok_def kept_store_def)

lemma resume_keeps_store: "resume_stream mem_ops clock i cl now res g = (events, g') \<Longrightarrow> kept_store g g'"
  using resume_stream_frame [of mem_ops clock i cl now res g] record_keeps_store [of "leave_slot i g" clock "c_sid cl" res now]
  by (simp add: kept_store_def)

lemma finish_keeps_store: "finish_call mem_ops exec clock i cl now gap g = (out, g') \<Longrightarrow> kept_store g g'"
  using record_keeps_store [of "leave_slot i (g\<lparr>g_replicas := rs\<rparr>)" clock "c_sid cl" res now for rs res]
  by (auto simp: finish_call_def kept_store_def split: sum.splits prod.splits) (metis snd_conv)+

lemma stream_keeps_store: "stream_response mem_ops clock i cl model now chunks outcome g = (events, g') \<Longrightarrow> kept_store g g'"
  using resume_keeps_store [of clock i cl now res "g\<lparr>g_replicas := rs\<rparr>" ends g' for res rs ends]
  by (auto simp: stream_response_def Let_def kept_store_def split: sum.splits prod.splits)

context sound_backend
begin

lemma gw_ok_step:
  assumes step: "gw_step mem_ops exec valid_call st st'" and ok: "gw_ok c st" and c: "wf_cluster_config c"
  shows "gw_ok c st'"
proof -
  have "budget_ok c st" using ok by (auto simp: gw_ok_def budget_ok_def machine_ok_def)
  from budget_step [OF step this] have budget: "cluster_ok c (fst st')" "jobs_ok (fst st') (snd st')"
    by (simp_all add: budget_ok_def case_prod_beta)
  have m: "machine_ok c (fst st)" using ok by (simp add: gw_ok_def case_prod_beta)
  have sched: "machine_ok c g'" if "schedule mem_ops clocks sid tool now (fst st) = (r, g')" for clocks sid tool now r g'
    using schedule_total [OF m c, of clocks sid tool now] that by auto
  from step have "machine_ok c (fst st')"
    using m budget(1) sched
  proof (induction rule: gw_step.induct)
    case (admit cl clocks now g i gap g' J)
    then show ?case by (auto simp: machine_ok_def)
  next
    case (finish j w clock g out g' J)
    then show ?case using finish_keeps_store [OF finish(3)] machine_ok_kept by simp
  next
    case (finish_stream j outcome w g clock model chunks events g' J)
    then show ?case using stream_keeps_store [OF finish_stream(4)] machine_ok_kept by simp
  next
    case (resume j res clock g events g' J)
    then show ?case using resume_keeps_store [OF resume(2)] machine_ok_kept by simp
  qed (auto simp: machine_ok_def)
  with budget(2) show ?thesis by (simp add: gw_ok_def case_prod_beta)
qed

lemma gw_ok_run:
  assumes "gw_reachable mem_ops exec valid_call g0 st" "gw_ok c (g0, {#})" "wf_cluster_config c"
  shows "gw_ok c st"
  using assms by (induction rule: gw_reachable.induct) (auto intro: gw_ok_step)

lemma budget_run:
  assumes "gw_reachable ops exec valid_call g0 st" "budget_ok c (g0, {#})"
  shows "budget_ok c st"
  using assms by (induction rule: gw_reachable.induct) (auto intro: budget_step)

end

text \<open>One call of the simulated backend, up to its slot and its record.\<close>

lemma sim_exec_ok:
  assumes ok: "machine_ok c g" "i < length (g_replicas g)" and call: "valid_call cl"
  shows "\<exists>res r'. sim_execute (hardware c) (g_replicas g ! i) (c_sid cl) (c_prompt cl) (c_max cl) now ret = Inr (res, r') \<and>
    machine_ok c (leave_slot i (g\<lparr>g_replicas := (g_replicas g)[i := r']\<rparr>)) \<and>
    0 \<le> reused_tokens res \<and> 0 \<le> computed_tokens res"
proof -
  note r = machine_ok_replica [OF ok]
  have n: "0 \<le> c_prompt cl" "0 \<le> c_max cl" using call by (simp_all add: valid_call_def)
  obtain res r' where ex: "sim_execute (hardware c) (g_replicas g ! i) (c_sid cl) (c_prompt cl) (c_max cl) now ret = Inr (res, r')"
    using sim.exec_total [OF r(1,2) n] by blast
  have "cluster_ok c g" using ok(1) by (simp add: machine_ok_def)
  note served = sim_sound.exec_served [OF this ok(2) call ex]
  then have "machine_ok c (leave_slot i (g\<lparr>g_replicas := (g_replicas g)[i := r']\<rparr>))"
    using ok by (intro machine_ok_slots) (simp_all add: machine_ok_def)
  with ex served show ?thesis by blast
qed

lemma finish_call_total:
  assumes ok: "machine_ok c g" "i < length (g_replicas g)" and call: "valid_call cl"
  shows "\<exists>res g'. finish_call mem_ops (sim_execute (hardware c)) clock i cl now gap g = (Inr res, g') \<and>
    machine_ok c g' \<and> length (g_replicas g') = length (g_replicas g)"
proof -
  obtain res r' where ex: "sim_execute (hardware c) (g_replicas g ! i) (c_sid cl) (c_prompt cl) (c_max cl) now (now + gap) = Inr (res, r')"
    and g1: "machine_ok c (leave_slot i (g\<lparr>g_replicas := (g_replicas g)[i := r']\<rparr>))"
    and res: "0 \<le> reused_tokens res" "0 \<le> computed_tokens res"
    using sim_exec_ok [OF assms] by blast
  from record_result_total [OF g1 res, of clock "c_sid cl" now] ex show ?thesis
    by (auto simp: finish_call_def)
qed

lemma gw_ok_create:
  assumes c: "wf_cluster_config c" and s: "wf_mem_store s"
  shows "gw_ok c (create_gateway c rk pk s, {#})"
proof -
  have hw: "wf_hardware (hardware c)" "0 < cc_replicas c" using c by (simp_all add: wf_cluster_config_def)
  have "code_policy (if pk = ''adaptive'' then adaptive_policy (cc_policy c) else lru_policy)" by simp
  from wf_build_replicas [OF hw(2,1) this] hw(1) s show ?thesis
    by (auto simp: gw_ok_def machine_ok_def cluster_ok_def create_gateway_def build_replicas_def new_replica_def
        gpu_tokens_def wf_hardware_def intro: new_predictor_after)
qed

lemma budget_ok_create: "wf_cluster_config c \<Longrightarrow> budget_ok c (create_gateway c rk pk s, {#})"
proof -
  assume "wf_cluster_config c"
  then have "gw_ok c (create_gateway c rk pk default_mem_store, {#})"
    by (rule gw_ok_create) (simp add: default_mem_store_def)
  then show ?thesis by (simp add: gw_ok_def budget_ok_def machine_ok_def cluster_ok_def create_gateway_def)
qed

lemma gw_ok_reachable:
  assumes "gw_reachable mem_ops (\<lambda>w. sim_execute (hardware c)) valid_call (create_gateway c rk pk s) st"
    and "wf_cluster_config c" "wf_mem_store s"
  shows "gw_ok c st"
  using sim_sound.gw_ok_run [OF assms(1) gw_ok_create [OF assms(2,3)] assms(2)] .

lemma create_gateway_idle:
  "length (g_replicas (create_gateway c rk pk s)) = nat (cc_replicas c)"
  "i < nat (cc_replicas c) \<Longrightarrow> active (g_replicas (create_gateway c rk pk s) ! i) = 0 \<and>
     pending (g_replicas (create_gateway c rk pk s) ! i) = []"
  by (simp_all add: create_gateway_def build_replicas_def new_replica_def)

lemma create_gateway_started:
  assumes "0 < cc_replicas c"
  shows "g_replicas (create_gateway c rk pk s) \<noteq> []"
    "\<forall>i < length (g_replicas (create_gateway c rk pk s)).
      active (g_replicas (create_gateway c rk pk s) ! i) = 0 \<and> pending (g_replicas (create_gateway c rk pk s) ! i) = []"
  using assms create_gateway_idle(1) [of c rk pk s] create_gateway_idle(2) [of _ c rk pk s] by auto

lemma default_replicas: "0 < cc_replicas default_cluster_config"
  by (simp add: default_cluster_config_def)

subsection \<open>Properties\<close>

text \<open>
  C2: No slot leaks and none is counted twice. Whatever the order in which requests are admitted,
  started, served, resumed, finished, failed or cancelled by their clients, with either backend and any session
  store, the in-flight count the router sees on a replica is exactly the number of requests being
  served there, those whose stream waits at a yield included; in particular it is zero when nothing is being served.
\<close>

theorem slots_never_leak:
  assumes "gw_reachable ops exec valid (create_gateway c rk pk s) (g, J)"
    and "exec = vllm_result \<or> exec = (\<lambda>w. sim_execute h)"
    and "0 < cc_replicas c" and "i < length (g_replicas g)"
  shows "inflight (g_replicas g ! i) = int (size (filter_mset (\<lambda>j. j_phase j \<noteq> Queued \<and> j_replica j = i) J))"
proof -
  note g0 = create_gateway_started [OF assms(3), of rk pk s]
  have "slots_ok (g, J)"
    using assms(1,2) vllm_gateway.slots_reachable [OF _ g0] sim_gateway.slots_reachable [OF _ g0] by blast
  with assms(4) show ?thesis by (simp add: slots_ok_def running_on_def inflight_def)
qed

definition example_call :: "bool \<Rightarrow> call" where
  "example_call st = \<lparr>c_sid = ''s0'', c_tool = Some ''grep'', c_messages = [], c_prompt = 900, c_max = 64,
     c_stream = st, c_body = JDict []\<rparr>"

lemma example_in_flight:
  "\<exists>g i gap. gw_reachable mem_ops (\<lambda>w. sim_execute (hardware default_cluster_config)) valid_call
      (create_gateway default_cluster_config ''affinity'' ''adaptive'' default_mem_store)
      (g, {#\<lparr>j_replica = i, j_phase = Running, j_call = example_call False, j_now = 100, j_gap = gap\<rparr>#}) \<and>
    i < length (g_replicas g)"
proof -
  let ?g0 = "create_gateway default_cluster_config ''affinity'' ''adaptive'' default_mem_store"
  have "gw_ok default_cluster_config (?g0, {#})"
    by (rule gw_ok_create) (simp_all add: wf_default_cluster_config default_mem_store_def)
  then have "machine_ok default_cluster_config ?g0" by (simp add: gw_ok_def)
  from schedule_total [OF this wf_default_cluster_config, of "(1, 1, 1)" "''s0''" "Some ''grep''" 100]
  obtain i gap g' where "schedule mem_ops (1, 1, 1) ''s0'' (Some ''grep'') 100 ?g0 = (Inr (i, gap), g')"
    and i: "i < length (g_replicas g')" by auto
  then have "gw_step mem_ops (\<lambda>w. sim_execute (hardware default_cluster_config)) valid_call (?g0, {#})
      (enter_slot i g', {#\<lparr>j_replica = i, j_phase = Running, j_call = example_call False, j_now = 100, j_gap = gap\<rparr>#})"
    by (intro gw_step.admit [of valid_call "example_call False" mem_ops "(1, 1, 1)" 100 ?g0])
      (simp_all add: example_call_def valid_call_def)
  with gw_reachable.step [OF gw_reachable.init] i show ?thesis by fastforce
qed

lemma slots_never_leak_witness:
  "\<exists>g :: mem_store gateway. \<exists>i < length (g_replicas g). inflight (g_replicas g ! i) = 1"
proof -
  obtain g i gap where r: "gw_reachable mem_ops (\<lambda>w :: worker_report. sim_execute (hardware default_cluster_config)) valid_call
      (create_gateway default_cluster_config ''affinity'' ''adaptive'' default_mem_store)
      (g :: mem_store gateway, {#\<lparr>j_replica = i, j_phase = Running, j_call = example_call False, j_now = 100, j_gap = gap\<rparr>#})"
    and i: "i < length (g_replicas g)" using example_in_flight by blast
  from slots_never_leak [OF r disjI2 [OF refl] default_replicas i] i show ?thesis by auto
qed



text \<open>
  C4: The cluster stays within its budgets at every moment. In every state the gateway can reach from startup,
  requests in flight included, with any session store, whether it answers or fails, and with the simulated backend or the
  vLLM adapter, every replica keeps its invariant on the configured hardware, its GPU and its host
  memory hold no more tokens than they can, and no metrics counter was ever decremented. Two things are
  assumed which the code does not check: the requests that are admitted ask for a \<open>max_tokens\<close> that is not
  negative, and no worker reports a negative token count. The accounting does not survive the first.
\<close>

theorem cluster_stays_within_budget:
  assumes "gw_reachable ops exec valid_call (create_gateway c rk pk s) (g, J)"
    and backend: "exec = (\<lambda>w. sim_execute (hardware c)) \<or>
      exec = (\<lambda>w. vllm_result (reports w)) \<and> (\<forall>w. sane_report (reports w))"
    and "wf_cluster_config c"
  shows "(\<forall>r \<in> set (g_replicas g). wf_replica r \<and> hw r = hardware c \<and>
      gpu_tokens r \<le> gpu_cache_tokens (hardware c) \<and> dram_tokens r \<le> dram_cache_tokens (hardware c)) \<and>
    (\<forall>m \<in> set (g_metrics g). counter_ok m)"
proof -
  have "sound_backend exec" by (rule sound_backends [OF backend])
  then have ok: "cluster_ok c g"
    using sound_backend.budget_run [OF _ assms(1) budget_ok_create [OF assms(3)]] by (simp add: budget_ok_def)
  then have "wf_replica r \<and> hw r = hardware c" if "r \<in> set (g_replicas g)" for r
    using that by (metis in_set_conv_nth cluster_ok_replica(1,4))
  with ok show ?thesis using wf_replicaD(3) by (fastforce simp: cluster_ok_def)
qed

lemma cluster_stays_within_budget_witness:
  "\<exists>g :: mem_store gateway. \<exists>i < length (g_replicas g). inflight (g_replicas g ! i) \<noteq> 0 \<and>
     wf_replica (g_replicas g ! i) \<and> gpu_tokens (g_replicas g ! i) \<le> 150000"
proof -
  obtain g i gap where r: "gw_reachable mem_ops (\<lambda>w :: worker_report. sim_execute (hardware default_cluster_config))
      valid_call (create_gateway default_cluster_config ''affinity'' ''adaptive'' default_mem_store)
      (g :: mem_store gateway, {#\<lparr>j_replica = i, j_phase = Running, j_call = example_call False, j_now = 100, j_gap = gap\<rparr>#})"
    and i: "i < length (g_replicas g)" using example_in_flight by blast
  have "inflight (g_replicas g ! i) \<noteq> 0"
    using sim_gateway.slots_reachable [OF r create_gateway_started [OF default_replicas]] i
    by (simp add: slots_ok_def inflight_def)
  with cluster_stays_within_budget [OF r disjI1 [OF refl] wf_default_cluster_config] i show ?thesis
    by (intro exI [of _ g]) (auto simp: default_cluster_config_def default_hardware_def)
qed

text \<open>
  C13: The predictor learns the real gaps. When a session's response was recorded and the session
  is still remembered, its next request teaches the predictor exactly one observation: the time
  from the end of that response to the new request, clamped at zero, under the tool the request
  names; and the gap the scheduler returns is the one the history including it predicts.
\<close>

theorem next_request_teaches_the_gap:
  assumes ok: "machine_ok c g" "predictor_after (cc_predictor c) h (g_predictor g)"
    and c: "wf_cluster_config c" and res: "0 \<le> reused_tokens res" "0 \<le> computed_tokens res"
    and recorded: "record_result mem_ops t0 sid res now0 g = (out, g1)"
    and later: "fst clocks \<le> t0 + ttl_s (g_store g)"
  shows "\<exists>i gap g2. schedule mem_ops clocks sid tool now1 g1 = (Inr (i, gap), g2) \<and>
    predictor_after (cc_predictor c) (h @ [(sid, tool, max 0 (now1 - (now0 + latency_ms res)))]) (g_predictor g2) \<and>
    gap = predict_spec (cc_predictor c) (h @ [(sid, tool, max 0 (now1 - (now0 + latency_ms res)))]) sid tool"
proof -
  let ?gap = "max 0 (now1 - (now0 + latency_ms res))"
  have wf: "wf_mem_store (g_store g)" using ok(1) by (simp add: machine_ok_def)
  from mem.set_seen_law [OF wf, of t0 sid "now0 + latency_ms res"] obtain s
    where s: "set_last_seen mem_ops t0 sid (now0 + latency_ms res) (g_store g) = (Inr (), s)" "wf_mem_store s"
      "mem_seen_at (fst clocks) s sid = Some (now0 + latency_ms res)" using later by blast
  have g1: "g1 = g\<lparr>g_metrics := g_metrics g @ fst (observe_result res) @
      [Inc ''agentserve_cache_actions_total'' [(''action'', tier_value (rr_tier res))] 1], g_store := s\<rparr>"
    using recorded s(1) observe_result_whole [OF res] by (cases "observe_result res") (simp add: record_result_def)
  let ?g2 = "g1\<lparr>g_replicas := map (prune now1) (g_replicas g1)\<rparr>"
  have reps: "wf_cluster (g_replicas ?g2)" using ok(1) by (auto simp: g1 machine_ok_def cluster_ok_def wf_cluster_def wf_prune)
  from mem.get_seen_law [OF s(2), of "fst clocks" sid] obtain s'
    where s': "get_last_seen mem_ops (fst clocks) sid s = (Inr (Some (now0 + latency_ms res)), s')" "wf_mem_store s'"
    using s(3) by auto
  obtain p where p: "observe sid tool ?gap (g_predictor g) = Inr p"
    using observe_total [of ?gap sid tool "g_predictor g"] by auto
  note after = observe_after [OF ok(2) p]
  let ?g3 = "?g2\<lparr>g_store := s', g_predictor := p\<rparr>"
  from mem.gw_select_total [of ?g3 "snd clocks" sid now1] reps s'(2) obtain i rt s2
    where g4: "gw_select mem_ops (snd clocks) sid now1 ?g3 = (Inr i, ?g3\<lparr>g_router := rt, g_store := s2\<rparr>)" by auto
  have "0 < min_observations (cc_predictor c)" using c by (simp add: wf_cluster_config_def wf_predictor_config_def)
  from predict_after [OF after this, of sid tool] g4 s'(1) p show ?thesis
    by (auto simp: schedule_def Let_def learn_return_def g1)
qed

lemma next_request_teaches_the_gap_witness:
  "\<exists>g :: mem_store gateway. \<exists>g1 i gap g2.
    record_result mem_ops 10 ''s'' \<lparr>rr_session_id = ''s'', rr_replica_id = 0, rr_tier = MISS, reused_tokens = 0,
      computed_tokens = 9, prefill_ms = 3, decode_ms = 4, queue_ms = 0, restore_ms = 0, rr_text = JStr [],
      completion_tokens = 0\<rparr> 1000 g = (Inr (), g1) \<and>
    schedule mem_ops (11, 11, 11) ''s'' (Some ''grep'') 1107 g1 = (Inr (i, gap), g2) \<and>
    predictor_after default_predictor_config [(''s'', Some ''grep'', 100)] (g_predictor g2)"
proof -
  let ?c = default_cluster_config and ?g = "create_gateway default_cluster_config ''affinity'' ''adaptive'' default_mem_store"
  let ?res = "\<lparr>rr_session_id = ''s'', rr_replica_id = 0, rr_tier = MISS, reused_tokens = 0,
      computed_tokens = 9, prefill_ms = 3, decode_ms = 4, queue_ms = 0, restore_ms = 0, rr_text = JStr [],
      completion_tokens = 0\<rparr>"
  have "gw_ok ?c (?g, {#})"
    by (rule gw_ok_create) (simp_all add: wf_default_cluster_config default_mem_store_def)
  then have ok: "machine_ok ?c ?g" by (simp add: gw_ok_def)
  have after: "predictor_after (cc_predictor ?c) [] (g_predictor ?g)" by (simp add: create_gateway_def)
  obtain g1 where g1: "record_result mem_ops 10 ''s'' ?res 1000 ?g = (Inr (), g1)"
    using record_result_total [OF ok, of ?res 10 "''s''" 1000] by auto
  have "fst (11, 11, 11 :: real) \<le> 10 + ttl_s (g_store ?g)"
    by (simp add: create_gateway_def default_mem_store_def new_mem_store_def)
  from next_request_teaches_the_gap [OF ok after wf_default_cluster_config _ _ g1 this, of "Some ''grep''" 1107]
  obtain i gap g2 where "schedule mem_ops (11, 11, 11) ''s'' (Some ''grep'') 1107 g1 = (Inr (i, gap), g2)"
    "predictor_after (cc_predictor ?c) [(''s'', Some ''grep'', 100)] (g_predictor g2)"
    by (auto simp: latency_ms_def)
  moreover have "cc_predictor ?c = default_predictor_config" by (simp add: default_cluster_config_def)
  ultimately show ?thesis using g1 by (simp only:) blast
qed

definition authorized :: "string option \<Rightarrow> http_request \<Rightarrow> bool" where
  "authorized key rq \<longleftrightarrow>
     (case key of None \<Rightarrow> True | Some k \<Rightarrow> rq_authorization rq = Some (''Bearer '' @ k))"

lemma require_api_key_cases:
  "require_api_key key rq =
     (if authorized key rq then Inr () else Inl (Rejected 401 ''invalid or missing bearer token''))"
  by (simp add: require_api_key_def authorized_def split: option.split)

text \<open>
  C16: Every request is classified as the API documents, or crashes in a known way. A request is
  refused with 401 exactly when a key is configured and the bearer token is not it; otherwise
  with 400 for a missing, empty or long session id, a body that is not JSON, or messages that are
  not a non-empty array. The only exceptions left unhandled are a body that is not an object, a
  \<open>max_tokens\<close> that is not a number, and messages that are not objects. An accepted call has a
  session id of 1 to 256 characters and counts at least four tokens per message.
\<close>

theorem requests_are_classified:
  "case read_call key tk rq of
     Inr c \<Rightarrow>
       authorized key rq \<and>
       rq_session_id rq = Some (c_sid c) \<and> 1 \<le> length (c_sid c) \<and> length (c_sid c) \<le> 256 \<and>
       c_messages c \<noteq> [] \<and> (\<forall>m \<in> set (c_messages c). is_object m) \<and>
       4 * int (length (c_messages c)) \<le> c_prompt c \<and> rq_body rq = Inr (c_body c) \<and>
       json_get (c_body c) ''messages'' JNull = Inr (JList (c_messages c))
   | Inl (Rejected status detail) \<Rightarrow>
       (status = 401 \<longleftrightarrow> \<not> authorized key rq) \<and>
       (status \<noteq> 401 \<longrightarrow> status = 400 \<and>
          (rq_session_id rq = None \<or> rq_session_id rq = Some [] \<or>
           (\<exists>sid. rq_session_id rq = Some sid \<and> 256 < length sid) \<or> isl (rq_body rq) \<or>
           (\<exists>body v. rq_body rq = Inr body \<and> json_get body ''messages'' JNull = Inr v \<and>
              (\<forall>m ms. v \<noteq> JList (m # ms)))))
   | Inl (Unhandled e) \<Rightarrow>
       (\<exists>body. rq_body rq = Inr body \<and>
          ((\<forall>d. body \<noteq> JDict d) \<and> e = AttributeError \<or>
           (\<exists>m. json_get body ''max_tokens'' (JInt 256) = Inr m \<and> json_int m = Inl e) \<or>
           (\<exists>ms. json_get body ''messages'' JNull = Inr (JList ms) \<and> e = AttributeError \<and>
              (\<exists>m \<in> set ms. \<not> is_object m))))"
proof (cases "authorized key rq")
  case False
  then show ?thesis by (simp add: read_call_def require_api_key_cases)
next
  case True
  then have auth: "require_api_key key rq = Inr ()" by (simp add: require_api_key_cases)
  show ?thesis
  proof (cases "check_session_id rq")
    case (Inl e)
    with auth True show ?thesis
      by (auto simp: read_call_def check_session_id_def split: option.splits if_splits)
  next
    case sid: (Inr sid)
    then have sid': "rq_session_id rq = Some sid" "1 \<le> length sid" "length sid \<le> 256"
      by (auto simp: check_session_id_def Suc_le_eq split: option.splits if_splits)
    show ?thesis
    proof (cases "rq_body rq")
      case (Inl e)
      with auth True sid show ?thesis by (auto simp: read_call_def)
    next
      case body: (Inr body)
      show ?thesis
      proof (cases "\<exists>d m ms. body = JDict d \<and> map_of d ''messages'' = Some (JList (m # ms))")
        case False
        with auth \<open>authorized key rq\<close> sid body show ?thesis
          by (cases body)
            (auto simp: read_call_def or_unhandled_def json_get_def check_messages_def
              split: option.splits json.splits list.splits)
      next
        case True
        then obtain d m ms where d: "body = JDict d" "map_of d ''messages'' = Some (JList (m # ms))" by blast
        have count: "count_messages tk (m # ms) =
            (if \<forall>x \<in> set (m # ms). is_object x then Inr (sum_list (map (message_tokens tk) (m # ms)))
             else Inl AttributeError)" by (rule count_messages_sum) simp
        show ?thesis
          using auth \<open>authorized key rq\<close> sid sid' body d count messages_at_least_four [of "m # ms" tk]
          by (cases "json_int (case map_of d ''max_tokens'' of None \<Rightarrow> JInt 256 | Some v \<Rightarrow> v)";
              cases "\<forall>x \<in> set (m # ms). is_object x")
            (auto simp: read_call_def or_unhandled_def check_messages_def)
      qed
    qed
  qed
qed

definition example_request :: http_request where
  "example_request =
     \<lparr>rq_authorization = Some ''Bearer nope'', rq_session_id = Some ''s'', rq_tool_name = None,
      rq_body = Inr (JDict [(''messages'', JList [user_message ''hi'']), (''max_tokens'', JNull)])\<rparr>"

lemma requests_are_classified_witness:
  "read_call (Some ''secret'') (new_tokenizer None ''x'') example_request =
     Inl (Rejected 401 ''invalid or missing bearer token'') \<and>
   read_call None (new_tokenizer None ''x'') example_request = Inl (Unhandled TypeError) \<and>
   \<not> authorized (Some ''secret'') example_request"
proof -
  have "read_call (Some ''secret'') (new_tokenizer None ''x'') example_request =
      Inl (Rejected 401 ''invalid or missing bearer token'')"
    by (simp add: read_call_def require_api_key_def example_request_def)
  moreover from requests_are_classified [where key = "Some ''secret''" and tk = "new_tokenizer None ''x''"
      and rq = example_request] this
  have "\<not> authorized (Some ''secret'') example_request" by simp
  moreover have "read_call None (new_tokenizer None ''x'') example_request = Inl (Unhandled TypeError)"
    by (simp add: read_call_def require_api_key_def check_session_id_def check_messages_def or_unhandled_def
        example_request_def)
  ultimately show ?thesis by blast
qed

fun event_text :: "sse \<Rightarrow> string" where
  "event_text (Data (JDict d)) =
     (case map_of d ''choices'' of
        Some (JList [JDict ch]) \<Rightarrow>
          (case map_of ch ''delta'' of
             Some (JDict delta) \<Rightarrow> (case map_of delta ''content'' of Some (JStr t) \<Rightarrow> t | _ \<Rightarrow> [])
           | _ \<Rightarrow> [])
      | _ \<Rightarrow> [])"
| "event_text _ = []"

fun names_role :: "sse \<Rightarrow> bool" where
  "names_role (Data (JDict d)) =
     (case map_of d ''choices'' of
        Some (JList [JDict ch]) \<Rightarrow>
          (case map_of ch ''delta'' of Some (JDict delta) \<Rightarrow> map_of delta ''role'' \<noteq> None | _ \<Rightarrow> False)
      | _ \<Rightarrow> False)"
| "names_role _ = False"

lemma delta_events_text:
  "concat (map event_text (delta_events (\<lambda>d. Data (envelope sid model now d JNull)) first (map JStr ts))) = concat ts"
  by (induction ts arbitrary: first) (simp_all add: envelope_def)

lemma length_delta_events [simp]: "length (delta_events wrap first ts) = length ts"
  by (induction wrap first ts rule: delta_events.induct) simp_all

lemma delta_events_role:
  "map names_role (delta_events (\<lambda>d. Data (envelope sid model now d JNull)) first ts) =
     (case ts of [] \<Rightarrow> [] | t # ts' \<Rightarrow> first # replicate (length ts') False)"
proof (induction ts arbitrary: first)
  case (Cons t ts)
  then show ?case by (cases ts) (simp_all add: envelope_def)
qed simp

text \<open>
  C27: A streaming client sees the worker's text and a proper end. When the worker's stream is read
  from start to end and the replica accounts for it, the events the client gets are one envelope
  per non-empty piece, only the first naming the role, then the session's statistics and the end
  marker; concatenated, the pieces are the text of the result.
\<close>

theorem streaming_client_sees_the_text:
  assumes good: "\<forall>ch \<in> set (stream_chunks loads lines). good_chunk ch"
    and whole: "broken = None \<or> ''[DONE]'' \<in> set (data_blobs lines)"
    and read: "astream loads watch elapsed lines broken = (chunks, Inr w)"
    and result: "vllm_result w r (c_sid c) (c_prompt c) (c_max c) now (now + gap) = Inr (res, r')"
    and recorded: "record_result ops clock (c_sid c) res now
      (leave_slot i (g\<lparr>g_replicas := (g_replicas g)[i := r']\<rparr>)) = (Inr (), g')"
  shows "\<exists>deltas. stream_response ops clock i c model now chunks (Inr (res, r')) g =
      (deltas @ [Data (final_event (c_sid c) now res), StreamDone], g') \<and>
    rr_text res = JStr (concat (map event_text deltas)) \<and>
    (\<forall>k < length deltas. names_role (deltas ! k) \<longleftrightarrow> k = 0)"
proof -
  let ?texts = "filter (\<lambda>t. t \<noteq> []) (map chunk_text (stream_chunks loads lines))"
  let ?deltas = "delta_events (\<lambda>d. Data (envelope (c_sid c) model now d JNull)) True chunks"
  obtain st where st: "read_lines loads watch lines broken \<lparr>ss_usage = JDict [], ss_ttft = 0, ss_chunks = []\<rparr> = (Inr (), st)"
    "ss_chunks st = map JStr ?texts"
    using read_lines_good [OF good, of watch broken "\<lparr>ss_usage = JDict [], ss_ttft = 0, ss_chunks = []\<rparr>"] whole
    by auto
  then have chunks: "chunks = map JStr ?texts" and w: "wr_text w = JStr (concat ?texts)"
    using read by (auto simp: astream_def join_text_strings)
  have "rr_text res = JStr (concat ?texts)"
    using result w by (auto simp: vllm_result_def split: sum.splits prod.splits)
  then have "rr_text res = JStr (concat (map event_text ?deltas))"
    unfolding chunks delta_events_text .
  moreover have "names_role (?deltas ! k) \<longleftrightarrow> k = 0" if "k < length ?deltas" for k
  proof -
    from that have "names_role (?deltas ! k) = map names_role ?deltas ! k" by simp
    also have "\<dots> = (k = 0)"
      using that unfolding delta_events_role by (cases chunks; cases k) auto
    finally show ?thesis .
  qed
  ultimately show ?thesis using recorded
    by (intro exI [of _ ?deltas]) (simp add: stream_response_def resume_stream_def)
qed

lemma streaming_client_sees_the_text_witness:
  "\<exists>deltas res r' g'. stream_response mem_ops 2 0 (example_call True) (JStr ''m'') 100 [JStr ''hi'', JStr ''hi'']
      (Inr (res, r')) (create_gateway default_cluster_config ''affinity'' ''lru'' default_mem_store) =
      (deltas @ [Data (final_event ''s0'' 100 res), StreamDone], g') \<and>
    rr_text res = JStr ''hihi'' \<and> JStr (concat (map event_text deltas)) = JStr ''hihi''"
proof -
  let ?g = "create_gateway default_cluster_config ''affinity'' ''lru'' default_mem_store"
  obtain ttft where read: "astream example_loads (\<lambda>k. 3) 9 example_lines None = ([JStr ''hi'', JStr ''hi''],
      Inr \<lparr>wr_usage = JDict [], wr_elapsed_ms = 9, wr_ttft_ms = ttft, wr_text = JStr ''hihi''\<rparr>)"
    using astream_good [of example_loads example_lines "\<lambda>k. 3" 9 None]
    by (auto simp: chunk_usage_def) (simp add: example_chunk_def)
  let ?w = "\<lparr>wr_usage = JDict [], wr_elapsed_ms = 9, wr_ttft_ms = ttft, wr_text = JStr ''hihi''\<rparr>"
  obtain r' where "store ''s0'' 964 109 105 (example_replica lru_policy) = Inr r'"
    using store_wf [of "example_replica lru_policy" 964 "''s0''" 109 105] by auto
  then have "\<exists>res. vllm_result ?w (example_replica lru_policy) ''s0'' 900 64 100 (100 + 5) = Inr (res, r') \<and>
      rr_text res = JStr ''hihi'' \<and> reused_tokens res = 0 \<and> computed_tokens res = 900"
    by (simp add: vllm_result_def usage_counts_def int_field_def)
  then obtain res where res: "vllm_result ?w (example_replica lru_policy) ''s0'' 900 64 100 (100 + 5) = Inr (res, r')"
    "rr_text res = JStr ''hihi''" "0 \<le> reused_tokens res" "0 \<le> computed_tokens res" by auto
  have st: "wf_mem_store (g_store (leave_slot 0 (?g\<lparr>g_replicas := (g_replicas ?g)[0 := r']\<rparr>)))"
    by (simp add: create_gateway_def leave_slot_def default_mem_store_def)
  obtain g' where rec: "record_result mem_ops 2 ''s0'' res 100
      (leave_slot 0 (?g\<lparr>g_replicas := (g_replicas ?g)[0 := r']\<rparr>)) = (Inr (), g')"
    using mem.record_result_store [OF st _ res(3,4), where clock = 2 and sid = "''s0''" and now = 100] by blast
  have c: "c_sid (example_call True) = ''s0''" "c_prompt (example_call True) = 900" "c_max (example_call True) = 64"
    by (simp_all add: example_call_def)
  have good: "\<forall>ch \<in> set (stream_chunks example_loads example_lines). good_chunk ch" by simp
  from streaming_client_sees_the_text [OF good _ read, of "example_replica lru_policy" "example_call True" 100 5 res r'
      mem_ops 2 0 ?g g' "JStr ''m''"] res(1,2) rec
  show ?thesis unfolding c by fastforce
qed

text \<open>
  Readiness reflects the dependencies. With the in-memory store and the vLLM adapter, and
  workers whose health does not change during the probe, the readiness endpoint answers 200
  exactly when at least one worker's health endpoint answers 200, and 503 otherwise; without a
  backend to probe it is always ready.
\<close>

lemma probe_all_steady:
  assumes "\<And>url h. fst (http_get api url h) = answer url"
  shows "fst (probe_all api es h) = map (\<lambda>e. answer (e @ ''/health'') = Inr 200) es"
proof (induction es arbitrary: h)
  case Nil
  show ?case by simp
next
  case (Cons e es)
  have live: "(case x of Inl err \<Rightarrow> False | Inr status \<Rightarrow> status = 200) \<longleftrightarrow> x = Inr 200" for x :: "py_error + int"
    by (cases x) auto
  obtain h1 where "http_get api (e @ ''/health'') h = (answer (e @ ''/health''), h1)"
    using assms [of "e @ ''/health''" h] by (metis prod.collapse)
  with Cons.IH [of h1] show ?case by (cases "probe_all api es h1") (simp add: Let_def live)
qed

theorem readiness_reflects_the_workers:
  assumes "\<forall>url h. fst (http_get api url h) = answer url"
  shows "fst (ready mem_ops (Some (aprobe api)) s b) =
      (if \<exists>e \<in> set (endpoints b). answer (e @ ''/health'') = Inr 200 then 200 else 503) \<and>
    fst (ready mem_ops None s b) = 200"
proof -
  have "fst (aprobe api b) \<longleftrightarrow> (\<exists>e \<in> set (endpoints b). answer (e @ ''/health'') = Inr 200)"
    using probe_all_steady [of api answer "endpoints b" "http b"] assms
    by (auto simp: aprobe_def Let_def split: prod.splits)
  moreover have "0 \<le> fst (store_size mem_ops s)" by (simp add: mem_ops_def mem_size_def)
  ultimately show ?thesis by (auto simp: ready_def Let_def split: prod.split)
qed

lemma readiness_reflects_the_workers_witness:
  "fst (ready mem_ops (Some (aprobe example_http)) default_mem_store example_vllm) = 200"
  using readiness_reflects_the_workers [of example_http "\<lambda>url. Inr 200" default_mem_store example_vllm]
  by (simp add: example_http_def example_vllm_def ex_disj_distrib)





end
