(* ===== verification/PyFormat.thy ===== *)
theory PyFormat
  imports PyText
begin

section \<open>Python's number formatting\<close>

text \<open>
  The format specifications the command-line tools use: \<open>.1%\<close>, \<open>,.0f\<close>, \<open>+.1f\<close> and \<open>,\<close> for numbers,
  \<open><30\<close> and \<open>>16\<close> for padding, and \<open>str\<close> of a float. A fixed-point format rounds the exact number to
  the nearest multiple of the last digit, half to even, and a negative number keeps its sign even
  when all its digits are zero. \<open>str_float\<close> is \<open>str\<close> of a finite decimal of at most 17 places from
  \<open>0.0001\<close> up to \<open>10 ^ 16\<close> (Python writes the others with an exponent). \<open>py_repr\<close> is \<open>repr\<close> of a
  string, which an f-string applies to the members of a list.
\<close>

subsection \<open>Digits\<close>

definition pad_zeros :: "nat \<Rightarrow> string \<Rightarrow> string" where
  "pad_zeros k s = replicate (k - length s) (CHR ''0'') @ s"

fun group_rev :: "string \<Rightarrow> string" where
  \<comment> \<open>a comma after every third digit, the last digit first\<close>
  "group_rev (a # b # c # d # ds) = a # b # c # CHR '','' # group_rev (d # ds)"
| "group_rev ds = ds"

definition group_digits :: "string \<Rightarrow> string" where
  "group_digits s = rev (group_rev (rev s))"

definition point_digits :: "bool \<Rightarrow> nat \<Rightarrow> nat \<Rightarrow> string" where
  \<comment> \<open>\<open>n\<close> units of the \<open>k\<close>-th decimal place\<close>
  "point_digits comma k n =
     (let whole = nat_digits (n div 10 ^ k)
      in (if comma then group_digits whole else whole) @
         (if k = 0 then [] else CHR ''.'' # pad_zeros k (nat_digits (n mod 10 ^ k))))"

definition units :: "nat \<Rightarrow> real \<Rightarrow> nat" where
  "units k x = nat (py_round (\<bar>x\<bar> * 10 ^ k))"

definition fmt_fixed :: "bool \<Rightarrow> bool \<Rightarrow> nat \<Rightarrow> real \<Rightarrow> string" where
  \<comment> \<open>\<open>f"{x:+,.kf}"\<close>, with or without the plus sign and the commas\<close>
  "fmt_fixed show_plus comma k x =
     (if x < 0 then ''-'' else if show_plus then ''+'' else []) @ point_digits comma k (units k x)"

definition fmt_percent :: "nat \<Rightarrow> real \<Rightarrow> string" where
  "fmt_percent k x = fmt_fixed False False k (x * 100) @ ''%''"

definition fmt_int :: "int \<Rightarrow> string" where
  \<comment> \<open>\<open>f"{i:,}"\<close>\<close>
  "fmt_int i = (if i < 0 then ''-'' else []) @ group_digits (nat_digits (nat \<bar>i\<bar>))"

definition ljust :: "nat \<Rightarrow> string \<Rightarrow> string" where
  "ljust w s = s @ replicate (w - length s) (CHR '' '')"

definition rjust :: "nat \<Rightarrow> string \<Rightarrow> string" where
  "rjust w s = replicate (w - length s) (CHR '' '') @ s"

subsection \<open>\<open>str\<close> of a float\<close>

definition integral :: "real \<Rightarrow> bool" where
  "integral x \<longleftrightarrow> x = real_of_int \<lfloor>x\<rfloor>"

definition decimals :: "real \<Rightarrow> nat" where
  \<comment> \<open>the places it takes to write the number, at least one\<close>
  "decimals x = (case List.find (\<lambda>k. integral (x * 10 ^ k)) [1..<18] of None \<Rightarrow> 17 | Some k \<Rightarrow> k)"

definition str_float :: "real \<Rightarrow> string" where
  "str_float x = fmt_fixed False False (decimals x) x"

subsection \<open>\<open>repr\<close> of a string and of a list of strings\<close>

definition is_printable :: "char \<Rightarrow> bool" where
  \<comment> \<open>\<open>str.isprintable\<close> of one of the first 256 characters\<close>
  "is_printable c \<longleftrightarrow> 32 \<le> code c \<and> code c < 127 \<or> 160 < code c \<and> code c \<noteq> 173"

definition hex_digit :: "nat \<Rightarrow> char" where
  "hex_digit n = ''0123456789abcdef'' ! n"

definition escape_char :: "char \<Rightarrow> char \<Rightarrow> string" where
  \<comment> \<open>between quotes of the given kind\<close>
  "escape_char quote c =
     (if c = quote \<or> code c = 92 then [CHR 0x5C, c]
      else if code c = 9 then [CHR 0x5C, CHR ''t'']
      else if code c = 10 then [CHR 0x5C, CHR ''n'']
      else if code c = 13 then [CHR 0x5C, CHR ''r'']
      else if is_printable c then [c]
      else [CHR 0x5C, CHR ''x'', hex_digit (code c div 16), hex_digit (code c mod 16)])"

definition quote_char :: "string \<Rightarrow> char" where
  \<comment> \<open>the apostrophe, unless the string has one and no double quote\<close>
  "quote_char s = (if CHR 0x27 \<in> set s \<and> CHR 0x22 \<notin> set s then CHR 0x22 else CHR 0x27)"

definition py_repr :: "string \<Rightarrow> string" where
  "py_repr s = quote_char s # concat (map (escape_char (quote_char s)) s) @ [quote_char s]"

fun comma_separated :: "string list \<Rightarrow> string" where
  "comma_separated [] = []"
| "comma_separated [w] = w"
| "comma_separated (w # v # ws) = w @ '', '' @ comma_separated (v # ws)"

definition repr_strings :: "string list \<Rightarrow> string" where
  "repr_strings ss = ''['' @ comma_separated (map py_repr ss) @ '']''"

definition str_bool :: "bool \<Rightarrow> string" where
  "str_bool b = (if b then ''True'' else ''False'')"

subsection \<open>Reading a formatted number back\<close>

lemma group_rev_filter: "\<forall>c \<in> set s. c \<noteq> CHR '','' \<Longrightarrow> filter (\<lambda>c. c \<noteq> CHR '','') (group_rev s) = s"
  by (induction s rule: group_rev.induct) auto

lemma group_digits_filter:
  "\<forall>c \<in> set s. c \<noteq> CHR '','' \<Longrightarrow> filter (\<lambda>c. c \<noteq> CHR '','') (group_digits s) = s"
  by (simp add: group_digits_def rev_filter [symmetric] group_rev_filter)

lemma length_pad_zeros: "length s \<le> k \<Longrightarrow> length (pad_zeros k s) = k"
  by (simp add: pad_zeros_def)

lemma length_nat_digits: "n < 10 ^ k \<Longrightarrow> 0 < k \<Longrightarrow> length (nat_digits n) \<le> k"
proof (induction k arbitrary: n)
  case (Suc k)
  show ?case
  proof (cases "n < 10")
    case True
    then show ?thesis by (subst nat_digits.simps) simp
  next
    case False
    then have "k \<noteq> 0" using Suc.prems by (cases k) simp_all
    moreover have "n div 10 < 10 ^ k" using Suc.prems by (simp add: less_mult_imp_div_less mult.commute)
    ultimately have "length (nat_digits (n div 10)) \<le> k" using Suc.IH by simp
    with False show ?thesis by (subst nat_digits.simps) simp
  qed
qed simp

lemma digits_not_comma: "c \<in> set (nat_digits n) \<Longrightarrow> c \<noteq> CHR '',''"
  using nat_digits_digits is_digit_facts(5) by blast

lemma zero_digit: "is_digit (CHR ''0'')" "digit_value (CHR ''0'') = 0"
  by (simp_all add: is_digit_def digit_value_def code_def)

lemma pad_zeros_digits: "c \<in> set (pad_zeros k (nat_digits n)) \<Longrightarrow> is_digit c"
  using nat_digits_digits zero_digit(1) by (auto simp: pad_zeros_def)

lemma pad_zeros_value: "parse_digits False 0 (pad_zeros k (nat_digits n)) = Some (int n)"
proof -
  have "foldl (\<lambda>a c. 10 * a + digit_value c) 0 (replicate m (CHR ''0'')) = 0" for m
    by (induction m) (simp_all add: zero_digit)
  then have "foldl (\<lambda>a c. 10 * a + digit_value c) 0 (pad_zeros k (nat_digits n)) = int n"
    by (simp add: pad_zeros_def nat_digits_value)
  then show ?thesis
    using parse_digits_append [of "pad_zeros k (nat_digits n)" False 0 "[]"] pad_zeros_digits
    by (auto simp: pad_zeros_def)
qed

lemma digit_run_digits:
  assumes "\<forall>c \<in> set s. is_digit c" and "t = [] \<or> \<not> is_digit (hd t) \<and> hd t \<noteq> CHR ''_''"
  shows "digit_run (s @ t) = (s, t)"
proof -
  have "takeWhile (\<lambda>c. is_digit c \<or> c = CHR ''_'') (s @ t) = s @ takeWhile (\<lambda>c. is_digit c \<or> c = CHR ''_'') t"
    "dropWhile (\<lambda>c. is_digit c \<or> c = CHR ''_'') (s @ t) = dropWhile (\<lambda>c. is_digit c \<or> c = CHR ''_'') t"
    using assms(1) by (simp_all add: takeWhile_append2 dropWhile_append2)
  moreover have "takeWhile (\<lambda>c. is_digit c \<or> c = CHR ''_'') t = []"
    "dropWhile (\<lambda>c. is_digit c \<or> c = CHR ''_'') t = t"
    using assms(2) by (cases t; simp)+
  ultimately show ?thesis by (simp add: digit_run_def)
qed

lemma digit_count_digits: "\<forall>c \<in> set s. is_digit c \<Longrightarrow> digit_count s = length s"
  by (simp add: digit_count_def)

lemma point_facts: "\<not> is_digit (CHR ''.'')" "CHR ''.'' \<noteq> CHR ''_''" "\<not> is_space (CHR ''.'')"
  by (simp_all add: is_digit_def is_space_def code_def)

lemma py_decimal_point: "py_decimal (point_digits False k n) = Some (real n / 10 ^ k)"
proof -
  let ?w = "nat_digits (n div 10 ^ k)" and ?f = "pad_zeros k (nat_digits (n mod 10 ^ k))"
  have w: "\<forall>c \<in> set ?w. is_digit c" using nat_digits_digits by blast
  show ?thesis
  proof (cases "k = 0")
    case True
    from digit_run_digits [OF w, of "[]"] have "digit_run ?w = (?w, [])" by simp
    with True show ?thesis
      by (simp add: py_decimal_def point_digits_def optional_digits_def parse_nat_digits py_exponent_def
          digit_count_def scale10_def)
  next
    case False
    have f: "\<forall>c \<in> set ?f. is_digit c" using pad_zeros_digits by blast
    have "length (nat_digits (n mod 10 ^ k)) \<le> k" using False by (intro length_nat_digits) simp_all
    then have len: "length ?f = k" by (rule length_pad_zeros)
    from len False have ne: "?f \<noteq> []" by auto
    from digit_run_digits [OF w, of "CHR ''.'' # ?f"] have r1: "digit_run (?w @ CHR ''.'' # ?f) = (?w, CHR ''.'' # ?f)"
      by (simp add: point_facts)
    from digit_run_digits [OF f, of "[]"] have r2: "digit_run ?f = (?f, [])" by simp
    have "real (n div m) * real m + real (n mod m) = real n" for m
      by (metis div_mult_mod_eq of_nat_add of_nat_mult)
    from this [of "10 ^ k"] have "real (n div 10 ^ k) + real (n mod 10 ^ k) / 10 ^ k = real n / 10 ^ k"
      by (simp add: field_simps)
    with False r1 r2 len ne digit_count_digits [OF f] show ?thesis
      by (simp add: py_decimal_def point_digits_def optional_digits_def parse_nat_digits pad_zeros_value
          py_exponent_def scale10_def)
  qed
qed

lemma filter_point_digits: "filter (\<lambda>c. c \<noteq> CHR '','') (point_digits comma k n) = point_digits False k n"
proof -
  have "filter (\<lambda>c. c \<noteq> CHR '','') (pad_zeros k (nat_digits m)) = pad_zeros k (nat_digits m)" for m
    using is_digit_facts(5) [OF pad_zeros_digits] by (auto simp: filter_id_conv)
  moreover have "filter (\<lambda>c. c \<noteq> CHR '','') (nat_digits m) = nat_digits m" for m
    using digits_not_comma by (auto simp: filter_id_conv)
  ultimately show ?thesis
    using group_digits_filter digits_not_comma by (auto simp: point_digits_def Let_def)
qed

lemma point_digits_ends:
  "point_digits False k n \<noteq> []" "is_digit (hd (point_digits False k n))" "is_digit (last (point_digits False k n))"
proof -
  let ?f = "pad_zeros k (nat_digits (n mod 10 ^ k))"
  have "?f \<noteq> []" by (simp add: pad_zeros_def)
  then have "last ?f \<in> set ?f" by (rule last_in_set)
  then have "is_digit (last ?f)" by (rule pad_zeros_digits)
  with \<open>?f \<noteq> []\<close> show "point_digits False k n \<noteq> []" "is_digit (hd (point_digits False k n))"
    "is_digit (last (point_digits False k n))"
    using nat_digits_ends by (auto simp: point_digits_def hd_append)
qed

lemma lower_not_word: "is_digit (hd s) \<Longrightarrow> s \<noteq> [] \<Longrightarrow> lower s \<notin> {''inf'', ''infinity'', ''nan''}"
proof -
  assume s: "is_digit (hd s)" "s \<noteq> []"
  then have "hd (lower s) = hd s" by (cases s) (auto simp: lower_def lower_char_def is_digit_def)
  moreover have "\<not> is_digit (CHR ''i'')" "\<not> is_digit (CHR ''n'')" by (simp_all add: is_digit_def code_def)
  ultimately show ?thesis using s by auto
qed

lemma py_float_point:
  assumes "s \<in> {[], ''+'', ''-''}"
  shows "py_float (s @ point_digits False k n) =
    Some ((if s = ''-'' then float_neg else id) (to_double_range (real n / 10 ^ k)))"
proof -
  let ?p = "point_digits False k n"
  note ends = point_digits_ends [of k n]
  have sp: "\<not> is_space (CHR ''+'')" "\<not> is_space (CHR ''-'')" by (simp_all add: is_space_def code_def)
  have "strip (s @ ?p) = s @ ?p"
    using assms ends sp is_digit_facts(1) by (intro strip_id) auto
  moreover obtain c cs where c: "?p = c # cs" using ends(1) by (cases ?p) auto
  have "py_sign (s @ ?p) = (if s = ''-'' then -1 else 1, ?p)"
    using assms c ends(2) is_digit_facts(3,4) [of c] by auto
  ultimately show ?thesis
    using lower_not_word [OF ends(2,1)] by (simp add: py_float_def py_decimal_point)
qed

lemma fmt_no_percent: "CHR ''%'' \<notin> set (fmt_fixed show_plus comma k x)"
proof
  assume "CHR ''%'' \<in> set (fmt_fixed show_plus comma k x)"
  then have "CHR ''%'' \<in> set (filter (\<lambda>c. c \<noteq> CHR '','') (point_digits comma k (units k x)))"
    by (auto simp: fmt_fixed_def split: if_splits)
  then have "CHR ''%'' \<in> set (point_digits False k (units k x))" by (simp only: filter_point_digits)
  then have "is_digit (CHR ''%'')"
    using nat_digits_digits pad_zeros_digits by (auto simp: point_digits_def split: if_splits)
  then show False by (simp add: is_digit_def code_def)
qed

text \<open>The value a fixed-point format shows.\<close>

definition shown :: "nat \<Rightarrow> real \<Rightarrow> real" where
  "shown k x = (if x < 0 then - (real (units k x) / 10 ^ k) else real (units k x) / 10 ^ k)"

lemma units_near: "\<bar>real (units k x) - \<bar>x\<bar> * 10 ^ k\<bar> \<le> 1 / 2"
proof -
  have "py_round (real_of_int 0) \<le> py_round (\<bar>x\<bar> * 10 ^ k)" by (rule py_round_mono) simp
  then have "0 \<le> py_round (\<bar>x\<bar> * 10 ^ k)" by (simp only: py_round_of_int)
  with py_round_near [of "\<bar>x\<bar> * 10 ^ k"] show ?thesis by (simp add: units_def)
qed

lemma shown_near: "\<bar>shown k x - x\<bar> \<le> 1 / 2 / 10 ^ k"
proof -
  have "real (units k x) / 10 ^ k - \<bar>x\<bar> = (real (units k x) - \<bar>x\<bar> * 10 ^ k) / 10 ^ k"
    by (simp add: diff_divide_distrib)
  then have "\<bar>real (units k x) / 10 ^ k - \<bar>x\<bar>\<bar> = \<bar>real (units k x) - \<bar>x\<bar> * 10 ^ k\<bar> / 10 ^ k"
    by (simp add: abs_divide)
  also have "\<dots> \<le> 1 / 2 / 10 ^ k" using units_near [of k x] by (intro divide_right_mono) simp_all
  finally show ?thesis by (auto simp: shown_def)
qed

lemma to_double_range_shown:
  assumes "k \<le> 300" "real n / 10 ^ k \<le> 10 ^ 300 + 1"
  shows "to_double_range (real n / 10 ^ k) = Finite (real n / 10 ^ k)"
proof -
  define B :: real where "B = (2 - 1 / 2 ^ 53) * 2 ^ 1023"
  define T :: real where "T = 2 ^ 1075"
  have B: "10 ^ 300 + 1 < B" "0 < B" by (simp_all add: B_def)
  have T: "10 ^ 300 < T" by (simp add: T_def)
  have small: "1 < real n / 10 ^ k * T" if "n \<noteq> 0"
  proof -
    have "(10 :: real) ^ k \<le> 10 ^ 300" using assms(1) by (intro power_increasing) simp_all
    also note T
    also have "T \<le> real n * T" using that T by (simp add: T_def)
    finally show ?thesis by (simp add: field_simps)
  qed
  have "\<not> B \<le> real n / 10 ^ k" using B(1) assms(2) by linarith
  moreover have "0 \<le> real n / 10 ^ k" by simp
  then have "\<not> real n / 10 ^ k \<le> - B" using B(2) by linarith
  moreover have "\<bar>real n / 10 ^ k\<bar> * T \<le> 1 \<Longrightarrow> n = 0" using small by fastforce
  ultimately show ?thesis
    unfolding to_double_range_def B_def [symmetric] T_def [symmetric] by (cases "n = 0") auto
qed

lemma fmt_fixed_reads_back:
  assumes "k \<le> 300" "\<bar>x\<bar> \<le> 10 ^ 300"
  shows "py_float (filter (\<lambda>c. c \<noteq> CHR '','') (fmt_fixed show_plus comma k x)) = Some (Finite (shown k x))"
proof -
  let ?s = "if x < 0 then ''-'' else if show_plus then ''+'' else []"
  have "1 / 2 / 10 ^ k \<le> 1 / 2 / (1 :: real)" by (rule divide_left_mono) simp_all
  also have "\<dots> \<le> 1" by simp
  finally have "1 / 2 / 10 ^ k \<le> (1 :: real)" .
  with shown_near [of k x] assms(2) have "\<bar>shown k x\<bar> \<le> 10 ^ 300 + 1" by linarith
  then have "to_double_range (real (units k x) / 10 ^ k) = Finite (real (units k x) / 10 ^ k)"
    using assms(1) by (intro to_double_range_shown) (auto simp: shown_def split: if_splits)
  moreover have "filter (\<lambda>c. c \<noteq> CHR '','') (fmt_fixed show_plus comma k x) = ?s @ point_digits False k (units k x)"
    by (simp add: fmt_fixed_def filter_point_digits)
  moreover have "py_float (?s @ point_digits False k (units k x)) =
      Some ((if ?s = ''-'' then float_neg else id) (to_double_range (real (units k x) / 10 ^ k)))"
    by (rule py_float_point) simp
  ultimately show ?thesis by (auto simp: shown_def float_neg_def)
qed

lemma shown_exact:
  assumes "integral (x * 10 ^ k)"
  shows "shown k x = x"
proof -
  obtain i where i: "x * 10 ^ k = real_of_int i" using assms unfolding integral_def by blast
  then have "\<bar>x\<bar> * 10 ^ k = real_of_int \<bar>i\<bar>" by (metis abs_mult abs_numeral of_int_abs power_abs)
  then have "real (units k x) = \<bar>x\<bar> * 10 ^ k" unfolding units_def by (simp only: py_round_of_int)
  then show ?thesis by (simp add: shown_def)
qed

lemma decimals_integral:
  assumes "integral (x * 10 ^ k)" "1 \<le> k" "k \<le> 17"
  shows "integral (x * 10 ^ decimals x)" and "decimals x \<le> 17"
proof -
  have "List.find (\<lambda>k. integral (x * 10 ^ k)) [1..<18] \<noteq> None"
    using assms unfolding find_None_iff by (fastforce simp: Suc_le_eq)
  then obtain j where j: "List.find (\<lambda>k. integral (x * 10 ^ k)) [1..<18] = Some j" by blast
  then have "integral (x * 10 ^ j) \<and> j \<in> set [1..<18]"
    unfolding find_Some_iff by (metis nth_mem)
  with j show "integral (x * 10 ^ decimals x)" "decimals x \<le> 17"
    by (auto simp: decimals_def)
qed

lemma str_float_reads_back:
  assumes "integral (x * 10 ^ k)" "1 \<le> k" "k \<le> 17" "\<bar>x\<bar> \<le> 10 ^ 300"
  shows "py_float (str_float x) = Some (Finite x)"
proof -
  have "filter (\<lambda>c. c \<noteq> CHR '','') (str_float x) = str_float x"
    by (simp add: str_float_def fmt_fixed_def filter_point_digits)
  moreover have "decimals x \<le> 300" using decimals_integral(2) [OF assms(1-3)] by simp
  ultimately show ?thesis
    using fmt_fixed_reads_back [of "decimals x" x False False] assms(4)
      shown_exact [OF decimals_integral(1) [OF assms(1-3)]] by (simp add: str_float_def)
qed

text \<open>Widths.\<close>

lemma length_just [simp]: "length (ljust w s) = max w (length s)" "length (rjust w s) = max w (length s)"
  by (simp_all add: ljust_def rjust_def)

end
