(* ===== verification/Redis_Store.thy ===== *)
theory Redis_Store
  imports Session_Store PyFormat
begin

section \<open>The session map in Redis\<close>

text \<open>
  \<open>RedisSessionStore\<close> and \<open>build_session_store\<close> of \<open>agentserve/state.py\<close>. With a client whose calls
  succeed and that reads back what was written, the Redis store satisfies the same laws as the
  in-memory store (locale \<open>redis_connection\<close>), and so does the store the application was built with,
  whichever of the two it is.
\<close>

subsection \<open>The store and its client\<close>

text \<open>
  The Redis client library is not part of the program: its methods are a record of functions
  over the client's own state \<open>'c\<close>, each returning an exception (any \<open>Exception\<close>) or a value.
  The code relies on the client encoding what it stores as text and decoding replies to
  strings (\<open>decode_responses=True\<close>). \<open>int(raw)\<close> and \<open>float(raw)\<close> stand outside the \<open>try\<close>.
\<close>

datatype client_error = ClientError string

datatype redis_value = RedisInt int | RedisFloat real

record 'c redis_client =
  client_get :: "string \<Rightarrow> 'c \<Rightarrow> (client_error + string option) \<times> 'c"
  client_set :: "string \<Rightarrow> redis_value \<Rightarrow> int \<Rightarrow> 'c \<Rightarrow> (client_error + unit) \<times> 'c"
  client_scan :: "string \<Rightarrow> int \<Rightarrow> 'c \<Rightarrow> (client_error + string list) \<times> 'c"
  client_close :: "'c \<Rightarrow> (client_error + unit) \<times> 'c"

record 'c redis_store =
  client :: 'c
  r_ttl :: int
  prefix :: string
  errors :: int

definition new_redis_store :: "'c \<Rightarrow> real \<Rightarrow> string \<Rightarrow> 'c redis_store" where
  "new_redis_store c lifetime pfx = \<lparr>client = c, r_ttl = py_trunc lifetime, prefix = pfx, errors = 0\<rparr>"

definition redis_key :: "string \<Rightarrow> string \<Rightarrow> 'c redis_store \<Rightarrow> string" where
  "redis_key kind sid s = prefix s @ '':'' @ kind @ '':'' @ sid"

definition failed_call :: "'c \<Rightarrow> 'c redis_store \<Rightarrow> 'c redis_store" where
  "failed_call c s = s\<lparr>client := c, errors := errors s + 1\<rparr>"

definition redis_get_home ::
  "'c redis_client \<Rightarrow> string \<Rightarrow> 'c redis_store \<Rightarrow> (py_error + int option) \<times> 'c redis_store" where
  "redis_get_home api sid s =
     (case client_get api (redis_key ''home'' sid s) (client s) of
        (Inl e, c) \<Rightarrow> (Inr None, failed_call c s)
      | (Inr None, c) \<Rightarrow> (Inr None, s\<lparr>client := c\<rparr>)
      | (Inr (Some raw), c) \<Rightarrow>
          (case py_int raw of
             None \<Rightarrow> (Inl ValueError, s\<lparr>client := c\<rparr>)
           | Some i \<Rightarrow> (Inr (Some i), s\<lparr>client := c\<rparr>)))"

definition redis_set_home ::
  "'c redis_client \<Rightarrow> string \<Rightarrow> int \<Rightarrow> 'c redis_store \<Rightarrow> (py_error + unit) \<times> 'c redis_store" where
  "redis_set_home api sid i s =
     (case client_set api (redis_key ''home'' sid s) (RedisInt i) (r_ttl s) (client s) of
        (Inl e, c) \<Rightarrow> (Inr (), failed_call c s)
      | (Inr _, c) \<Rightarrow> (Inr (), s\<lparr>client := c\<rparr>))"

definition redis_get_last_seen ::
  "'c redis_client \<Rightarrow> string \<Rightarrow> 'c redis_store \<Rightarrow> (py_error + pyfloat option) \<times> 'c redis_store" where
  "redis_get_last_seen api sid s =
     (case client_get api (redis_key ''seen'' sid s) (client s) of
        (Inl e, c) \<Rightarrow> (Inr None, failed_call c s)
      | (Inr None, c) \<Rightarrow> (Inr None, s\<lparr>client := c\<rparr>)
      | (Inr (Some raw), c) \<Rightarrow>
          (case py_float raw of
             None \<Rightarrow> (Inl ValueError, s\<lparr>client := c\<rparr>)
           | Some x \<Rightarrow> (Inr (Some x), s\<lparr>client := c\<rparr>)))"

definition redis_set_last_seen ::
  "'c redis_client \<Rightarrow> string \<Rightarrow> real \<Rightarrow> 'c redis_store \<Rightarrow> (py_error + unit) \<times> 'c redis_store" where
  "redis_set_last_seen api sid x s =
     (case client_set api (redis_key ''seen'' sid s) (RedisFloat x) (r_ttl s) (client s) of
        (Inl e, c) \<Rightarrow> (Inr (), failed_call c s)
      | (Inr _, c) \<Rightarrow> (Inr (), s\<lparr>client := c\<rparr>))"

definition redis_size :: "'c redis_client \<Rightarrow> 'c redis_store \<Rightarrow> int \<times> 'c redis_store" where
  "redis_size api s =
     (case client_scan api (prefix s @ '':home:*'') 1000 (client s) of
        (Inl e, c) \<Rightarrow> (-1, failed_call c s)
      | (Inr keys, c) \<Rightarrow> (int (length keys), s\<lparr>client := c\<rparr>))"

definition redis_close :: "'c redis_client \<Rightarrow> 'c redis_store \<Rightarrow> 'c redis_store" where
  "redis_close api s = s\<lparr>client := snd (client_close api (client s))\<rparr>"

datatype 'c built_store = MemoryStore mem_store | RedisStore "'c redis_store"

definition build_session_store ::
  "(string \<Rightarrow> client_error + 'c) \<Rightarrow> string option \<Rightarrow> real \<Rightarrow> int \<Rightarrow> client_error + 'c built_store" where
  \<comment> \<open>the first argument is \<open>Redis.from_url\<close> followed by \<open>ping\<close>\<close>
  "build_session_store connect url lifetime m =
     (case url of
        None \<Rightarrow> Inr (MemoryStore (new_mem_store m lifetime))
      | Some u \<Rightarrow>
          if u = [] then Inr (MemoryStore (new_mem_store m lifetime))
          else case connect u of
                 Inl e \<Rightarrow> Inl e
               | Inr c \<Rightarrow> Inr (RedisStore (new_redis_store c lifetime ''agentserve'')))"

lemma redis_set_home_cases:
  "redis_set_home api sid i s =
     (let (res, c) = client_set api (redis_key ''home'' sid s) (RedisInt i) (r_ttl s) (client s)
      in (Inr (), if isl res then failed_call c s else s\<lparr>client := c\<rparr>))"
  by (simp add: redis_set_home_def split: prod.split sum.split)

lemma redis_set_seen_cases:
  "redis_set_last_seen api sid x s =
     (let (res, c) = client_set api (redis_key ''seen'' sid s) (RedisFloat x) (r_ttl s) (client s)
      in (Inr (), if isl res then failed_call c s else s\<lparr>client := c\<rparr>))"
  by (simp add: redis_set_last_seen_def split: prod.split sum.split)

lemma redis_key_frame [simp]: "redis_key kind sid (s\<lparr>client := c\<rparr>) = redis_key kind sid s"
  by (simp add: redis_key_def)

subsection \<open>Sequences of calls to the store\<close>

datatype store_call = GetHome string | SetHome string int | GetSeen string | SetSeen string real | AskSize

datatype store_answer = HomeRead "py_error + int option" | SeenRead "py_error + pyfloat option" | Wrote "py_error + unit" | SizeIs int

fun redis_call :: "'c redis_client \<Rightarrow> store_call \<Rightarrow> 'c redis_store \<Rightarrow> store_answer \<times> 'c redis_store" where
  "redis_call api (GetHome sid) s = (let (r, s') = redis_get_home api sid s in (HomeRead r, s'))"
| "redis_call api (SetHome sid i) s = (let (r, s') = redis_set_home api sid i s in (Wrote r, s'))"
| "redis_call api (GetSeen sid) s = (let (r, s') = redis_get_last_seen api sid s in (SeenRead r, s'))"
| "redis_call api (SetSeen sid x) s = (let (r, s') = redis_set_last_seen api sid x s in (Wrote r, s'))"
| "redis_call api AskSize s = (let (n, s') = redis_size api s in (SizeIs n, s'))"

fun redis_calls :: "'c redis_client \<Rightarrow> store_call list \<Rightarrow> 'c redis_store \<Rightarrow> store_answer list \<times> 'c redis_store" where
  "redis_calls api [] s = ([], s)"
| "redis_calls api (call # calls) s =
     (let (x, s1) = redis_call api call s; (xs, s2) = redis_calls api calls s1 in (x # xs, s2))"

text \<open>
  What is promised of them, in terms of what the client replies: \<open>client_replies\<close> threads the
  client alone through the calls, and \<open>answer_to\<close> reads one reply.
\<close>

datatype client_reply = ClientRaised | ClientNil | ClientText string | ClientKeys "string list"

fun client_call :: "'c redis_client \<Rightarrow> string \<Rightarrow> int \<Rightarrow> store_call \<Rightarrow> 'c \<Rightarrow> client_reply \<times> 'c" where
  "client_call api pfx life (GetHome sid) c =
     map_prod (case_sum (\<lambda>e. ClientRaised) (case_option ClientNil ClientText)) id (client_get api (pfx @ '':home:'' @ sid) c)"
| "client_call api pfx life (GetSeen sid) c =
     map_prod (case_sum (\<lambda>e. ClientRaised) (case_option ClientNil ClientText)) id (client_get api (pfx @ '':seen:'' @ sid) c)"
| "client_call api pfx life (SetHome sid i) c =
     map_prod (case_sum (\<lambda>e. ClientRaised) (\<lambda>u. ClientNil)) id (client_set api (pfx @ '':home:'' @ sid) (RedisInt i) life c)"
| "client_call api pfx life (SetSeen sid x) c =
     map_prod (case_sum (\<lambda>e. ClientRaised) (\<lambda>u. ClientNil)) id (client_set api (pfx @ '':seen:'' @ sid) (RedisFloat x) life c)"
| "client_call api pfx life AskSize c =
     map_prod (case_sum (\<lambda>e. ClientRaised) ClientKeys) id (client_scan api (pfx @ '':home:*'') 1000 c)"

fun client_replies :: "'c redis_client \<Rightarrow> string \<Rightarrow> int \<Rightarrow> store_call list \<Rightarrow> 'c \<Rightarrow> client_reply list \<times> 'c" where
  "client_replies api pfx life [] c = ([], c)"
| "client_replies api pfx life (call # calls) c =
     (let (x, c1) = client_call api pfx life call c; (xs, c2) = client_replies api pfx life calls c1 in (x # xs, c2))"

fun read_text :: "(string \<Rightarrow> 'v option) \<Rightarrow> client_reply \<Rightarrow> py_error + 'v option" where
  "read_text parse (ClientText raw) = (case parse raw of None \<Rightarrow> Inl ValueError | Some v \<Rightarrow> Inr (Some v))"
| "read_text parse _ = Inr None"

fun answer_to :: "store_call \<Rightarrow> client_reply \<Rightarrow> store_answer" where
  "answer_to (GetHome sid) r = HomeRead (read_text py_int r)"
| "answer_to (GetSeen sid) r = SeenRead (read_text py_float r)"
| "answer_to (SetHome sid i) r = Wrote (Inr ())"
| "answer_to (SetSeen sid x) r = Wrote (Inr ())"
| "answer_to AskSize r = SizeIs (case r of ClientKeys ks \<Rightarrow> int (length ks) | _ \<Rightarrow> -1)"

lemma redis_call_answers:
  assumes "client_call api (prefix s) (r_ttl s) call (client s) = (r, c)"
  shows "redis_call api call s = (answer_to call r, s\<lparr>client := c, errors := errors s + (if r = ClientRaised then 1 else 0)\<rparr>)"
  using assms
  by (cases call)
    (auto simp: redis_get_home_def redis_get_last_seen_def redis_set_home_def redis_set_last_seen_def redis_size_def
      redis_key_def failed_call_def split: prod.splits sum.splits option.splits)

lemma redis_calls_answer:
  assumes "client_replies api (prefix s) (r_ttl s) calls (client s) = (rs, c)"
  shows "redis_calls api calls s =
    (map2 answer_to calls rs, s\<lparr>client := c, errors := errors s + int (count_list rs ClientRaised)\<rparr>)"
  using assms
proof (induction calls arbitrary: s rs)
  case (Cons call calls)
  obtain r c1 where one: "client_call api (prefix s) (r_ttl s) call (client s) = (r, c1)" by fastforce
  obtain rs' where rest: "client_replies api (prefix s) (r_ttl s) calls c1 = (rs', c)" "rs = r # rs'"
    using Cons.prems one by (auto split: prod.splits)
  from redis_call_answers [OF one] Cons.IH [of "s\<lparr>client := c1, errors := errors s + (if r = ClientRaised then 1 else 0)\<rparr>" rs'] rest
  show ?case by simp
qed simp

text \<open>
  C37: The Redis store degrades, it does not raise. Whatever the client does in the course of any
  sequence of reads and writes of homes and last-seen times and of size requests, the client gets the
  requests of these calls in order and nothing else, under the keys of the store's prefix and with its
  time to live; every write succeeds; a read the client fails is a miss, as is one it has nothing for, and a
  size request it fails answers -1; the error counter grows by exactly the number of client calls that
  raised. The one exception a call raises is \<open>ValueError\<close>, on a read to which the client answers with a text
  that is not a number.
\<close>

theorem redis_outage_is_a_miss:
  "case client_replies api (prefix s) (r_ttl s) calls (client s) of (replies, c) \<Rightarrow>
     redis_calls api calls s =
       (map2 answer_to calls replies, s\<lparr>client := c, errors := errors s + int (count_list replies ClientRaised)\<rparr>) \<and>
     length replies = length calls \<and>
     (\<forall>k < length calls. \<forall>e. answer_to (calls ! k) (replies ! k) \<in> {HomeRead (Inl e), SeenRead (Inl e), Wrote (Inl e)} \<longrightarrow>
        e = ValueError \<and> (\<exists>raw sid. replies ! k = ClientText raw \<and>
          (calls ! k = GetHome sid \<and> py_int raw = None \<or> calls ! k = GetSeen sid \<and> py_float raw = None)))"
proof -
  obtain replies c where r: "client_replies api (prefix s) (r_ttl s) calls (client s) = (replies, c)" by fastforce
  have "length replies = length calls" if "client_replies api pfx life cs c0 = (replies, c)" "cs = calls" for pfx life cs c0
    using that by (induction cs arbitrary: c0 replies calls) (auto split: prod.splits)
  then have len: "length replies = length calls" using r by blast
  have raises: "e = ValueError \<and> (\<exists>raw sid. reply = ClientText raw \<and>
      (call = GetHome sid \<and> py_int raw = None \<or> call = GetSeen sid \<and> py_float raw = None))"
    if "answer_to call reply \<in> {HomeRead (Inl e), SeenRead (Inl e), Wrote (Inl e)}" for call reply e
    using that by (cases call; cases reply) (auto split: option.splits)
  show ?thesis unfolding r by (simp only: prod.case redis_calls_answer [OF r] len) (use raises in blast)
qed

text \<open>A client that keeps a dictionary of texts, and one that is down.\<close>

definition dict_client :: "((string, string) dict) redis_client" where
  "dict_client =
     \<lparr>client_get = (\<lambda>k c. (Inr (map_of c k), c)),
      client_set = (\<lambda>k v ex c. if ex \<le> 0 then (Inl (ClientError ''invalid expire time''), c)
        else (Inr (), AList.update k (case v of RedisInt i \<Rightarrow> py_str_int i | RedisFloat x \<Rightarrow> str_float x) c)),
      client_scan = (\<lambda>pat n c. (Inr (dict_keys c), c)),
      client_close = (\<lambda>c. (Inr (), c))\<rparr>"

definition broken_client :: "unit redis_client" where
  "broken_client =
     \<lparr>client_get = (\<lambda>k c. (Inl (ClientError ''redis down''), c)),
      client_set = (\<lambda>k v ex c. (Inl (ClientError ''redis down''), c)),
      client_scan = (\<lambda>pat n c. (Inl (ClientError ''redis down''), c)),
      client_close = (\<lambda>c. (Inr (), c))\<rparr>"

lemma redis_outage_is_a_miss_witness:
  "redis_calls broken_client [GetHome ''s1'', SetSeen ''s1'' 7, GetSeen ''s1'', AskSize] (new_redis_store () 60 ''agentserve'') =
     ([HomeRead (Inr None), Wrote (Inr ()), SeenRead (Inr None), SizeIs (-1)],
      (new_redis_store () 60 ''agentserve'')\<lparr>errors := 4\<rparr>)"
  using redis_outage_is_a_miss [where api = broken_client and s = "new_redis_store () 60 ''agentserve''"
      and calls = "[GetHome ''s1'', SetSeen ''s1'' 7, GetSeen ''s1'', AskSize]"]
  by (simp add: broken_client_def new_redis_store_def)

text \<open>
  Gateways that share Redis agree. When one pod records a session's home and its client did
  not fail, every other pod with the same key prefix that reads through the same Redis gets the
  same replica back: the integer survives being stored as text. The client's contract is that a
  successful write of an integer is read back as its decimal text.
\<close>

theorem pods_sharing_redis_agree:
  assumes contract: "\<And>k i ex c c'. client_set api k (RedisInt i) ex c = (Inr (), c') \<Longrightarrow>
      fst (client_get api k c') = Inr (Some (py_str_int i))"
    and "prefix b = prefix a" and ok: "errors (snd (redis_set_home api sid i a)) = errors a"
  shows "fst (redis_get_home api sid (b\<lparr>client := client (snd (redis_set_home api sid i a))\<rparr>)) = Inr (Some i)"
proof -
  obtain res c where set: "client_set api (redis_key ''home'' sid a) (RedisInt i) (r_ttl a) (client a) = (res, c)"
    by fastforce
  then have "res = Inr ()"
    using ok by (cases res) (auto simp: redis_set_home_cases failed_call_def)
  then have "fst (client_get api (redis_key ''home'' sid a) c) = Inr (Some (py_str_int i))"
    using contract set by simp
  moreover have "client (snd (redis_set_home api sid i a)) = c"
    using set by (simp add: redis_set_home_cases failed_call_def)
  moreover have "redis_key ''home'' sid b = redis_key ''home'' sid a"
    using assms(2) by (simp add: redis_key_def)
  ultimately show ?thesis
    by (cases "client_get api (redis_key ''home'' sid a) c") (simp add: redis_get_home_def py_int_str)
qed

lemma pods_sharing_redis_agree_witness:
  "fst (redis_get_home dict_client ''task-42'' ((new_redis_store [] 60 ''agentserve'')
     \<lparr>client := client (snd (redis_set_home dict_client ''task-42'' 3 (new_redis_store [] 3600 ''agentserve'')))\<rparr>))
   = Inr (Some 3)"
  by (rule pods_sharing_redis_agree)
    (auto simp: dict_client_def new_redis_store_def redis_set_home_def py_trunc_def split: if_splits)

text \<open>
  A time to live below one second silently disables the shared map. The constructor
  truncates it to zero seconds, and since Redis rejects a non-positive expiry every write of a
  home fails inside the client, is swallowed and counted, and reports success to the caller.
\<close>

theorem subsecond_ttl_disables_redis:
  assumes "\<And>k v ex c. ex \<le> 0 \<Longrightarrow> isl (fst (client_set api k v ex c))"
    and "0 < lifetime" "lifetime < 1"
  shows "fst (redis_set_home api sid i (new_redis_store c lifetime pfx)) = Inr () \<and>
    errors (snd (redis_set_home api sid i (new_redis_store c lifetime pfx))) = 1"
proof -
  have "\<lfloor>lifetime\<rfloor> = 0" using assms(2,3) by (simp add: floor_eq_iff)
  then have "isl (fst (client_set api k v (r_ttl (new_redis_store c lifetime pfx)) c'))" for k v c'
    using assms(1,2) by (simp add: new_redis_store_def py_trunc_def)
  then show ?thesis
    by (auto simp: redis_set_home_cases failed_call_def Let_def split: prod.splits)
      (metis fst_conv new_redis_store_def redis_store.select_convs(4))+
qed

lemma subsecond_ttl_disables_redis_witness:
  "fst (redis_set_home dict_client ''s1'' 2 (new_redis_store [] (1 / 2) ''agentserve'')) = Inr () \<and>
    errors (snd (redis_set_home dict_client ''s1'' 2 (new_redis_store [] (1 / 2) ''agentserve''))) = 1"
  by (rule subsecond_ttl_disables_redis) (simp_all add: dict_client_def)

subsection \<open>The methods of the store, and of the store that was built\<close>

fun finite_reading :: "pyfloat option \<Rightarrow> real option" where
  \<comment> \<open>the gateway writes finite times only; a text like \<open>nan\<close> put there by something else is outside the model\<close>
  "finite_reading (Some (Finite x)) = Some x"
| "finite_reading _ = None"

definition redis_ops :: "'c redis_client \<Rightarrow> 'c redis_store session_store" where
  "redis_ops api =
     \<lparr>store_name = (\<lambda>s. ''redis''), get_home = (\<lambda>t. redis_get_home api), set_home = (\<lambda>t. redis_set_home api),
      get_last_seen = (\<lambda>t k s. apfst (map_sum id finite_reading) (redis_get_last_seen api k s)),
      set_last_seen = (\<lambda>t. redis_set_last_seen api),
      store_size = redis_size api, store_close = redis_close api\<rparr>"

definition built_ops :: "'c redis_client \<Rightarrow> 'c built_store session_store" where
  \<comment> \<open>a method of the object \<open>build_session_store\<close> returned\<close>
  "built_ops api =
     \<lparr>store_name = case_built_store (store_name mem_ops) (store_name (redis_ops api)),
      get_home = (\<lambda>t k. case_built_store (apsnd MemoryStore \<circ> get_home mem_ops t k) (apsnd RedisStore \<circ> get_home (redis_ops api) t k)),
      set_home = (\<lambda>t k i. case_built_store (apsnd MemoryStore \<circ> set_home mem_ops t k i)
        (apsnd RedisStore \<circ> set_home (redis_ops api) t k i)),
      get_last_seen = (\<lambda>t k. case_built_store (apsnd MemoryStore \<circ> get_last_seen mem_ops t k)
        (apsnd RedisStore \<circ> get_last_seen (redis_ops api) t k)),
      set_last_seen = (\<lambda>t k x. case_built_store (apsnd MemoryStore \<circ> set_last_seen mem_ops t k x)
        (apsnd RedisStore \<circ> set_last_seen (redis_ops api) t k x)),
      store_size = case_built_store (apsnd MemoryStore \<circ> store_size mem_ops) (apsnd RedisStore \<circ> store_size (redis_ops api)),
      store_close = case_built_store (MemoryStore \<circ> store_close mem_ops) (RedisStore \<circ> store_close (redis_ops api))\<rparr>"

subsection \<open>A connection that works\<close>

text \<open>
  What the code relies on of the client while Redis is up: a value that was set with a positive
  expiry is read back as its text until it is set again, the expiry being far away, and \<open>scan\<close> answers.
  \<open>up\<close> says that the connection works, \<open>reads\<close> what a key reads as, and \<open>storable\<close> which floats the
  texts are exact for.
\<close>

fun reads_back :: "string \<Rightarrow> redis_value \<Rightarrow> bool" where
  "reads_back raw (RedisInt i) = (py_int raw = Some i)"
| "reads_back raw (RedisFloat x) = (py_float raw = Some (Finite x))"

fun exact_value :: "(real \<Rightarrow> bool) \<Rightarrow> redis_value \<Rightarrow> bool" where
  "exact_value storable (RedisInt i) = True"
| "exact_value storable (RedisFloat x) = storable x"

definition reliable_client ::
  "'c redis_client \<Rightarrow> ('c \<Rightarrow> bool) \<Rightarrow> ('c \<Rightarrow> string \<Rightarrow> string option) \<Rightarrow> (real \<Rightarrow> bool) \<Rightarrow> bool" where
  "reliable_client api up reads storable \<longleftrightarrow>
     (\<forall>c. up c \<longrightarrow>
        (\<forall>k. \<exists>c'. client_get api k c = (Inr (reads c k), c') \<and> up c' \<and> reads c' = reads c) \<and>
        (\<forall>k v ex. 0 < ex \<longrightarrow> exact_value storable v \<longrightarrow>
           (\<exists>c' raw. client_set api k v ex c = (Inr (), c') \<and> up c' \<and> reads c' = (reads c)(k \<mapsto> raw) \<and> reads_back raw v)) \<and>
        (\<forall>pat n. \<exists>keys c'. client_scan api pat n c = (Inr keys, c') \<and> up c' \<and> reads c' = reads c))"

lemma redis_key_eq [simp]:
  "redis_key kind k s = redis_key kind k' s' \<longleftrightarrow> prefix s @ '':'' @ kind @ '':'' @ k = prefix s' @ '':'' @ kind @ '':'' @ k'"
  "redis_key ''home'' k s \<noteq> redis_key ''seen'' k' s" "redis_key ''seen'' k s \<noteq> redis_key ''home'' k' s"
  by (simp_all add: redis_key_def)

locale redis_connection =
  fixes api :: "'c redis_client"
    and up :: "'c \<Rightarrow> bool"
    and reads :: "'c \<Rightarrow> string \<Rightarrow> string option"
    and storable :: "real \<Rightarrow> bool"
  assumes reliable: "reliable_client api up reads storable"
begin

lemma get_ok: "up c \<Longrightarrow> \<exists>c'. client_get api k c = (Inr (reads c k), c') \<and> up c' \<and> reads c' = reads c"
  using reliable unfolding reliable_client_def by blast

lemma set_ok:
  "up c \<Longrightarrow> 0 < ex \<Longrightarrow> exact_value storable v \<Longrightarrow>
     \<exists>c' raw. client_set api k v ex c = (Inr (), c') \<and> up c' \<and> reads c' = (reads c)(k \<mapsto> raw) \<and> reads_back raw v"
  using reliable unfolding reliable_client_def by blast

lemma scan_ok: "up c \<Longrightarrow> \<exists>keys c'. client_scan api pat n c = (Inr keys, c') \<and> up c' \<and> reads c' = reads c"
  using reliable unfolding reliable_client_def by blast

definition redis_inv :: "'c redis_store \<Rightarrow> bool" where
  "redis_inv s \<longleftrightarrow> up (client s) \<and> 0 < r_ttl s \<and>
     (\<forall>k raw. reads (client s) (redis_key ''home'' k s) = Some raw \<longrightarrow> py_int raw \<noteq> None) \<and>
     (\<forall>k raw. reads (client s) (redis_key ''seen'' k s) = Some raw \<longrightarrow> (\<exists>x. py_float raw = Some (Finite x)))"

definition redis_home_at :: "real \<Rightarrow> 'c redis_store \<Rightarrow> string \<Rightarrow> int option" where
  "redis_home_at t s k = Option.bind (reads (client s) (redis_key ''home'' k s)) py_int"

definition redis_seen_at :: "real \<Rightarrow> 'c redis_store \<Rightarrow> string \<Rightarrow> real option" where
  "redis_seen_at t s k = Option.bind (reads (client s) (redis_key ''seen'' k s)) (finite_reading \<circ> py_float)"

definition redis_ttl :: "'c redis_store \<Rightarrow> real" where
  "redis_ttl s = real_of_int (r_ttl s)"

lemma redis_frame:
  assumes "redis_inv s" "up c" "reads c = reads (client s)"
  shows "redis_inv (s\<lparr>client := c\<rparr>)" "redis_ttl (s\<lparr>client := c\<rparr>) = redis_ttl s"
    "redis_home_at t (s\<lparr>client := c\<rparr>) = redis_home_at t s" "redis_seen_at t (s\<lparr>client := c\<rparr>) = redis_seen_at t s"
  using assms by (auto simp: redis_inv_def redis_ttl_def redis_home_at_def redis_seen_at_def fun_eq_iff)

lemma redis_get_home_ok:
  assumes "redis_inv s"
  shows "\<exists>c. redis_get_home api k s = (Inr (redis_home_at t s k), s\<lparr>client := c\<rparr>) \<and> up c \<and> reads c = reads (client s)"
proof -
  obtain c where "client_get api (redis_key ''home'' k s) (client s) = (Inr (reads (client s) (redis_key ''home'' k s)), c)"
    "up c" "reads c = reads (client s)"
    using get_ok [of "client s" "redis_key ''home'' k s"] assms by (auto simp: redis_inv_def)
  then show ?thesis using assms
    by (fastforce simp: redis_get_home_def redis_home_at_def redis_inv_def split: option.splits)
qed

lemma redis_get_seen_ok:
  assumes "redis_inv s"
  shows "\<exists>c. get_last_seen (redis_ops api) t k s = (Inr (redis_seen_at t s k), s\<lparr>client := c\<rparr>) \<and> up c \<and> reads c = reads (client s)"
proof -
  obtain c where "client_get api (redis_key ''seen'' k s) (client s) = (Inr (reads (client s) (redis_key ''seen'' k s)), c)"
    "up c" "reads c = reads (client s)"
    using get_ok [of "client s" "redis_key ''seen'' k s"] assms by (auto simp: redis_inv_def)
  then show ?thesis using assms
    by (fastforce simp: redis_get_last_seen_def redis_ops_def redis_seen_at_def redis_inv_def split: option.splits)
qed

lemma redis_set_home_ok:
  assumes "redis_inv s"
  shows "\<exists>c. redis_set_home api k i s = (Inr (), s\<lparr>client := c\<rparr>) \<and> redis_inv (s\<lparr>client := c\<rparr>) \<and>
    (\<forall>t. redis_home_at t (s\<lparr>client := c\<rparr>) k = Some i) \<and>
    (\<forall>t k'. k' \<noteq> k \<longrightarrow> redis_home_at t (s\<lparr>client := c\<rparr>) k' = redis_home_at t s k') \<and>
    (\<forall>t. redis_seen_at t (s\<lparr>client := c\<rparr>) = redis_seen_at t s)"
proof -
  have "up (client s)" "0 < r_ttl s" using assms by (simp_all add: redis_inv_def)
  from set_ok [OF this, of "RedisInt i" "redis_key ''home'' k s"] obtain c raw where
    set: "client_set api (redis_key ''home'' k s) (RedisInt i) (r_ttl s) (client s) = (Inr (), c)" "up c"
      "reads c = (reads (client s))(redis_key ''home'' k s \<mapsto> raw)" "py_int raw = Some i" by auto
  then show ?thesis using assms
    by (intro exI [of _ c])
      (auto simp: redis_set_home_def redis_inv_def redis_home_at_def redis_seen_at_def fun_eq_iff)
qed

lemma redis_set_seen_ok:
  assumes "redis_inv s" "storable x"
  shows "\<exists>c. redis_set_last_seen api k x s = (Inr (), s\<lparr>client := c\<rparr>) \<and> redis_inv (s\<lparr>client := c\<rparr>) \<and>
    (\<forall>t. redis_seen_at t (s\<lparr>client := c\<rparr>) k = Some x) \<and>
    (\<forall>t k'. k' \<noteq> k \<longrightarrow> redis_seen_at t (s\<lparr>client := c\<rparr>) k' = redis_seen_at t s k') \<and>
    (\<forall>t. redis_home_at t (s\<lparr>client := c\<rparr>) = redis_home_at t s)"
proof -
  have "up (client s)" "0 < r_ttl s" using assms by (simp_all add: redis_inv_def)
  from set_ok [OF this, of "RedisFloat x" "redis_key ''seen'' k s"] assms(2) obtain c raw where
    set: "client_set api (redis_key ''seen'' k s) (RedisFloat x) (r_ttl s) (client s) = (Inr (), c)" "up c"
      "reads c = (reads (client s))(redis_key ''seen'' k s \<mapsto> raw)" "py_float raw = Some (Finite x)" by auto
  then show ?thesis using assms(1)
    by (intro exI [of _ c])
      (auto simp: redis_set_last_seen_def redis_inv_def redis_home_at_def redis_seen_at_def fun_eq_iff)
qed

end

sublocale redis_connection \<subseteq> redis: session_store_laws "redis_ops api" redis_inv redis_ttl redis_home_at redis_seen_at storable
proof (unfold_locales, goal_cases)
  case (1 s t k)
  from redis_get_home_ok [OF 1] obtain c where c: "redis_get_home api k s = (Inr (redis_home_at t s k), s\<lparr>client := c\<rparr>)"
    "up c" "reads c = reads (client s)" by blast
  with redis_frame [OF 1 c(2,3)] show ?case by (auto simp: redis_ops_def)
next
  case (2 s t k i)
  from redis_set_home_ok [OF 2, of k i] show ?case by (auto simp: redis_ops_def redis_ttl_def)
next
  case (3 s t k)
  from redis_get_seen_ok [OF 3] obtain c where c: "get_last_seen (redis_ops api) t k s = (Inr (redis_seen_at t s k), s\<lparr>client := c\<rparr>)"
    "up c" "reads c = reads (client s)" by blast
  with redis_frame [OF 3 c(2,3)] show ?case by auto
next
  case (4 s x t k)
  from redis_set_seen_ok [OF 4, of k] show ?case by (auto simp: redis_ops_def redis_ttl_def)
next
  case (5 s t' t k k')
  from redis_get_home_ok [OF 5] obtain c where c: "redis_get_home api k s = (Inr (redis_home_at t s k), s\<lparr>client := c\<rparr>)"
    "up c" "reads c = reads (client s)" by blast
  with redis_frame(4) [OF 5 c(2,3)] show ?case by (simp add: redis_ops_def)
next
  case (6 s t' t k i k')
  from redis_set_home_ok [OF 6, of k i] show ?case by (auto simp: redis_ops_def)
qed

context redis_connection
begin

primrec built_inv :: "'c built_store \<Rightarrow> bool" where
  "built_inv (MemoryStore m) = wf_mem_store m"
| "built_inv (RedisStore r) = redis_inv r"

primrec built_ttl :: "'c built_store \<Rightarrow> real" where
  "built_ttl (MemoryStore m) = ttl_s m"
| "built_ttl (RedisStore r) = redis_ttl r"

fun built_home_at :: "real \<Rightarrow> 'c built_store \<Rightarrow> string \<Rightarrow> int option" where
  "built_home_at t (MemoryStore m) k = mem_home_at t m k"
| "built_home_at t (RedisStore r) k = redis_home_at t r k"

fun built_seen_at :: "real \<Rightarrow> 'c built_store \<Rightarrow> string \<Rightarrow> real option" where
  "built_seen_at t (MemoryStore m) k = mem_seen_at t m k"
| "built_seen_at t (RedisStore r) k = redis_seen_at t r k"

end

context redis_connection
begin

lemma redis_set_others:
  "redis_inv s \<Longrightarrow> k' \<noteq> k \<Longrightarrow> redis_home_at t (snd (redis_set_home api k i s)) k' = redis_home_at t s k'"
  "redis_inv s \<Longrightarrow> storable x \<Longrightarrow> k' \<noteq> k \<Longrightarrow>
     redis_seen_at t (snd (redis_set_last_seen api k x s)) k' = redis_seen_at t s k'"
  using redis_set_home_ok [of s k i] redis_set_seen_ok [of s x k] by (metis snd_conv)+

end

sublocale redis_connection \<subseteq> redis: roomy_store "redis_ops api" redis_inv redis_ttl redis_home_at redis_seen_at storable
  "\<lambda>P s. True"
  by unfold_locales (simp_all add: redis_ops_def redis_set_others)

sublocale redis_connection \<subseteq> built: session_store_laws "built_ops api" built_inv built_ttl built_home_at built_seen_at storable
proof (unfold_locales, goal_cases)
  case (1 s t k)
  then show ?case using mem.get_home_law [of _ t k] redis.get_home_law [of _ t k]
    by (cases s) (fastforce simp: built_ops_def)+
next
  case (2 s t k i)
  then show ?case using mem.set_home_law [of _ t k i] redis.set_home_law [of _ t k i]
    by (cases s) (fastforce simp: built_ops_def)+
next
  case (3 s t k)
  then show ?case using mem.get_seen_law [of _ t k] redis.get_seen_law [of _ t k]
    by (cases s) (fastforce simp: built_ops_def)+
next
  case (4 s x t k)
  then show ?case using mem.set_seen_law [where t = t and k = k and x = x] redis.set_seen_law [where t = t and k = k and x = x]
    by (cases s) (fastforce simp: built_ops_def)+
next
  case (5 s t' t k k')
  then show ?case using mem.get_home_seen redis.get_home_seen by (cases s) (auto simp: built_ops_def)
next
  case (6 s t' t k i k')
  then show ?case using mem.set_home_seen redis.set_home_seen by (cases s) (auto simp: built_ops_def)
qed

context redis_connection
begin

primrec built_roomy :: "string set \<Rightarrow> 'c built_store \<Rightarrow> bool" where
  "built_roomy P (MemoryStore m) = mem_roomy P m"
| "built_roomy P (RedisStore r) = True"

end

sublocale redis_connection \<subseteq> built: roomy_store "built_ops api" built_inv built_ttl built_home_at built_seen_at storable built_roomy
proof (unfold_locales, goal_cases)
  case (1 s P t k)
  then show ?case using mem.roomy_get_home by (cases s) (auto simp: built_ops_def)
next
  case (2 s P t k)
  then show ?case using mem.roomy_get_seen by (cases s) (auto simp: built_ops_def)
next
  case (3 s P k t i)
  then show ?case using mem.roomy_set_home [of _ P k] redis.roomy_set_home [of _ k P] by (cases s) (auto simp: built_ops_def)
next
  case (4 s P k x t)
  then show ?case using mem.roomy_set_seen [where P = P and k = k and x = x] redis.roomy_set_seen [where P = P and k = k and x = x]
    by (cases s) (auto simp: built_ops_def)
qed

context redis_connection
begin

lemma built_size:
  assumes "built_inv s"
  shows "\<exists>n s'. store_size (built_ops api) s = (n, s') \<and> 0 \<le> n \<and> built_inv s' \<and> built_ttl s' = built_ttl s \<and>
    (\<forall>t k. built_home_at t s' k = built_home_at t s k \<and> built_seen_at t s' k = built_seen_at t s k) \<and>
    (\<forall>P. built_roomy P s' = built_roomy P s)"
proof (cases s)
  case (MemoryStore m)
  with assms show ?thesis by (simp add: built_ops_def mem_size_def)
next
  case (RedisStore r)
  then have r: "redis_inv r" using assms by simp
  obtain keys c where "client_scan api (prefix r @ '':home:*'') 1000 (client r) = (Inr keys, c)" "up c" "reads c = reads (client r)"
    using scan_ok [of "client r" "prefix r @ '':home:*''" 1000] r by (auto simp: redis_inv_def)
  with redis_frame [OF r this(2,3)] RedisStore show ?thesis by (simp add: built_ops_def redis_ops_def redis_size_def)
qed

end

text \<open>The client that keeps a dictionary of texts is reliable for floats that print with at most 17 decimals.\<close>

definition short_decimal :: "real \<Rightarrow> bool" where
  "short_decimal x \<longleftrightarrow> (\<exists>k \<in> {1..17}. integral (x * 10 ^ k)) \<and> \<bar>x\<bar> \<le> 10 ^ 300"

lemma dict_client_reliable: "reliable_client dict_client (\<lambda>c. True) map_of short_decimal"
proof -
  have "reads_back (case v of RedisInt i \<Rightarrow> py_str_int i | RedisFloat x \<Rightarrow> str_float x) v" if "exact_value short_decimal v" for v
    using that by (cases v) (auto simp: py_int_str short_decimal_def intro: str_float_reads_back)
  then show ?thesis by (auto simp: reliable_client_def dict_client_def AList.update_conv')
qed

interpretation dict: redis_connection dict_client "\<lambda>c. True" map_of short_decimal
  by unfold_locales (rule dict_client_reliable)

lemma integer_short_decimal: "\<bar>i\<bar> \<le> 10 ^ 300 \<Longrightarrow> short_decimal (real_of_int i)"
proof -
  assume i: "\<bar>i\<bar> \<le> 10 ^ 300"
  then have "\<bar>real_of_int i\<bar> \<le> 10 ^ 300" by (metis of_int_abs of_int_le_iff of_int_numeral of_int_power)
  moreover have "real_of_int i * 10 ^ 1 = real_of_int (i * 10)" by simp
  then have "integral (real_of_int i * 10 ^ 1)" unfolding integral_def by (metis floor_of_int)
  ultimately show ?thesis unfolding short_decimal_def by (auto intro!: bexI [of _ 1])
qed

end
