(* ===== verification/App.thy ===== *)
theory App
  imports Gateway Redis_Store
begin

section \<open>Starting the application, and its operational endpoints\<close>

text \<open>
  \<open>create_app\<close> and \<open>build_backend\<close> of \<open>agentserve/gateway.py\<close>: from the settings to the objects the
  handlers share; the endpoints \<open>/health\<close>, \<open>/metrics\<close> and \<open>/debug/sessions\<close>, both halves of
  \<open>lifespan\<close>, \<open>execute\<close>, which picks the backend's method, and the whole chat endpoint over the assembled
  application, streaming or not. \<open>agentserve/__init__.py\<close> gives the version string.

  The Redis client's constructor, \<open>tiktoken\<close> and the HTTP client are library code and arguments.
  An application whose settings hold a float that is not a finite number is outside the model:
  \<open>create_app\<close> returns \<open>None\<close> for it.
\<close>

definition package_version :: "string option \<Rightarrow> string" where
  \<comment> \<open>the argument is the version of the installed package, when it is installed\<close>
  "package_version installed = (case installed of None \<Rightarrow> ''0.0.0+unknown'' | Some v \<Rightarrow> v)"

subsection \<open>Composition\<close>

datatype 'h app_backend = SimulatedBackend hardware_profile | VllmBackend "'h vllm_backend"

fun backend_name :: "'h app_backend \<Rightarrow> string" where
  "backend_name (SimulatedBackend h) = ''simulated''"
| "backend_name (VllmBackend b) = ''vllm''"

definition build_backend :: "settings \<Rightarrow> 'h \<Rightarrow> py_error + 'h app_backend" where
  "build_backend s h =
     (if set_backend s = ''vllm''
      then (case new_vllm_backend (vllm_endpoints s) (vllm_model s) (vllm_max_retries s) h of
              Inl e \<Rightarrow> Inl e
            | Inr b \<Rightarrow> Inr (VllmBackend b))
      else Inr (SimulatedBackend (ec_hardware (set_cluster s))))"

record ('s, 'h) app =
  app_settings :: settings
  app_gateway :: "'s gateway"
  app_backend :: "'h app_backend"
  app_tokenizer :: tokenizer

datatype startup_error = StoreFailed client_error | BackendFailed py_error

definition create_app ::
  "(string \<Rightarrow> client_error + 'c) \<Rightarrow> (string \<Rightarrow> py_error + encoder) option \<Rightarrow> settings \<Rightarrow> 'h app_backend option \<Rightarrow> 'h
   \<Rightarrow> (startup_error + ('c built_store, 'h) app) option" where
  \<comment> \<open>\<open>given\<close> is the backend argument; the settings argument is what \<open>load_settings\<close> returned\<close>
  "create_app connect tiktoken s given h =
     (case (finite_cluster (set_cluster s), finite_value (session_ttl_s s)) of
        (Some c, Some lifetime) \<Rightarrow>
          Some (case build_session_store connect (redis_url s) lifetime (set_max_sessions s) of
                  Inl e \<Rightarrow> Inl (StoreFailed e)
                | Inr st \<Rightarrow>
                    (case (case given of Some b \<Rightarrow> Inr b | None \<Rightarrow> build_backend s h) of
                       Inl e \<Rightarrow> Inl (BackendFailed e)
                     | Inr b \<Rightarrow>
                         Inr \<lparr>app_settings = s,
                              app_gateway = create_gateway c (set_router s) (set_policy s) st,
                              app_backend = b,
                              app_tokenizer = new_tokenizer tiktoken (set_tokenizer s)\<rparr>))
      | _ \<Rightarrow> None)"

subsection \<open>Operational endpoints\<close>

fun router_name :: "gw_router \<Rightarrow> string" where
  "router_name (GAffinity ar) = ''session-affinity''"
| "router_name (GRoundRobin rr) = ''round-robin''"

definition app_policy_name :: "settings \<Rightarrow> string" where
  "app_policy_name s =
     (if set_policy s = ''adaptive'' then policy_name (adaptive_policy default_policy_config)
      else policy_name lru_policy)"

definition health :: "'s session_store \<Rightarrow> string \<Rightarrow> ('s, 'h) app \<Rightarrow> json" where
  "health ops version a = JDict
     [(''status'', JStr ''ok''),
      (''version'', JStr version),
      (''backend'', JStr (backend_name (app_backend a))),
      (''replicas'', JInt (int (length (g_replicas (app_gateway a))))),
      (''policy'', JStr (app_policy_name (app_settings a))),
      (''router'', JStr (router_name (g_router (app_gateway a)))),
      (''session_store'', JStr (store_name ops (g_store (app_gateway a)))),
      (''multi_pod_safe'', JBool (multi_pod_safe (app_settings a)))]"

datatype log_level = Info | Warning

definition startup_log :: "'s session_store \<Rightarrow> ('s, 'h) app \<Rightarrow> (log_level \<times> string) list" where
  \<comment> \<open>the first half of \<open>lifespan\<close>\<close>
  "startup_log ops a =
     (if \<not> multi_pod_safe (app_settings a)
      then [(Warning, ''Session map is process-local (no AGENTSERVE_REDIS_URL). Run exactly '' @
               ''one gateway replica, or affinity degrades silently to round-robin.'')]
      else []) @
     [(Info, ''AgentServe up: backend='' @ backend_name (app_backend a) @
         '' replicas='' @ nat_digits (length (g_replicas (app_gateway a))) @
         '' store='' @ store_name ops (g_store (app_gateway a)) @ '' tokenizer='' @ tk_name (app_tokenizer a))]"

definition metrics_endpoint :: "'s gateway \<Rightarrow> py_error + 's gateway" where
  \<comment> \<open>the scrape's own calls; \<open>render\<close> is the library's exposition of the registry\<close>
  "metrics_endpoint g =
     (case observe_cluster (g_replicas g) (g_predictor g) of
        Inl e \<Rightarrow> Inl e
      | Inr calls \<Rightarrow> Inr (g\<lparr>g_metrics := g_metrics g @ calls\<rparr>))"

definition replica_report :: "replica \<Rightarrow> py_error + json" where
  "replica_report r =
     (case gpu_utilization r of
        Inl e \<Rightarrow> Inl e
      | Inr u \<Rightarrow> Inr (JDict
          [(''id'', JInt (rep_id r)),
           (''gpu_sessions'', JInt (int (length (gpu r)))),
           (''dram_sessions'', JInt (int (length (dram r)))),
           (''gpu_utilization'', JFloat (round_to 4 u)),
           (''inflight'', JInt (inflight r)),
           (''peak_inflight'', JInt (peak_active r)),
           (''evictions'', JInt (evictions r)),
           (''offloads'', JInt (offloads r))]))"

fun replica_reports :: "replica list \<Rightarrow> py_error + json list" where
  "replica_reports [] = Inr []"
| "replica_reports (r # rs) =
     (case replica_report r of Inl e \<Rightarrow> Inl e | Inr j \<Rightarrow>
     (case replica_reports rs of Inl e \<Rightarrow> Inl e | Inr js \<Rightarrow> Inr (j # js)))"

definition router_counts :: "'s session_store \<Rightarrow> gw_router \<Rightarrow> 's \<Rightarrow> (int \<times> int \<times> int) \<times> 's" where
  \<comment> \<open>\<open>tracked_sessions\<close>, \<open>affinity_hits\<close> and \<open>affinity_breaks\<close>, 0 for a router without them\<close>
  "router_counts ops rt s =
     (case rt of
        GAffinity ar \<Rightarrow>
          (let (n, s') = tracked_sessions ops s in ((n, affinity_hits ar, affinity_breaks ar), s'))
      | GRoundRobin rr \<Rightarrow> ((0, 0, 0), s))"

definition debug_sessions :: "'s session_store \<Rightarrow> 's gateway \<Rightarrow> (py_error + json) \<times> 's gateway" where
  "debug_sessions ops g =
     (let ((tracked, hits, breaks), s) = router_counts ops (g_router g) (g_store g)
      in (case replica_reports (g_replicas g) of
            Inl e \<Rightarrow> Inl e
          | Inr reports \<Rightarrow> Inr (JDict
              [(''tracked_sessions'', JInt tracked),
               (''router'', JStr (router_name (g_router g))),
               (''session_store'', JStr (store_name ops s)),
               (''affinity_hits'', JInt hits),
               (''affinity_breaks'', JInt breaks),
               (''replicas'', JList reports),
               (''predicted_tool_gaps_ms'',
                JDict (map (\<lambda>(tool, ms). (tool, JFloat (Finite ms))) (snapshot (g_predictor g))))]),
          g\<lparr>g_store := s\<rparr>))"

definition shutdown :: "'s session_store \<Rightarrow> ('b \<Rightarrow> (py_error + unit) \<times> 'b) option \<Rightarrow> 's \<Rightarrow> 'b \<Rightarrow> (py_error + 's) \<times> 'b" where
  \<comment> \<open>the second half of \<open>lifespan\<close>; \<open>closer\<close> is the backend's \<open>aclose\<close>, when it has one\<close>
  "shutdown ops closer s b =
     (case closer of
        None \<Rightarrow> (Inr (store_close ops s), b)
      | Some close \<Rightarrow>
          (case close b of
             (Inl e, b') \<Rightarrow> (Inl e, b')
           | (Inr _, b') \<Rightarrow> (Inr (store_close ops s), b')))"

subsection \<open>The chat endpoint over the assembled application\<close>

record 'h upstream =
  up_client :: "'h http_client"
  up_stream :: "string \<Rightarrow> json \<Rightarrow> 'h \<Rightarrow> (string list \<times> py_error option) \<times> 'h"
    \<comment> \<open>the lines of a streamed answer and what breaks it: no line when it cannot be opened\<close>
  up_loads :: "string \<Rightarrow> json option"

definition execute ::
  "'h http_client \<Rightarrow> (nat \<Rightarrow> real) \<Rightarrow> 'h app_backend \<Rightarrow> replica \<Rightarrow> call \<Rightarrow> real \<Rightarrow> real
   \<Rightarrow> (py_error + request_result \<times> replica) \<times> 'h app_backend" where
  \<comment> \<open>\<open>aexecute\<close> when the backend has it, \<open>execute\<close> otherwise; nothing runs in between\<close>
  "execute api elapsed b r c now gap =
     (case b of
        SimulatedBackend h \<Rightarrow>
          (sim_execute h r (c_sid c) (c_prompt c) (c_max c) now (now + gap), b)
      | VllmBackend v \<Rightarrow>
          (case aexecute api elapsed (c_messages c) (c_max c) (rep_id r) v of
             (Inl e, v') \<Rightarrow> (Inl e, VllmBackend v')
           | (Inr w, v') \<Rightarrow>
               (vllm_result w r (c_sid c) (c_prompt c) (c_max c) now (now + gap), VllmBackend v')))"

definition stream_execute ::
  "'h upstream \<Rightarrow> (nat \<Rightarrow> real) \<Rightarrow> real \<Rightarrow> 'h app_backend \<Rightarrow> replica \<Rightarrow> call \<Rightarrow> real \<Rightarrow> real
   \<Rightarrow> (json list \<times> (py_error + request_result \<times> replica)) \<times> 'h app_backend" where
  \<comment> \<open>the pieces the backend yields and how it ends: \<open>astream\<close> when it has it, \<open>execute\<close> otherwise\<close>
  "stream_execute up watch elapsed b r c now gap =
     (case b of
        SimulatedBackend h \<Rightarrow>
          (case sim_execute h r (c_sid c) (c_prompt c) (c_max c) now (now + gap) of
             Inl e \<Rightarrow> (([], Inl e), b)
           | Inr (res, r') \<Rightarrow> (([rr_text res], Inr (res, r')), b))
      | VllmBackend v \<Rightarrow>
          (let ((lines, broken), h) = up_stream up (worker_url v (rep_id r)) (payload v (c_messages c) (c_max c) True) (http v);
               (chunks, ended) = astream (up_loads up) watch elapsed lines broken
           in ((chunks, case ended of Inl e \<Rightarrow> Inl e
                        | Inr w \<Rightarrow> vllm_result w r (c_sid c) (c_prompt c) (c_max c) now (now + gap)),
               VllmBackend (v\<lparr>http := h\<rparr>))))"

datatype chat_answer = Answer json | EventStream "sse list"

definition serve_whole ::
  "'s session_store \<Rightarrow> 'h upstream \<Rightarrow> (nat \<Rightarrow> real) \<Rightarrow> real \<Rightarrow> nat \<Rightarrow> call \<Rightarrow> real \<Rightarrow> real \<Rightarrow> ('s, 'h) app
   \<Rightarrow> (http_failure + chat_answer) \<times> ('s, 'h) app" where
  "serve_whole ops up watch clock i c now gap a =
     (let g = enter_slot i (app_gateway a);
          (out, b) = execute (up_client up) watch (app_backend a) (g_replicas g ! i) c now gap
      in case finish_call ops (\<lambda>r sid pt ot now ret. out) clock i c now gap g of
           (Inl e, g') \<Rightarrow> (Inl e, a\<lparr>app_gateway := g', app_backend := b\<rparr>)
         | (Inr res, g') \<Rightarrow>
             (map_sum id Answer (or_unhandled (chat_response (vllm_model (app_settings a)) c now gap res)),
              a\<lparr>app_gateway := g', app_backend := b\<rparr>))"

definition serve_stream ::
  "'s session_store \<Rightarrow> 'h upstream \<Rightarrow> (nat \<Rightarrow> real) \<Rightarrow> real \<Rightarrow> real \<Rightarrow> nat \<Rightarrow> call \<Rightarrow> real \<Rightarrow> real \<Rightarrow> ('s, 'h) app
   \<Rightarrow> (http_failure + chat_answer) \<times> ('s, 'h) app" where
  "serve_stream ops up watch elapsed clock i c now gap a =
     (case stream_model c of
        Inl e \<Rightarrow> (Inl (Unhandled e), a)
      | Inr model \<Rightarrow>
          (let g = enter_slot i (app_gateway a);
               ((chunks, out), b) = stream_execute up watch elapsed (app_backend a) (g_replicas g ! i) c now gap;
               (events, g') = stream_response ops clock i c model now chunks out g
           in (Inr (EventStream events), a\<lparr>app_gateway := g', app_backend := b\<rparr>)))"

definition chat_endpoint ::
  "'s session_store \<Rightarrow> 'h upstream \<Rightarrow> (nat \<Rightarrow> real) \<Rightarrow> real \<Rightarrow> real \<times> real \<times> real \<Rightarrow> real \<Rightarrow> real \<Rightarrow> http_request
   \<Rightarrow> ('s, 'h) app \<Rightarrow> (http_failure + chat_answer) \<times> ('s, 'h) app" where
  \<comment> \<open>the whole handler and its generator, with nothing running in between\<close>
  "chat_endpoint ops up watch elapsed clocks clock now rq a =
     (case read_call (api_key (app_settings a)) (app_tokenizer a) rq of
        Inl e \<Rightarrow> (Inl e, a)
      | Inr c \<Rightarrow>
          (case schedule ops clocks (c_sid c) (c_tool c) now (app_gateway a) of
             (Inl e, g) \<Rightarrow> (Inl (Unhandled e), a\<lparr>app_gateway := g\<rparr>)
           | (Inr (i, gap), g) \<Rightarrow>
               if c_stream c then serve_stream ops up watch elapsed clock i c now gap (a\<lparr>app_gateway := g\<rparr>)
               else serve_whole ops up watch clock i c now gap (a\<lparr>app_gateway := g\<rparr>)))"

text \<open>
  The text of an event stream: every event is one line and a blank one. \<open>dumps\<close> is the JSON library's,
  which escapes line breaks, and \<open>message\<close> is \<open>str\<close> of an exception.
\<close>

fun event_line :: "(json \<Rightarrow> string) \<Rightarrow> (py_error \<Rightarrow> string) \<Rightarrow> sse \<Rightarrow> string" where
  "event_line dumps message (Data j) = ''data: '' @ dumps j"
| "event_line dumps message (StreamError e) =
     ''data: '' @ dumps (JDict [(''error'', JDict [(''message'', JStr (message e)), (''type'', JStr ''upstream_error'')])])"
| "event_line dumps message StreamDone = ''data: [DONE]''"

definition event_lines :: "(json \<Rightarrow> string) \<Rightarrow> (py_error \<Rightarrow> string) \<Rightarrow> sse list \<Rightarrow> string list" where
  "event_lines dumps message events = concat (map (\<lambda>e. [event_line dumps message e, []]) events)"

subsection \<open>Every metric call is well typed\<close>

definition typed_metrics :: "'s gateway \<Rightarrow> bool" where
  "typed_metrics g \<longleftrightarrow> (\<forall>m \<in> set (g_metrics g). well_typed m)"

lemma typed_metrics_frame [simp]:
  "typed_metrics (g\<lparr>g_replicas := rs\<rparr>) = typed_metrics g"
  "typed_metrics (g\<lparr>g_store := s\<rparr>) = typed_metrics g"
  "typed_metrics (g\<lparr>g_predictor := p\<rparr>) = typed_metrics g"
  "typed_metrics (g\<lparr>g_router := rt\<rparr>) = typed_metrics g"
  "typed_metrics (enter_slot i g) = typed_metrics g"
  "typed_metrics (leave_slot i g) = typed_metrics g"
  by (simp_all add: typed_metrics_def enter_slot_def leave_slot_def)

lemma typed_metrics_append [simp]:
  "typed_metrics (g\<lparr>g_metrics := g_metrics g @ ms\<rparr>) \<longleftrightarrow> typed_metrics g \<and> (\<forall>m \<in> set ms. well_typed m)"
  by (auto simp: typed_metrics_def)

lemma gw_select_typed: "gw_select ops clocks sid now g = (res, g') \<Longrightarrow> typed_metrics g' = typed_metrics g"
  by (auto simp: gw_select_def typed_metrics_def split: gw_router.splits sum.splits prod.splits)

lemma schedule_typed:
  assumes "schedule ops clocks sid tool now g = (res, g')"
  shows "typed_metrics g' = typed_metrics g"
  using assms by (auto simp: schedule_def Let_def dest!: gw_select_typed split: prod.splits sum.splits)

lemma record_result_typed:
  assumes "record_result ops clock sid res now g = (out, g')"
  shows "typed_metrics g' = typed_metrics g"
  using assms observe_result_typed [of _ res]
  by (cases "observe_result res") (auto simp: record_result_def Let_def typed_metrics_def split: prod.splits sum.splits)

lemma resume_stream_typed:
  assumes "resume_stream ops clock i c now res g = (events, g')"
  shows "typed_metrics g' = typed_metrics g"
  using assms by (auto simp: resume_stream_def dest!: record_result_typed split: prod.splits sum.splits)

lemma finish_call_typed:
  assumes "finish_call ops exec clock i c now gap g = (out, g')"
  shows "typed_metrics g' = typed_metrics g"
  using assms by (auto simp: finish_call_def dest!: record_result_typed split: prod.splits sum.splits)

lemma stream_response_typed:
  assumes "stream_response ops clock i c model now chunks outcome g = (events, g')"
  shows "typed_metrics g' = typed_metrics g"
  using assms by (auto simp: stream_response_def Let_def dest!: resume_stream_typed split: prod.splits sum.splits)

lemma gw_step_typed:
  assumes "gw_step ops exec valid st st'"
  shows "typed_metrics (fst st') = typed_metrics (fst st)"
  using assms
  by (induction rule: gw_step.induct)
    (auto dest: schedule_typed finish_call_typed stream_response_typed resume_stream_typed)

lemma reachable_typed:
  assumes "gw_reachable ops exec valid g0 st" "typed_metrics g0"
  shows "typed_metrics (fst st)"
  using assms by (induction rule: gw_reachable.induct) (simp_all add: gw_step_typed)

lemma metrics_endpoint_typed:
  assumes "metrics_endpoint g = Inr g'" "typed_metrics g"
  shows "typed_metrics g'"
  using assms by (auto simp: metrics_endpoint_def dest: observe_cluster_typed split: sum.splits)

subsection \<open>The endpoints in a reachable state\<close>

lemma observe_replicas_total:
  "\<forall>r \<in> set rs. 0 < gpu_cache_tokens (hw r) \<Longrightarrow> \<exists>calls. observe_replicas rs = Inr calls"
  by (induction rs) (auto simp: gpu_utilization_def)

lemma replica_reports_total:
  "\<forall>r \<in> set rs. 0 < gpu_cache_tokens (hw r) \<Longrightarrow> \<exists>js. replica_reports rs = Inr js \<and> length js = length rs"
  by (induction rs) (auto simp: replica_report_def gpu_utilization_def)

lemma machine_ok_capacity: "machine_ok c g \<Longrightarrow> r \<in> set (g_replicas g) \<Longrightarrow> 0 < gpu_cache_tokens (hw r)"
  using wf_clusterD(4) by (metis in_set_conv_nth machine_ok_def cluster_ok_def)

lemma round_to_unit:
  assumes "0 \<le> u" "u \<le> 1"
  shows "\<exists>x. round_to n u = Finite x \<and> 0 \<le> x \<and> x \<le> 1"
proof -
  have "py_round (real_of_int 0) \<le> py_round (u * 10 ^ n)" using assms by (intro py_round_mono) simp
  moreover have "py_round (u * 10 ^ n) \<le> py_round (real_of_int (10 ^ n))"
    using assms by (intro py_round_mono) (simp add: mult_left_le_one_le)
  ultimately have "0 \<le> py_round (u * 10 ^ n)" "py_round (u * 10 ^ n) \<le> 10 ^ n"
    by (simp_all only: py_round_of_int)
  then have "real_of_int (py_round (u * 10 ^ n)) \<le> 10 ^ n"
    by (metis of_int_le_iff of_int_numeral of_int_power)
  with \<open>0 \<le> py_round (u * 10 ^ n)\<close> show ?thesis by (simp add: round_to_def)
qed

definition reported_utilization :: "json \<Rightarrow> pyfloat option" where
  "reported_utilization j =
     (case j of
        JDict d \<Rightarrow> (case map_of d ''gpu_utilization'' of Some (JFloat x) \<Rightarrow> Some x | _ \<Rightarrow> None)
      | _ \<Rightarrow> None)"

lemma replica_reports_utilization:
  "\<forall>r \<in> set rs. wf_replica r \<and> 0 < gpu_cache_tokens (hw r) \<and> gpu_tokens r \<le> gpu_cache_tokens (hw r) \<Longrightarrow>
     \<exists>js. replica_reports rs = Inr js \<and> length js = length rs \<and>
       (\<forall>j \<in> set js. \<exists>x. reported_utilization j = Some (Finite x) \<and> 0 \<le> x \<and> x \<le> 1)"
proof (induction rs)
  case (Cons r rs)
  let ?u = "real_of_int (gpu_tokens r) / real_of_int (gpu_cache_tokens (hw r))"
  have "0 \<le> gpu_tokens r" using Cons.prems entries_ok_sum_nonneg by (auto simp: wf_replica_def gpu_tokens_def)
  then have "0 \<le> ?u" "?u \<le> 1" using Cons.prems by simp_all
  from round_to_unit [OF this, of 4] obtain x where "round_to 4 ?u = Finite x" "0 \<le> x" "x \<le> 1" by blast
  with Cons show ?case
    by (auto simp: replica_report_def gpu_utilization_def reported_utilization_def)
qed simp

subsection \<open>Properties\<close>

text \<open>
  C19: Every metric call matches its declaration. Whatever the order of requests, with any backend
  and any session store, each call made so far names a family the registry declares, of the right
  kind and with exactly its label names, so the library never raises over a name or a label (it does over a
  negative increment, which is no call made); and a scrape of
  \<open>/metrics\<close>, which makes calls of its own, keeps it so.
\<close>

theorem instrumentation_matches_the_registry:
  assumes "gw_reachable ops exec valid (create_gateway c rk pk s) (g, J)"
  shows "(\<forall>m \<in> set (g_metrics g). well_typed m) \<and>
    (\<forall>g'. metrics_endpoint g = Inr g' \<longrightarrow> (\<forall>m \<in> set (g_metrics g'). well_typed m))"
proof -
  have "typed_metrics (create_gateway c rk pk s)" by (simp add: typed_metrics_def create_gateway_def)
  from reachable_typed [OF assms this] have "typed_metrics g" by simp
  with metrics_endpoint_typed show ?thesis by (auto simp: typed_metrics_def)
qed

lemma instrumentation_matches_the_registry_witness:
  "\<exists>g'. metrics_endpoint (create_gateway default_cluster_config ''affinity'' ''lru'' default_mem_store) = Inr g' \<and>
     length (g_metrics g') = 8 \<and> list_all well_typed (g_metrics g')"
proof -
  let ?g = "create_gateway default_cluster_config ''affinity'' ''lru'' default_mem_store"
  have "[0..<nat 4] = [0, 1, 2, 3]" by (simp add: upt_rec)
  then obtain g' where g': "metrics_endpoint ?g = Inr g'" "length (g_metrics g') = 8"
    by (simp add: metrics_endpoint_def observe_cluster_def create_gateway_def build_replicas_def new_replica_def
        gpu_utilization_def default_cluster_config_def default_hardware_def new_predictor_def snapshot_def)
  have "gw_reachable mem_ops (\<lambda>w :: unit. sim_execute default_hardware) valid_call ?g (?g, {#})"
    by (rule gw_reachable.init)
  from instrumentation_matches_the_registry [OF this] g' show ?thesis by (auto simp: list_all_iff)
qed

text \<open>
  The operational endpoints answer in every state. In every state the gateway can reach with
  the in-memory store and the simulated backend, requests in flight included, a scrape succeeds,
  \<open>/debug/sessions\<close> answers with one report per replica, and every utilization it shows is a
  number from 0 to 1.
\<close>

theorem operational_endpoints_always_answer:
  assumes "gw_reachable mem_ops (\<lambda>w. sim_execute (hardware c)) valid_call (create_gateway c rk pk s) (g, J)"
    and "wf_cluster_config c" and "wf_mem_store s"
  shows "(\<exists>g'. metrics_endpoint g = Inr g') \<and>
    (\<exists>d reports g'. debug_sessions mem_ops g = (Inr (JDict d), g') \<and>
       map_of d ''replicas'' = Some (JList reports) \<and> length reports = length (g_replicas g) \<and>
       (\<forall>j \<in> set reports. \<exists>x. reported_utilization j = Some (Finite x) \<and> 0 \<le> x \<and> x \<le> 1))"
proof -
  have ok: "machine_ok c g" using gw_ok_reachable [OF assms] by (simp add: gw_ok_def)
  have "\<forall>r \<in> set (g_replicas g). wf_replica r \<and> 0 < gpu_cache_tokens (hw r) \<and> gpu_tokens r \<le> gpu_cache_tokens (hw r)"
    using machine_ok_capacity [OF ok] machine_ok_replica [OF ok] by (metis in_set_conv_nth)
  from replica_reports_utilization [OF this] observe_replicas_total [of "g_replicas g"] this show ?thesis
    by (auto simp: metrics_endpoint_def observe_cluster_def debug_sessions_def split: prod.split)
qed

lemma operational_endpoints_always_answer_witness:
  "\<exists>g :: mem_store gateway. \<exists>i < length (g_replicas g). inflight (g_replicas g ! i) = 1 \<and>
     (\<exists>j g'. debug_sessions mem_ops g = (Inr j, g'))"
proof -
  obtain g i gap where r: "gw_reachable mem_ops (\<lambda>w :: worker_report. sim_execute (hardware default_cluster_config)) valid_call
      (create_gateway default_cluster_config ''affinity'' ''adaptive'' default_mem_store)
      (g :: mem_store gateway, {#\<lparr>j_replica = i, j_phase = Running, j_call = example_call False, j_now = 100, j_gap = gap\<rparr>#})"
    and i: "i < length (g_replicas g)" using example_in_flight by blast
  have "inflight (g_replicas g ! i) = 1"
    using sim_gateway.slots_reachable [OF r create_gateway_started [OF default_replicas]] i
    by (simp add: slots_ok_def inflight_def)
  moreover have "wf_mem_store default_mem_store" by (simp add: default_mem_store_def)
  ultimately show ?thesis
    using operational_endpoints_always_answer [OF r wf_default_cluster_config] i by blast
qed

lemma new_backend_serves:
  assumes "new_vllm_backend eps m retries h = Inr v" "0 < retries" "i < length eps"
  shows "worker_url v (int i) = rstrip_slash (eps ! i) @ ''/v1/chat/completions''"
    and "hd (fallbacks v (int i)) = int i"
proof -
  have v: "endpoints v = map rstrip_slash eps" "max_retries v = retries"
    using assms(1) by (auto simp: new_vllm_backend_def split: if_splits)
  show "worker_url v (int i) = rstrip_slash (eps ! i) @ ''/v1/chat/completions''"
    using assms(3) v by (simp add: worker_url_def nat_mod_as_int)
  show "hd (fallbacks v (int i)) = int i"
    using fallbacks_set(2) [of "int i" v] assms(2,3) v by simp
qed

text \<open>
  C20: Startup builds what was configured. From any environment that loads with finite numbers, the
  application fails to start only when a Redis URL is set and its client cannot connect. Otherwise the
  router is a fresh affinity router with the configured limits when the router setting is
  \<open>affinity\<close>, and a fresh round robin when it is \<open>round-robin\<close>; there are as many replicas as configured,
  numbered from 0, empty and idle, with the configured hardware, and each evicts adaptively with the
  configured thresholds when the policy setting is \<open>adaptive\<close>, and by \<open>lru\<close> when it is that. The
  predictor is fresh and nothing has been counted. The session map is the shared one, on the configured URL, exactly when the application
  reports itself safe for several pods, and it logs a warning at startup exactly when it does not; the map in
  memory has the configured size and lifetime. The configuration is one the other components accept, and
  with the vLLM backend replica \<open>i\<close> is served by the \<open>i\<close>-th configured endpoint, first in its own fallback
  order.
\<close>

theorem startup_builds_what_was_configured:
  assumes load: "load_settings env = Inr s"
    and fin: "finite_cluster (set_cluster s) = Some c" "session_ttl_s s = Finite lifetime"
  shows "case create_app connect tiktoken s None h of
      None \<Rightarrow> False
    | Some (Inl e) \<Rightarrow> \<exists>u err. redis_url s = Some u \<and> connect u = Inl err \<and> e = StoreFailed err
    | Some (Inr a) \<Rightarrow> wf_cluster_config c \<and>
        (set_router s = ''affinity'' \<and> g_router (app_gateway a) = GAffinity (new_affinity_router (cc_policy c)) \<or>
         set_router s = ''round-robin'' \<and> g_router (app_gateway a) = GRoundRobin \<lparr>cursor = 0\<rparr>) \<and>
        (set_policy s = ''adaptive'' \<and>
           g_replicas (app_gateway a) =
             map (\<lambda>i. new_replica (int i) (hardware c) (adaptive_policy (cc_policy c))) [0..<nat (ec_replicas (set_cluster s))] \<or>
         set_policy s = ''lru'' \<and>
           g_replicas (app_gateway a) =
             map (\<lambda>i. new_replica (int i) (hardware c) lru_policy) [0..<nat (ec_replicas (set_cluster s))]) \<and>
        g_predictor (app_gateway a) = new_predictor (cc_predictor c) \<and> g_metrics (app_gateway a) = [] \<and>
        app_settings a = s \<and> app_tokenizer a = new_tokenizer tiktoken (set_tokenizer s) \<and>
        (case g_store (app_gateway a) of
           RedisStore r \<Rightarrow> multi_pod_safe s \<and> map fst (startup_log ops a) = [Info] \<and>
             (\<exists>u client. redis_url s = Some u \<and> connect u = Inr client \<and>
                r = new_redis_store client lifetime ''agentserve'')
         | MemoryStore m \<Rightarrow> \<not> multi_pod_safe s \<and> map fst (startup_log ops a) = [Warning, Info] \<and>
             wf_mem_store m \<and> m = new_mem_store (set_max_sessions s) lifetime) \<and>
        backend_name (app_backend a) = set_backend s \<and>
        (\<forall>v. app_backend a = VllmBackend v \<longrightarrow>
           length (g_replicas (app_gateway a)) = length (vllm_endpoints s) \<and>
           (\<forall>i < length (vllm_endpoints s).
              worker_url v (rep_id (g_replicas (app_gateway a) ! i)) =
                rstrip_slash (vllm_endpoints s ! i) @ ''/v1/chat/completions'' \<and>
              hd (fallbacks v (rep_id (g_replicas (app_gateway a) ! i))) = int i))"
proof -
  note sound = load_settings_sound [OF load]
  have kinds: "set_backend s \<in> {''simulated'', ''vllm''}"
    "set_router s \<in> {''affinity'', ''round-robin''}" "set_policy s \<in> {''adaptive'', ''lru''}"
    using load [unfolded load_settings_Inr] by blast+
  have wf: "wf_cluster_config c" using sound(5) fin(1) by blast
  have url: "redis_url s \<noteq> Some []"
    using load [unfolded load_settings_Inr] by (auto simp: env_optional_def split: option.splits if_splits)
  have n: "cc_replicas c = ec_replicas (set_cluster s)"
    using fin(1) by (auto simp: finite_cluster_def split: option.splits)
  have backend: "\<exists>b. build_backend s h = Inr b \<and> backend_name b = set_backend s \<and>
      (\<forall>v. b = VllmBackend v \<longrightarrow> set_backend s = ''vllm'' \<and>
        new_vllm_backend (vllm_endpoints s) (vllm_model s) (vllm_max_retries s) h = Inr v)"
    using kinds(1) load [unfolded load_settings_Inr] by (auto simp: build_backend_def new_vllm_backend_def)
  then obtain b where b: "build_backend s h = Inr b" "backend_name b = set_backend s"
    "\<And>v. b = VllmBackend v \<Longrightarrow> set_backend s = ''vllm'' \<and>
        new_vllm_backend (vllm_endpoints s) (vllm_model s) (vllm_max_retries s) h = Inr v" by blast
  let ?g = "\<lambda>st. create_gateway c (set_router s) (set_policy s) st"
  have served: "length (g_replicas (?g st)) = length (vllm_endpoints s) \<and>
      (\<forall>i < length (vllm_endpoints s).
        worker_url v (rep_id (g_replicas (?g st) ! i)) = rstrip_slash (vllm_endpoints s ! i) @ ''/v1/chat/completions'' \<and>
        hd (fallbacks v (rep_id (g_replicas (?g st) ! i))) = int i)" if "b = VllmBackend v" for v st
    using b(3) [OF that] sound(2) n
      new_backend_serves [of "vllm_endpoints s" "vllm_model s" "vllm_max_retries s" h v, OF _ sound(3)]
    by (simp add: create_gateway_def build_replicas_def new_replica_def)
  show ?thesis
  proof (cases "build_session_store connect (redis_url s) lifetime (set_max_sessions s)")
    case (Inl e)
    then show ?thesis using fin url b(1)
      by (auto simp: create_app_def build_session_store_def split: option.splits if_splits sum.splits)
  next
    case (Inr st)
    then have store: "case st of
           RedisStore r \<Rightarrow> multi_pod_safe s \<and>
             (\<exists>u client. redis_url s = Some u \<and> connect u = Inr client \<and> r = new_redis_store client lifetime ''agentserve'')
         | MemoryStore m \<Rightarrow> \<not> multi_pod_safe s \<and> wf_mem_store m \<and> m = new_mem_store (set_max_sessions s) lifetime"
      using url wf_new_mem_store [of "set_max_sessions s" lifetime] sound(4)
      by (auto simp: build_session_store_def multi_pod_safe_def new_mem_store_def
          split: option.splits if_splits sum.splits)
    define a where "a = \<lparr>app_settings = s, app_gateway = ?g st, app_backend = b,
      app_tokenizer = new_tokenizer tiktoken (set_tokenizer s)\<rparr>"
    have app: "create_app connect tiktoken s None h = Some (Inr a)"
      using Inr fin b(1) by (simp add: create_app_def a_def)
    have parts: "app_settings a = s" "app_gateway a = ?g st" "app_backend a = b"
      "app_tokenizer a = new_tokenizer tiktoken (set_tokenizer s)" "g_store (app_gateway a) = st"
      "g_predictor (app_gateway a) = new_predictor (cc_predictor c)" "g_metrics (app_gateway a) = []"
      by (simp_all add: a_def create_gateway_def)
    have route: "set_router s = ''affinity'' \<and> g_router (app_gateway a) = GAffinity (new_affinity_router (cc_policy c)) \<or>
         set_router s = ''round-robin'' \<and> g_router (app_gateway a) = GRoundRobin \<lparr>cursor = 0\<rparr>"
      using kinds(2) by (auto simp: parts create_gateway_def)
    have evict: "set_policy s = ''adaptive'' \<and> g_replicas (app_gateway a) =
           map (\<lambda>i. new_replica (int i) (hardware c) (adaptive_policy (cc_policy c))) [0..<nat (ec_replicas (set_cluster s))] \<or>
         set_policy s = ''lru'' \<and> g_replicas (app_gateway a) =
           map (\<lambda>i. new_replica (int i) (hardware c) lru_policy) [0..<nat (ec_replicas (set_cluster s))]"
      using kinds(3) n by (auto simp: parts create_gateway_def build_replicas_def)
    have stores: "case g_store (app_gateway a) of
           RedisStore r \<Rightarrow> multi_pod_safe s \<and> map fst (startup_log ops a) = [Info] \<and>
             (\<exists>u client. redis_url s = Some u \<and> connect u = Inr client \<and>
                r = new_redis_store client lifetime ''agentserve'')
         | MemoryStore m \<Rightarrow> \<not> multi_pod_safe s \<and> map fst (startup_log ops a) = [Warning, Info] \<and>
             wf_mem_store m \<and> m = new_mem_store (set_max_sessions s) lifetime"
      unfolding parts(5) using store by (cases st) (simp_all add: parts(1) startup_log_def)
    have name: "backend_name (app_backend a) = set_backend s" by (simp only: parts(3) b(2))
    have endpoint: "\<forall>v. app_backend a = VllmBackend v \<longrightarrow>
           length (g_replicas (app_gateway a)) = length (vllm_endpoints s) \<and>
           (\<forall>i < length (vllm_endpoints s).
              worker_url v (rep_id (g_replicas (app_gateway a) ! i)) =
                rstrip_slash (vllm_endpoints s ! i) @ ''/v1/chat/completions'' \<and>
              hd (fallbacks v (rep_id (g_replicas (app_gateway a) ! i))) = int i)"
      unfolding parts(2,3) by (intro allI impI served)
    show ?thesis unfolding app option.case sum.case
      by (intro conjI wf route evict parts(1,4,6,7) stores name endpoint)
  qed
qed

lemma startup_builds_what_was_configured_witness:
  "\<exists>a st. create_app (\<lambda>u. Inl (ClientError ''refused'')) None default_settings None () = Some (Inr a) \<and>
     g_store (app_gateway a) = (MemoryStore st :: unit built_store) \<and> wf_mem_store st \<and> ttl_s st = 3600 \<and>
     length (g_replicas (app_gateway a)) = 4 \<and>
     g_router (app_gateway a) = GAffinity (new_affinity_router default_policy_config)"
proof -
  have fin: "session_ttl_s default_settings = Finite 3600" "redis_url default_settings = None"
    "set_router default_settings = ''affinity''" "set_policy default_settings = ''adaptive''"
    "ec_replicas (set_cluster default_settings) = 4" "cc_policy default_cluster_config = default_policy_config"
    "ttl_s (new_mem_store m x) = x" for m x
    by (simp_all add: default_settings_def default_cluster_config_def new_mem_store_def)
  let ?app = "create_app (\<lambda>u. Inl (ClientError ''refused'') :: client_error + unit) None default_settings None ()"
  note law = startup_builds_what_was_configured [OF load_no_environment finite_default_settings fin(1),
      where connect = "\<lambda>u. Inl (ClientError ''refused'') :: client_error + unit" and tiktoken = None and h = "()"
        and ops = "built_ops undefined"]
  obtain a where "?app = Some (Inr a)"
    using law fin(2) by (auto split: option.splits sum.splits)
  with law fin show ?thesis by (auto simp: multi_pod_safe_def split: built_store.splits)
qed

end
