(* ===== verification/Requests.thy ===== *)
theory Requests
  imports App
begin

section \<open>Requests served one after the other\<close>

text \<open>
  Sequences of calls to the assembled application. A \<open>visit\<close> is a request with the clock readings
  made while it is served, and \<open>converse\<close> serves visits one after the other. The handler and its
  generator in one go are a run of the transition system \<open>gw_step\<close> of the requests in flight, so
  what holds in its reachable states holds between any two calls.
\<close>

record visit =
  vs_request :: http_request
  vs_clocks :: "real \<times> real \<times> real" \<comment> \<open>of \<open>get_last_seen\<close>, \<open>get_home\<close> and \<open>set_home\<close>\<close>
  vs_clock :: real \<comment> \<open>of \<open>set_last_seen\<close>\<close>
  vs_now :: real
  vs_elapsed :: real

definition serve_visit ::
  "'s session_store \<Rightarrow> 'h upstream \<Rightarrow> visit \<Rightarrow> ('s, 'h) app \<Rightarrow> (http_failure + chat_answer) \<times> ('s, 'h) app" where
  "serve_visit ops up v =
     chat_endpoint ops up (\<lambda>k. vs_elapsed v) (vs_elapsed v) (vs_clocks v) (vs_clock v) (vs_now v) (vs_request v)"

fun converse ::
  "'s session_store \<Rightarrow> 'h upstream \<Rightarrow> visit list \<Rightarrow> ('s, 'h) app \<Rightarrow> (http_failure + chat_answer) list \<times> ('s, 'h) app" where
  "converse ops up [] a = ([], a)"
| "converse ops up (v # vs) a =
     (let (res, a1) = serve_visit ops up v a; (rs, a2) = converse ops up vs a1 in (res # rs, a2))"

lemma read_call_body: "read_call key tk rq = Inr cl \<Longrightarrow> \<exists>d. c_body cl = JDict d"
  by (auto simp: read_call_def or_unhandled_def json_get_def split: sum.splits json.splits)

subsection \<open>One call is a run of the transition system\<close>

definition backend_method :: "'h app_backend \<Rightarrow> worker_report \<Rightarrow> execute_method" where
  \<comment> \<open>what the backend does to the replica it serves a call on, given what the worker reported\<close>
  "backend_method b = (case b of SimulatedBackend h \<Rightarrow> (\<lambda>w. sim_execute h) | VllmBackend v \<Rightarrow> vllm_result)"

lemma backend_method_cases: "backend_method b = vllm_result \<or> (\<exists>h. backend_method b = (\<lambda>w. sim_execute h))"
  by (cases b) (auto simp: backend_method_def)

lemma execute_outcome:
  assumes "execute api watch b r c now gap = (out, b')"
  shows "backend_method b' = backend_method b"
    and "isl out \<or> (\<exists>w. out = backend_method b w r (c_sid c) (c_prompt c) (c_max c) now (now + gap))"
  using assms by (auto simp: execute_def backend_method_def split: app_backend.splits prod.splits sum.splits)

lemma stream_execute_outcome:
  assumes "stream_execute up watch elapsed b r c now gap = ((chunks, out), b')"
  shows "backend_method b' = backend_method b"
    and "isl out \<or> (\<exists>w. out = backend_method b w r (c_sid c) (c_prompt c) (c_max c) now (now + gap))"
  using assms
  by (auto simp: stream_execute_def backend_method_def Let_def split: app_backend.splits prod.splits sum.splits)

lemma finish_call_const:
  assumes "exec (g_replicas g ! i) (c_sid c) (c_prompt c) (c_max c) now (now + gap) = out"
  shows "finish_call ops (\<lambda>r sid pt ot now ret. out) clock i c now gap g = finish_call ops exec clock i c now gap g"
  using assms by (simp add: finish_call_def)

lemma serve_whole_run:
  assumes "serve_whole ops up watch clock i c now gap a = (res, a')" "\<not> c_stream c"
    and j: "j = \<lparr>j_replica = i, j_phase = Running, j_call = c, j_now = now, j_gap = gap\<rparr>"
  shows "gw_step ops (backend_method (app_backend a)) valid
    (enter_slot i (app_gateway a), add_mset j J) (app_gateway a', J)"
    and "backend_method (app_backend a') = backend_method (app_backend a)"
proof -
  let ?g = "enter_slot i (app_gateway a)" and ?exec = "backend_method (app_backend a)"
  obtain out b where out: "execute (up_client up) watch (app_backend a) (g_replicas ?g ! i) c now gap = (out, b)" by fastforce
  obtain r g' where fin: "finish_call ops (\<lambda>r sid pt ot now ret. out) clock i c now gap ?g = (r, g')" by fastforce
  have a': "app_gateway a' = g'" "app_backend a' = b"
    using assms(1) by (auto simp: serve_whole_def Let_def out fin split: sum.splits)
  show "backend_method (app_backend a') = ?exec" using execute_outcome(1) [OF out] a' by simp
  from execute_outcome(2) [OF out] show "gw_step ops ?exec valid (?g, add_mset j J) (app_gateway a', J)"
  proof
    assume "isl out"
    then have "g' = leave_slot (j_replica j) ?g" using fin by (auto simp: finish_call_def j isl_def)
    then show ?thesis using gw_step.upstream_failure [of j] by (simp add: a' j)
  next
    assume "\<exists>w. out = ?exec w (g_replicas ?g ! i) (c_sid c) (c_prompt c) (c_max c) now (now + gap)"
    then obtain w where "?exec w (g_replicas ?g ! i) (c_sid c) (c_prompt c) (c_max c) now (now + gap) = out" by metis
    from finish_call_const [where exec = "?exec w", OF this] fin
    have "finish_call ops (?exec w) clock (j_replica j) (j_call j) (j_now j) (j_gap j) ?g = (r, g')" by (simp add: j)
    then show ?thesis unfolding a' by (rule gw_step.finish [rotated 2]) (simp_all add: j assms(2))
  qed
qed

lemma serve_stream_run:
  assumes "serve_stream ops up watch elapsed clock i c now gap a = (res, a')" "c_stream c"
    and j: "j = \<lparr>j_replica = i, j_phase = Queued, j_call = c, j_now = now, j_gap = gap\<rparr>"
  shows "(gw_step ops (backend_method (app_backend a)) valid)\<^sup>*\<^sup>* (app_gateway a, add_mset j J) (app_gateway a', J)"
    and "backend_method (app_backend a') = backend_method (app_backend a)"
proof -
  let ?g = "enter_slot i (app_gateway a)" and ?exec = "backend_method (app_backend a)" and ?j = "j\<lparr>j_phase := Running\<rparr>"
  have "(gw_step ops ?exec valid)\<^sup>*\<^sup>* (app_gateway a, add_mset j J) (app_gateway a', J) \<and>
      backend_method (app_backend a') = ?exec"
  proof (cases "stream_model c")
    case (Inl e)
    with assms(1) have "a' = a" by (simp add: serve_stream_def)
    moreover have "gw_step ops ?exec valid (app_gateway a, add_mset j J) (app_gateway a, J)"
      by (rule gw_step.cancel_queued) (simp add: j)
    ultimately show ?thesis by auto
  next
    case (Inr model)
    obtain chunks out b where out: "stream_execute up watch elapsed (app_backend a) (g_replicas ?g ! i) c now gap = ((chunks, out), b)"
      by (metis surj_pair)
    obtain events g' where gen: "stream_response ops clock i c model now chunks out ?g = (events, g')" by fastforce
    have a': "app_gateway a' = g'" "app_backend a' = b"
      using assms(1) by (auto simp: serve_stream_def Let_def out gen Inr)
    have start: "gw_step ops ?exec valid (app_gateway a, add_mset j J) (?g, add_mset ?j J)"
      using gw_step.start [of j ops ?exec valid "app_gateway a" J] by (simp add: j)
    from stream_execute_outcome(2) [OF out] have "gw_step ops ?exec valid (?g, add_mset ?j J) (app_gateway a', J)"
    proof
      assume "isl out"
      then have "g' = leave_slot (j_replica ?j) ?g" using gen by (auto simp: stream_response_def Let_def j isl_def)
      then show ?thesis using gw_step.upstream_failure [of ?j] by (simp add: a' j)
    next
      assume "\<exists>w. out = ?exec w (g_replicas ?g ! i) (c_sid c) (c_prompt c) (c_max c) now (now + gap)"
      then obtain w where "out = ?exec w (g_replicas ?g ! j_replica ?j) (c_sid (j_call ?j)) (c_prompt (j_call ?j))
          (c_max (j_call ?j)) (j_now ?j) (j_now ?j + j_gap ?j)" by (auto simp: j)
      then show ?thesis unfolding a'
        by (rule gw_step.finish_stream [rotated 2]) (use gen in \<open>simp_all add: j assms(2)\<close>)
    qed
    with start stream_execute_outcome(1) [OF out] a'(2) show ?thesis by auto
  qed
  then show "(gw_step ops ?exec valid)\<^sup>*\<^sup>* (app_gateway a, add_mset j J) (app_gateway a', J)"
    "backend_method (app_backend a') = ?exec" by blast+
qed

definition accepts :: "(call \<Rightarrow> bool) \<Rightarrow> ('s, 'h) app \<Rightarrow> http_request \<Rightarrow> bool" where
  \<comment> \<open>the request is refused, or the call it is read as satisfies \<open>valid\<close>\<close>
  "accepts valid a rq \<longleftrightarrow>
     (case read_call (api_key (app_settings a)) (app_tokenizer a) rq of Inl e \<Rightarrow> True | Inr c \<Rightarrow> valid c)"

lemma chat_endpoint_frame:
  assumes "chat_endpoint ops up watch elapsed clocks clock now rq a = (res, a')"
  shows "app_settings a' = app_settings a \<and> app_tokenizer a' = app_tokenizer a"
  using assms
  by (auto simp: chat_endpoint_def serve_whole_def serve_stream_def Let_def split: sum.splits prod.splits if_splits)

lemma chat_endpoint_run:
  assumes run: "chat_endpoint ops up watch elapsed clocks clock now rq a = (res, a')" and ok: "accepts valid a rq"
  shows "(gw_step ops (backend_method (app_backend a)) valid)\<^sup>*\<^sup>* (app_gateway a, J) (app_gateway a', J) \<and>
    backend_method (app_backend a') = backend_method (app_backend a)"
proof (cases "read_call (api_key (app_settings a)) (app_tokenizer a) rq")
  case (Inl e)
  with run show ?thesis by (simp add: chat_endpoint_def)
next
  case (Inr c)
  with ok have valid: "valid c" by (simp add: accepts_def)
  obtain r g where sched: "schedule ops clocks (c_sid c) (c_tool c) now (app_gateway a) = (r, g)" by fastforce
  show ?thesis
  proof (cases r)
    case (Inl e)
    then have "a' = a\<lparr>app_gateway := g\<rparr>" using run Inr sched by (simp add: chat_endpoint_def)
    moreover have "gw_step ops (backend_method (app_backend a)) valid (app_gateway a, J) (g, J)"
      by (rule gw_step.refuse [where c = c and clocks = clocks and now = now]) (use valid sched Inl in simp_all)
    ultimately show ?thesis by auto
  next
    case placed: (Inr p)
    obtain i gap where p: "r = Inr (i, gap)" by (metis placed surj_pair)
    note sched = sched [unfolded p]
    let ?a = "a\<lparr>app_gateway := g\<rparr>" and ?step = "gw_step ops (backend_method (app_backend a)) valid"
    show ?thesis
    proof (cases "c_stream c")
      case True
      then have "serve_stream ops up watch elapsed clock i c now gap ?a = (res, a')"
        using run Inr sched by (simp add: chat_endpoint_def)
      note served = serve_stream_run(1) [OF this True refl, of valid J] serve_stream_run(2) [OF this True refl]
      have "?step (app_gateway a, J) (g, add_mset \<lparr>j_replica = i, j_phase = Queued, j_call = c, j_now = now, j_gap = gap\<rparr> J)"
        by (rule gw_step.admit_stream [where clocks = clocks]) (simp_all add: valid True sched)
      with served show ?thesis by (auto intro: converse_rtranclp_into_rtranclp)
    next
      case False
      then have "serve_whole ops up watch clock i c now gap ?a = (res, a')"
        using run Inr sched by (simp add: chat_endpoint_def)
      note served = serve_whole_run(1) [OF this False refl, of valid J] serve_whole_run(2) [OF this False refl]
      have "?step (app_gateway a, J)
          (enter_slot i g, add_mset \<lparr>j_replica = i, j_phase = Running, j_call = c, j_now = now, j_gap = gap\<rparr> J)"
        by (rule gw_step.admit [where clocks = clocks]) (simp_all add: valid False sched)
      with served show ?thesis by auto
    qed
  qed
qed

lemma gw_run_reachable:
  "(gw_step ops exec valid)\<^sup>*\<^sup>* st st' \<Longrightarrow> gw_reachable ops exec valid g0 st \<Longrightarrow> gw_reachable ops exec valid g0 st'"
  by (induction rule: rtranclp_induct) (auto intro: gw_reachable.step)

lemma serve_visit_frame:
  assumes "serve_visit ops up v a = (res, a')"
  shows "app_settings a' = app_settings a" "app_tokenizer a' = app_tokenizer a" "accepts valid a' rq = accepts valid a rq"
  using chat_endpoint_frame [OF assms [unfolded serve_visit_def]] by (simp_all add: accepts_def)

lemma converse_run:
  assumes "converse ops up vs a = (rs, a')" "\<forall>v \<in> set vs. accepts valid a (vs_request v)"
  shows "(gw_step ops (backend_method (app_backend a)) valid)\<^sup>*\<^sup>* (app_gateway a, J) (app_gateway a', J) \<and> length rs = length vs"
  using assms
proof (induction vs arbitrary: a rs)
  case (Cons v vs)
  obtain r a1 where v: "serve_visit ops up v a = (r, a1)" by fastforce
  obtain rs1 where vs: "converse ops up vs a1 = (rs1, a')" "rs = r # rs1"
    using Cons.prems(1) by (auto simp: v split: prod.splits)
  have "(gw_step ops (backend_method (app_backend a)) valid)\<^sup>*\<^sup>* (app_gateway a, J) (app_gateway a1, J) \<and>
      backend_method (app_backend a1) = backend_method (app_backend a)"
    using v Cons.prems(2) by (intro chat_endpoint_run) (auto simp: serve_visit_def)
  moreover have "\<forall>v \<in> set vs. accepts valid a1 (vs_request v)"
    using Cons.prems(2) serve_visit_frame(3) [OF v] by simp
  ultimately show ?case using Cons.IH [OF vs(1)] vs(2) by (metis length_Cons rtranclp_trans)
qed simp

subsection \<open>Every accepted call is answered\<close>

definition sized_call :: "call \<Rightarrow> bool" where
  \<comment> \<open>the one thing the handler does not check\<close>
  "sized_call c \<longleftrightarrow> 0 \<le> c_max c"

lemma read_call_prompt: "read_call key tk rq = Inr cl \<Longrightarrow> 0 \<le> c_prompt cl"
proof -
  assume read: "read_call key tk rq = Inr cl"
  then have "c_messages cl \<noteq> []" "count_messages tk (c_messages cl) = Inr (c_prompt cl)"
    by (auto simp: read_call_def or_unhandled_def check_messages_def split: sum.splits json.splits list.splits if_splits)
  then show ?thesis using messages_at_least_four [of "c_messages cl" tk]
    by (auto simp: count_messages_sum split: if_splits)
qed

lemma accepts_valid: "accepts sized_call a rq \<Longrightarrow> accepts valid_call a rq"
  using read_call_prompt [of "api_key (app_settings a)" "app_tokenizer a" rq]
  by (auto simp: accepts_def valid_call_def sized_call_def split: sum.splits)

definition answered_properly :: "('s, 'h) app \<Rightarrow> visit \<Rightarrow> http_failure + chat_answer \<Rightarrow> bool" where
  \<comment> \<open>the refusal of a bad request, the answer of a good one, or its stream with the statistics and the end marker\<close>
  "answered_properly a v r \<longleftrightarrow>
     (case read_call (api_key (app_settings a)) (app_tokenizer a) (vs_request v) of
        Inl e \<Rightarrow> r = Inl e
      | Inr c \<Rightarrow>
          if c_stream c
          then \<exists>m d res. r = Inr (EventStream
                 [Data (envelope (c_sid c) m (vs_now v) d JNull), Data (final_event (c_sid c) (vs_now v) res), StreamDone])
          else \<exists>j. r = Inr (Answer j))"

lemma sim_visit_answered:
  assumes g: "machine_ok c (app_gateway a)" "app_backend a = SimulatedBackend (hardware c)" and c: "wf_cluster_config c"
    and ok: "accepts valid_call a (vs_request v)"
  shows "\<exists>r a'. serve_visit mem_ops up v a = (r, a') \<and> answered_properly a v r \<and> machine_ok c (app_gateway a') \<and>
    app_backend a' = app_backend a"
proof (cases "read_call (api_key (app_settings a)) (app_tokenizer a) (vs_request v)")
  case (Inl e)
  then show ?thesis using g by (simp add: serve_visit_def chat_endpoint_def answered_properly_def)
next
  case (Inr cl)
  then have valid: "valid_call cl" using ok by (simp add: accepts_def)
  from schedule_total [OF g(1) c, of "vs_clocks v" "c_sid cl" "c_tool cl" "vs_now v"] obtain i gap g1 where
    sched: "schedule mem_ops (vs_clocks v) (c_sid cl) (c_tool cl) (vs_now v) (app_gateway a) = (Inr (i, gap), g1)"
    "machine_ok c g1" "i < length (g_replicas g1)" by auto
  let ?g = "enter_slot i g1"
  have ok1: "machine_ok c ?g" "i < length (g_replicas ?g)" using machine_ok_slots(1) sched(2,3) by simp_all
  obtain d where body: "c_body cl = JDict d" using read_call_body [OF Inr] by blast
  show ?thesis
  proof (cases "c_stream cl")
    case True
    obtain model where model: "stream_model cl = Inr model" using body by (auto simp: stream_model_def)
    from sim_exec_ok [OF ok1 valid, of "vs_now v" "vs_now v + gap"] obtain res r' where
      ex: "sim_execute (hardware c) (g_replicas ?g ! i) (c_sid cl) (c_prompt cl) (c_max cl) (vs_now v) (vs_now v + gap) = Inr (res, r')"
      and g2: "machine_ok c (leave_slot i (?g\<lparr>g_replicas := (g_replicas ?g)[i := r']\<rparr>))"
      and res: "0 \<le> reused_tokens res" "0 \<le> computed_tokens res" by blast
    from record_result_total [OF g2 res, of "vs_clock v" "c_sid cl" "vs_now v"] obtain g3 where
      "record_result mem_ops (vs_clock v) (c_sid cl) res (vs_now v) (leave_slot i (?g\<lparr>g_replicas := (g_replicas ?g)[i := r']\<rparr>)) =
        (Inr (), g3)" "machine_ok c g3" by blast
    with g(2) Inr sched(1) True model ex show ?thesis
      by (auto simp: serve_visit_def chat_endpoint_def serve_stream_def stream_execute_def stream_response_def
          resume_stream_def Let_def answered_properly_def)
  next
    case False
    obtain out b where exec: "execute (up_client up) (\<lambda>k. vs_elapsed v) (SimulatedBackend (hardware c)) (g_replicas ?g ! i) cl
        (vs_now v) gap = (out, b)" by fastforce
    then have b: "b = SimulatedBackend (hardware c)"
      and out: "sim_execute (hardware c) (g_replicas ?g ! i) (c_sid cl) (c_prompt cl) (c_max cl) (vs_now v) (vs_now v + gap) = out"
      by (simp_all add: execute_def)
    from finish_call_total [OF ok1 valid, of "vs_clock v" "vs_now v" gap] finish_call_const [where exec = "sim_execute (hardware c)", OF out, of mem_ops "vs_clock v"]
    obtain res g2 where
      "finish_call mem_ops (\<lambda>r sid pt ot now ret. out) (vs_clock v) i cl (vs_now v) gap ?g = (Inr res, g2)" "machine_ok c g2"
      by auto
    moreover obtain j where "chat_response (vllm_model (app_settings a)) cl (vs_now v) gap res = Inr j"
      using body by (auto simp: chat_response_def Let_def)
    ultimately show ?thesis using g(2) Inr sched(1) False exec b
      by (simp add: serve_visit_def chat_endpoint_def serve_whole_def Let_def answered_properly_def or_unhandled_def)
  qed
qed

lemma sim_converse_answered:
  assumes "machine_ok c (app_gateway a)" "app_backend a = SimulatedBackend (hardware c)" "wf_cluster_config c"
    and "\<forall>v \<in> set vs. accepts valid_call a (vs_request v)"
  shows "\<exists>rs a'. converse mem_ops up vs a = (rs, a') \<and> list_all2 (answered_properly a) vs rs \<and> machine_ok c (app_gateway a')"
  using assms
proof (induction vs arbitrary: a)
  case (Cons v vs)
  from sim_visit_answered [OF Cons.prems(1-3), of v up] Cons.prems(4) obtain r a1 where
    v: "serve_visit mem_ops up v a = (r, a1)" "answered_properly a v r" "machine_ok c (app_gateway a1)"
    "app_backend a1 = app_backend a" by auto
  have same: "answered_properly a1 = answered_properly a"
    using serve_visit_frame(1,2) [OF v(1)] by (simp add: answered_properly_def fun_eq_iff)
  have "\<forall>v \<in> set vs. accepts valid_call a1 (vs_request v)"
    using Cons.prems(4) serve_visit_frame(3) [OF v(1)] by simp
  from Cons.IH [OF v(3) _ Cons.prems(3) this] v(4) Cons.prems(2) v(1,2) show ?case
    by (auto simp: same)
qed simp

subsection \<open>Properties\<close>

text \<open>An application on the defaults, and a bad, a whole and a streaming request to it.\<close>

definition example_app :: "(mem_store, unit) app" where
  "example_app =
     \<lparr>app_settings = default_settings,
      app_gateway = create_gateway default_cluster_config ''affinity'' ''adaptive'' default_mem_store,
      app_backend = SimulatedBackend (hardware default_cluster_config),
      app_tokenizer = new_tokenizer None ''cl100k_base''\<rparr>"

definition example_visit :: "(string \<times> json) list \<Rightarrow> real \<Rightarrow> visit" where
  "example_visit opts t =
     \<lparr>vs_request = \<lparr>rq_authorization = None, rq_session_id = Some ''s'', rq_tool_name = None,
        rq_body = Inr (JDict ((''messages'', JList [user_message ''hi'']) # opts))\<rparr>,
      vs_clocks = (t, t, t), vs_clock = t, vs_now = 1000 * t, vs_elapsed = 5\<rparr>"

definition example_visits :: "visit list" where
  "example_visits = [example_visit [(''max_tokens'', JNull)] 1, example_visit [] 2, example_visit [(''stream'', JBool True)] 3]"

lemma example_reads:
  "read_call (api_key (app_settings example_app)) (app_tokenizer example_app) (vs_request (example_visits ! 0)) = Inl (Unhandled TypeError)"
  "\<exists>cl. read_call (api_key (app_settings example_app)) (app_tokenizer example_app) (vs_request (example_visits ! 1)) = Inr cl \<and>
     \<not> c_stream cl \<and> sized_call cl"
  "\<exists>cl. read_call (api_key (app_settings example_app)) (app_tokenizer example_app) (vs_request (example_visits ! 2)) = Inr cl \<and>
     c_stream cl \<and> sized_call cl"
proof -
  have n: "\<exists>n. count_messages tk [user_message ''hi''] = Inr n" for tk by (simp add: count_messages_sum user_message_def)
  note defs = example_app_def example_visits_def example_visit_def read_call_def require_api_key_def check_session_id_def
    check_messages_def or_unhandled_def sized_call_def default_settings_def
  show "read_call (api_key (app_settings example_app)) (app_tokenizer example_app) (vs_request (example_visits ! 0)) = Inl (Unhandled TypeError)"
    by (simp add: defs)
  show "\<exists>cl. read_call (api_key (app_settings example_app)) (app_tokenizer example_app) (vs_request (example_visits ! 1)) = Inr cl \<and>
     \<not> c_stream cl \<and> sized_call cl"
    using n [of "app_tokenizer example_app"] by (auto simp: defs)
  show "\<exists>cl. read_call (api_key (app_settings example_app)) (app_tokenizer example_app) (vs_request (example_visits ! 2)) = Inr cl \<and>
     c_stream cl \<and> sized_call cl"
    using n [of "app_tokenizer example_app"] by (auto simp: defs)
qed

lemma example_accepts: "\<forall>v \<in> set example_visits. accepts sized_call example_app (vs_request v)"
  using example_reads by (auto simp: example_visits_def accepts_def)

text \<open>
  Serving calls is a run of the gateway's transition system. With any session store, either
  backend, any requests, good or bad, streaming or not, and whatever else is in flight, the endpoint
  called once after the other takes the gateway from a reachable state to a reachable state with the
  same requests in flight, gives one response per request, and leaves the in-flight count of every
  replica as it was.
\<close>

theorem endpoint_runs_the_transition_system:
  assumes start: "gw_reachable ops (backend_method (app_backend a)) valid (create_gateway c rk pk s) (app_gateway a, J)"
      "0 < cc_replicas c"
    and calls: "converse ops up vs a = (rs, a')" "\<forall>v \<in> set vs. accepts valid a (vs_request v)"
  shows "gw_reachable ops (backend_method (app_backend a)) valid (create_gateway c rk pk s) (app_gateway a', J) \<and>
    length rs = length vs \<and> map inflight (g_replicas (app_gateway a')) = map inflight (g_replicas (app_gateway a))"
proof -
  have run: "gw_reachable ops (backend_method (app_backend a)) valid (create_gateway c rk pk s) (app_gateway a', J)"
    "length rs = length vs" using converse_run [OF calls, of J] gw_run_reachable [OF _ start(1)] by blast+
  have "slots_ok (app_gateway a'', J) \<and> length (g_replicas (app_gateway a'')) = length (g_replicas (create_gateway c rk pk s))"
    if "gw_reachable ops (backend_method (app_backend a)) valid (create_gateway c rk pk s) (app_gateway a'', J)"
    for a'' :: "('a, 'b) app"
    using that backend_method_cases [of "app_backend a"] vllm_gateway.slots_reachable [OF _ create_gateway_started [OF start(2)]]
      sim_gateway.slots_reachable [OF _ create_gateway_started [OF start(2)]] by fastforce
  from this [OF start(1)] this [OF run(1)] run show ?thesis
    by (auto simp: slots_ok_def inflight_def intro!: nth_equalityI)
qed

lemma endpoint_runs_the_transition_system_witness:
  "\<forall>up. \<exists>rs a'. converse mem_ops up example_visits example_app = (rs, a') \<and> length rs = 3 \<and>
     map inflight (g_replicas (app_gateway a')) = map inflight (g_replicas (app_gateway example_app))"
proof
  fix up
  obtain rs a' where run: "converse mem_ops up example_visits example_app = (rs, a')" by fastforce
  have "gw_reachable mem_ops (backend_method (app_backend example_app)) sized_call
      (create_gateway default_cluster_config ''affinity'' ''adaptive'' default_mem_store) (app_gateway example_app, {#})"
    by (simp add: example_app_def gw_reachable.init)
  from endpoint_runs_the_transition_system [OF this default_replicas run example_accepts] run
  show "\<exists>rs a'. converse mem_ops up example_visits example_app = (rs, a') \<and> length rs = 3 \<and>
      map inflight (g_replicas (app_gateway a')) = map inflight (g_replicas (app_gateway example_app))"
    by (simp add: example_visits_def)
qed

text \<open>
  C7: The simulated gateway answers every call. Started on a well-formed configuration with the
  in-memory store, the application answers any sequence of requests, none with a negative
  \<open>max_tokens\<close>: each bad one with its refusal, each good one with an answer or a complete stream, and in
  between and at the end nothing is in flight, every replica keeps its invariant and both tiers are
  within their budgets.
\<close>

theorem simulated_gateway_answers_every_call:
  assumes start: "app_gateway a = create_gateway c rk pk s" "app_backend a = SimulatedBackend (hardware c)"
    and c: "wf_cluster_config c" "wf_mem_store s"
    and sized: "\<forall>v \<in> set vs. accepts sized_call a (vs_request v)"
  shows "\<exists>rs a'. converse mem_ops up vs a = (rs, a') \<and> list_all2 (answered_properly a) vs rs \<and>
    (\<forall>r \<in> set (g_replicas (app_gateway a')). wf_replica r \<and> inflight r = 0 \<and>
       gpu_tokens r \<le> gpu_cache_tokens (hardware c) \<and> dram_tokens r \<le> dram_cache_tokens (hardware c))"
proof -
  have calls: "\<forall>v \<in> set vs. accepts valid_call a (vs_request v)" using sized accepts_valid by blast
  have "machine_ok c (app_gateway a)" using gw_ok_create [OF c] by (simp add: start(1) gw_ok_def)
  from sim_converse_answered [OF this start(2) c(1) calls] obtain rs a' where
    run: "converse mem_ops up vs a = (rs, a')" "list_all2 (answered_properly a) vs rs" "machine_ok c (app_gateway a')" by blast
  have "0 < cc_replicas c" using c(1) by (simp add: wf_cluster_config_def)
  note started = create_gateway_started [OF this, of rk pk s]
  have "gw_reachable mem_ops (\<lambda>w :: worker_report. sim_execute (hardware c)) valid_call (create_gateway c rk pk s) (app_gateway a', {#})"
    using gw_run_reachable [OF conjunct1 [OF converse_run [OF run(1) calls, of "{#}"]] gw_reachable.init]
    by (simp add: start backend_method_def)
  from sim_gateway.slots_reachable [OF this started] have idle: "\<forall>r \<in> set (g_replicas (app_gateway a')). inflight r = 0"
    by (auto simp: slots_ok_def inflight_def in_set_conv_nth)
  have "wf_replica r \<and> hw r = hardware c" if "r \<in> set (g_replicas (app_gateway a'))" for r
    using that machine_ok_replica(1,4) [OF run(3)] by (metis in_set_conv_nth)
  with run idle show ?thesis using wf_replicaD(3) by (fastforce simp: machine_ok_def cluster_ok_def)
qed

lemma simulated_gateway_answers_every_call_witness:
  "\<forall>up. \<exists>rs a'. converse mem_ops up example_visits example_app = (rs, a') \<and> rs ! 0 = Inl (Unhandled TypeError) \<and>
     (\<exists>j. rs ! 1 = Inr (Answer j)) \<and> (\<exists>events. rs ! 2 = Inr (EventStream (events @ [StreamDone]))) \<and>
     list_all (\<lambda>r. inflight r = 0) (g_replicas (app_gateway a'))"
proof
  fix up
  have start: "app_gateway example_app = create_gateway default_cluster_config ''affinity'' ''adaptive'' default_mem_store"
    "app_backend example_app = SimulatedBackend (hardware default_cluster_config)" by (simp_all add: example_app_def)
  have "wf_mem_store default_mem_store" by (simp add: default_mem_store_def)
  from simulated_gateway_answers_every_call [OF start wf_default_cluster_config this example_accepts, of up] obtain rs a' where
    run: "converse mem_ops up example_visits example_app = (rs, a')" "list_all2 (answered_properly example_app) example_visits rs"
      "\<forall>r \<in> set (g_replicas (app_gateway a')). inflight r = 0" by blast
  have "length example_visits = 3" by (simp add: example_visits_def)
  then have answers: "answered_properly example_app (example_visits ! k) (rs ! k)" if "k < 3" for k
    using run(2) that by (simp add: list_all2_conv_all_nth)
  have "rs ! 0 = Inl (Unhandled TypeError)" using answers [of 0] example_reads(1) by (simp add: answered_properly_def)
  moreover have "\<exists>j. rs ! 1 = Inr (Answer j)" using answers [of 1] example_reads(2) by (auto simp: answered_properly_def)
  moreover have "\<exists>events. rs ! 2 = Inr (EventStream (events @ [StreamDone]))"
    using answers [of 2] example_reads(3) by (auto simp: answered_properly_def append_eq_Cons_conv)
  ultimately show "\<exists>rs a'. converse mem_ops up example_visits example_app = (rs, a') \<and> rs ! 0 = Inl (Unhandled TypeError) \<and>
     (\<exists>j. rs ! 1 = Inr (Answer j)) \<and> (\<exists>events. rs ! 2 = Inr (EventStream (events @ [StreamDone]))) \<and>
     list_all (\<lambda>r. inflight r = 0) (g_replicas (app_gateway a'))"
    using run(1,3) by (auto simp: list_all_iff)
qed

end
