(* ===== verification/Interleaving.thy ===== *)
theory Interleaving
  imports Requests
begin

section \<open>Requests served at the same time\<close>

text \<open>
  The event loop runs one request until it awaits and then another. A request to the assembled
  application is cut where its handler awaits and where its generator yields. With the vLLM adapter it arrives and is scheduled (a whole call
  enters its slot at once, a stream when its generator starts), its worker answers, and the handler
  ends: the replica accounts for the answer, the slot is left and the response goes out. The simulated
  backend does not await, so a whole call is served in one segment; its stream executes the call in its slot,
  which charges the replica, yields the text there, and leaves the slot and records the result when it is
  resumed. \<open>advance\<close> performs one such segment of one request, and a list of segments is an interleaving of the
  handlers. The failover attempts of a call are one segment, as are the lines of a worker's stream: they
  touch the workers only. The yields after a result is recorded are no cuts, since nothing follows them.
  A client that disconnects is a step of \<open>gw_step\<close> and not one of these segments.
\<close>

subsection \<open>The segments of a request\<close>

record flight =
  fl_visit :: visit
  fl_call :: call
  fl_replica :: nat
  fl_gap :: real
  fl_phase :: phase \<comment> \<open>with its result while a stream of the simulated backend waits at its yield\<close>
  fl_model :: json \<comment> \<open>the model a stream names, once its generator has started\<close>
  fl_report :: "(json list \<times> (py_error + worker_report)) option" \<comment> \<open>the pieces of a stream, and how the worker ended\<close>

record ('s, 'h) server =
  sv_app :: "('s, 'h) app"
  sv_flights :: "(nat, flight) dict"
  sv_answers :: "(nat \<times> (http_failure + chat_answer)) list"

datatype segment = Arrives nat | Starts nat | Reaches nat | Ends nat

definition reply :: "nat \<Rightarrow> (http_failure + chat_answer) \<times> ('s, 'h) app \<Rightarrow> ('s, 'h) server \<Rightarrow> ('s, 'h) server" where
  "reply k out sv = sv
     \<lparr>sv_app := snd out, sv_flights := AList.delete k (sv_flights sv), sv_answers := sv_answers sv @ [(k, fst out)]\<rparr>"

definition open_call ::
  "'s session_store \<Rightarrow> 'h upstream \<Rightarrow> nat \<Rightarrow> flight \<Rightarrow> ('s, 'h) server \<Rightarrow> ('s, 'h) server" where
  \<comment> \<open>the handler of a whole call, or the generator of a stream, up to its first await or yield\<close>
  "open_call ops up k fl sv =
     (let a = sv_app sv; v = fl_visit fl; c = fl_call fl; i = fl_replica fl
      in case app_backend a of
           SimulatedBackend h \<Rightarrow>
             if \<not> c_stream c
             then reply k (serve_whole ops up (\<lambda>n. vs_elapsed v) (vs_clock v) i c (vs_now v) (fl_gap fl) a) sv
             else (case stream_model c of
                Inl e \<Rightarrow> reply k (Inl (Unhandled e), a) sv
              | Inr m \<Rightarrow>
                  (let g = enter_slot i (app_gateway a)
                   in case sim_execute h (g_replicas g ! i) (c_sid c) (c_prompt c) (c_max c) (vs_now v) (vs_now v + fl_gap fl) of
                        Inl e \<Rightarrow>
                          (let (events, g') = stream_response ops (vs_clock v) i c m (vs_now v) [] (Inl e) g
                           in reply k (Inr (EventStream events), a\<lparr>app_gateway := g'\<rparr>) sv)
                      | Inr (res, r') \<Rightarrow>
                          sv\<lparr>sv_app := a\<lparr>app_gateway := g\<lparr>g_replicas := (g_replicas g)[i := r']\<rparr>\<rparr>,
                             sv_flights := AList.update k (fl\<lparr>fl_phase := Yielding res, fl_model := m\<rparr>) (sv_flights sv)\<rparr>))
         | VllmBackend b \<Rightarrow>
             (case (if c_stream c then stream_model c else Inr JNull) of
                Inl e \<Rightarrow> reply k (Inl (Unhandled e), a) sv
              | Inr m \<Rightarrow> sv\<lparr>sv_app := a\<lparr>app_gateway := enter_slot i (app_gateway a)\<rparr>,
                           sv_flights := AList.update k (fl\<lparr>fl_phase := Running, fl_model := m\<rparr>) (sv_flights sv)\<rparr>))"

definition arrive ::
  "'s session_store \<Rightarrow> 'h upstream \<Rightarrow> nat \<Rightarrow> visit \<Rightarrow> ('s, 'h) server \<Rightarrow> ('s, 'h) server" where
  "arrive ops up k v sv =
     (let a = sv_app sv
      in case read_call (api_key (app_settings a)) (app_tokenizer a) (vs_request v) of
           Inl e \<Rightarrow> reply k (Inl e, a) sv
         | Inr c \<Rightarrow>
             (case schedule ops (vs_clocks v) (c_sid c) (c_tool c) (vs_now v) (app_gateway a) of
                (Inl e, g) \<Rightarrow> reply k (Inl (Unhandled e), a\<lparr>app_gateway := g\<rparr>) sv
              | (Inr (i, gap), g) \<Rightarrow>
                  (let fl = \<lparr>fl_visit = v, fl_call = c, fl_replica = i, fl_gap = gap, fl_phase = Queued,
                           fl_model = JNull, fl_report = None\<rparr>;
                       sv' = sv\<lparr>sv_app := a\<lparr>app_gateway := g\<rparr>\<rparr>
                   in if c_stream c then sv'\<lparr>sv_flights := AList.update k fl (sv_flights sv)\<rparr>
                      else open_call ops up k fl sv')))"

definition reach :: "'h upstream \<Rightarrow> nat \<Rightarrow> flight \<Rightarrow> ('s, 'h) server \<Rightarrow> ('s, 'h) server" where
  \<comment> \<open>the exchange with the worker\<close>
  "reach up k fl sv =
     (let a = sv_app sv; v = fl_visit fl; c = fl_call fl; rid = rep_id (g_replicas (app_gateway a) ! fl_replica fl)
      in case app_backend a of
           SimulatedBackend h \<Rightarrow> sv
         | VllmBackend b \<Rightarrow>
             (let (report, b') =
                (if c_stream c
                 then (let ((lines, broken), h) = up_stream up (worker_url b rid) (payload b (c_messages c) (c_max c) True) (http b)
                       in (astream (up_loads up) (\<lambda>n. vs_elapsed v) (vs_elapsed v) lines broken, b\<lparr>http := h\<rparr>))
                 else (let (ended, b') = aexecute (up_client up) (\<lambda>n. vs_elapsed v) (c_messages c) (c_max c) rid b
                       in (([], ended), b')))
              in sv\<lparr>sv_app := a\<lparr>app_backend := VllmBackend b'\<rparr>,
                    sv_flights := AList.update k (fl\<lparr>fl_report := Some report\<rparr>) (sv_flights sv)\<rparr>))"

definition conclude_call ::
  "'s session_store \<Rightarrow> nat \<Rightarrow> flight \<Rightarrow> json list \<Rightarrow> py_error + worker_report \<Rightarrow> ('s, 'h) server \<Rightarrow> ('s, 'h) server" where
  \<comment> \<open>from the worker's answer to the end of the handler\<close>
  "conclude_call ops k fl chunks ended sv =
     (let a = sv_app sv; g = app_gateway a; v = fl_visit fl; c = fl_call fl; i = fl_replica fl;
          out = (case ended of Inl e \<Rightarrow> Inl e
                 | Inr w \<Rightarrow> vllm_result w (g_replicas g ! i) (c_sid c) (c_prompt c) (c_max c) (vs_now v) (vs_now v + fl_gap fl))
      in reply k
           (if c_stream c
            then (let (events, g') = stream_response ops (vs_clock v) i c (fl_model fl) (vs_now v) chunks out g
                  in (Inr (EventStream events), a\<lparr>app_gateway := g'\<rparr>))
            else (case finish_call ops (\<lambda>r sid pt ot now ret. out) (vs_clock v) i c (vs_now v) (fl_gap fl) g of
                    (Inl e, g') \<Rightarrow> (Inl e, a\<lparr>app_gateway := g'\<rparr>)
                  | (Inr res, g') \<Rightarrow>
                      (map_sum id Answer (or_unhandled (chat_response (vllm_model (app_settings a)) c (vs_now v) (fl_gap fl) res)),
                       a\<lparr>app_gateway := g'\<rparr>))) sv)"

definition resume_call ::
  "'s session_store \<Rightarrow> nat \<Rightarrow> flight \<Rightarrow> request_result \<Rightarrow> ('s, 'h) server \<Rightarrow> ('s, 'h) server" where
  \<comment> \<open>a stream of the simulated backend from its yield to its end\<close>
  "resume_call ops k fl res sv =
     (let a = sv_app sv; v = fl_visit fl; c = fl_call fl;
          text_event = delta_events (\<lambda>d. Data (envelope (c_sid c) (fl_model fl) (vs_now v) d JNull)) True [rr_text res];
          (events, g') = resume_stream ops (vs_clock v) (fl_replica fl) c (vs_now v) res (app_gateway a)
      in reply k (Inr (EventStream (text_event @ events)), a\<lparr>app_gateway := g'\<rparr>) sv)"

fun advance ::
  "'s session_store \<Rightarrow> 'h upstream \<Rightarrow> (nat \<Rightarrow> visit) \<Rightarrow> segment \<Rightarrow> ('s, 'h) server \<Rightarrow> ('s, 'h) server" where
  \<comment> \<open>a segment whose request is not there yet does nothing\<close>
  "advance ops up vs (Arrives k) sv =
     (case map_of (sv_flights sv) k of None \<Rightarrow> arrive ops up k (vs k) sv | Some fl \<Rightarrow> sv)"
| "advance ops up vs (Starts k) sv =
     (case map_of (sv_flights sv) k of
        None \<Rightarrow> sv
      | Some fl \<Rightarrow> if fl_phase fl = Queued then open_call ops up k fl sv else sv)"
| "advance ops up vs (Reaches k) sv =
     (case map_of (sv_flights sv) k of
        None \<Rightarrow> sv
      | Some fl \<Rightarrow> if fl_phase fl = Running \<and> fl_report fl = None then reach up k fl sv else sv)"
| "advance ops up vs (Ends k) sv =
     (case map_of (sv_flights sv) k of
        None \<Rightarrow> sv
      | Some fl \<Rightarrow>
          (case fl_phase fl of
             Yielding res \<Rightarrow> resume_call ops k fl res sv
           | _ \<Rightarrow>
               (case fl_report fl of
                  None \<Rightarrow> sv
                | Some (chunks, ended) \<Rightarrow> conclude_call ops k fl chunks ended sv)))"

definition run_segments ::
  "'s session_store \<Rightarrow> 'h upstream \<Rightarrow> (nat \<Rightarrow> visit) \<Rightarrow> segment list \<Rightarrow> ('s, 'h) server \<Rightarrow> ('s, 'h) server" where
  "run_segments ops up vs segs sv = fold (advance ops up vs) segs sv"

lemma run_segments_simps [simp]:
  "run_segments ops up vs [] sv = sv"
  "run_segments ops up vs (s # segs) sv = run_segments ops up vs segs (advance ops up vs s sv)"
  "run_segments ops up vs (segs @ segs') sv = run_segments ops up vs segs' (run_segments ops up vs segs sv)"
  by (simp_all add: run_segments_def)

subsection \<open>A request with nothing in between\<close>

definition all_segments :: "nat \<Rightarrow> segment list" where
  "all_segments k = [Arrives k, Starts k, Reaches k, Ends k]"

lemma reply_simps [simp]:
  "sv_app (reply k out sv) = snd out" "sv_flights (reply k out sv) = AList.delete k (sv_flights sv)"
  "sv_answers (reply k out sv) = sv_answers sv @ [(k, fst out)]"
  by (simp_all add: reply_def)

lemma server_eqI: "sv_app s = sv_app t \<Longrightarrow> sv_flights s = sv_flights t \<Longrightarrow> sv_answers s = sv_answers t \<Longrightarrow> s = (t :: ('s, 'h) server)"
  by (cases s; cases t) simp

lemma stream_segments:
  assumes sv: "map_of (sv_flights sv) k = Some fl" and fl: "fl_phase fl = Queued" "c_stream (fl_call fl)" "fl_report fl = None"
  shows "run_segments ops up vs [Starts k, Reaches k, Ends k] sv =
    reply k (serve_stream ops up (\<lambda>n. vs_elapsed (fl_visit fl)) (vs_elapsed (fl_visit fl)) (vs_clock (fl_visit fl)) (fl_replica fl)
      (fl_call fl) (vs_now (fl_visit fl)) (fl_gap fl) (sv_app sv)) sv"
proof (cases "app_backend (sv_app sv)")
  case (SimulatedBackend h)
  let ?g = "enter_slot (fl_replica fl) (app_gateway (sv_app sv))"
  show ?thesis
  proof (cases "stream_model (fl_call fl)")
    case (Inl e)
    with sv fl SimulatedBackend show ?thesis by (simp add: open_call_def serve_stream_def)
  next
    case (Inr m)
    show ?thesis
    proof (cases "sim_execute h (g_replicas ?g ! fl_replica fl) (c_sid (fl_call fl)) (c_prompt (fl_call fl)) (c_max (fl_call fl))
        (vs_now (fl_visit fl)) (vs_now (fl_visit fl) + fl_gap fl)")
      case (Inl e)
      with sv fl SimulatedBackend Inr show ?thesis
        by (simp add: open_call_def serve_stream_def stream_execute_def stream_response_def Let_def)
    next
      case run: (Inr p)
      obtain res r' where p: "p = (res, r')" by fastforce
      show ?thesis using sv fl SimulatedBackend Inr run p
        by (intro server_eqI; cases "sv_app sv")
          (simp_all add: open_call_def resume_call_def serve_stream_def stream_execute_def stream_response_def Let_def
            AList.delete_update_same case_prod_beta)
    qed
  qed
next
  case (VllmBackend b)
  show ?thesis
  proof (cases "stream_model (fl_call fl)")
    case (Inl e)
    with sv fl VllmBackend show ?thesis by (simp add: open_call_def serve_stream_def)
  next
    case (Inr m)
    let ?rid = "rep_id (g_replicas (enter_slot (fl_replica fl) (app_gateway (sv_app sv))) ! fl_replica fl)"
    obtain lines broken h where up: "up_stream up (worker_url b ?rid) (payload b (c_messages (fl_call fl)) (c_max (fl_call fl)) True) (http b) =
      ((lines, broken), h)" by (metis surj_pair)
    obtain chunks ended where a: "astream (up_loads up) (\<lambda>n. vs_elapsed (fl_visit fl)) (vs_elapsed (fl_visit fl)) lines broken = (chunks, ended)"
      by fastforce
    show ?thesis using sv fl VllmBackend Inr up a
      by (intro server_eqI; cases "sv_app sv")
        (simp_all add: open_call_def reach_def conclude_call_def serve_stream_def stream_execute_def Let_def
          AList.delete_update_same case_prod_beta cong: sum.case_cong)
  qed
qed

lemma whole_segments:
  assumes sv: "map_of (sv_flights sv) k = None" and fl: "\<not> c_stream (fl_call fl)" "fl_report fl = None"
  shows "run_segments ops up vs [Starts k, Reaches k, Ends k] (open_call ops up k fl sv) =
    reply k (serve_whole ops up (\<lambda>n. vs_elapsed (fl_visit fl)) (vs_clock (fl_visit fl)) (fl_replica fl)
      (fl_call fl) (vs_now (fl_visit fl)) (fl_gap fl) (sv_app sv)) sv"
proof (cases "app_backend (sv_app sv)")
  case (SimulatedBackend h)
  with sv fl show ?thesis by (simp add: open_call_def Let_def)
next
  case (VllmBackend b)
  let ?rid = "rep_id (g_replicas (enter_slot (fl_replica fl) (app_gateway (sv_app sv))) ! fl_replica fl)"
  obtain ended b' where a: "aexecute (up_client up) (\<lambda>n. vs_elapsed (fl_visit fl)) (c_messages (fl_call fl)) (c_max (fl_call fl)) ?rid b =
    (ended, b')" by fastforce
  show ?thesis using sv fl VllmBackend a
    by (intro server_eqI; cases "sv_app sv")
      (auto simp: open_call_def reach_def conclude_call_def serve_whole_def execute_def Let_def
        AList.delete_update_same split: sum.split prod.split)
qed

lemma segments_serve:
  assumes "map_of (sv_flights sv) k = None"
  shows "run_segments ops up vs (all_segments k) sv = reply k (serve_visit ops up (vs k) (sv_app sv)) sv"
proof -
  let ?a = "sv_app sv" and ?v = "vs k"
  note sv = assms delete_notin [OF assms]
  show ?thesis
  proof (cases "read_call (api_key (app_settings ?a)) (app_tokenizer ?a) (vs_request ?v)")
    case (Inl e)
    with sv show ?thesis by (simp add: all_segments_def arrive_def serve_visit_def chat_endpoint_def)
  next
    case (Inr c)
    obtain r g where sched: "schedule ops (vs_clocks ?v) (c_sid c) (c_tool c) (vs_now ?v) (app_gateway ?a) = (r, g)" by fastforce
    show ?thesis
    proof (cases r)
      case (Inl e)
      with sv Inr sched show ?thesis by (simp add: all_segments_def arrive_def serve_visit_def chat_endpoint_def)
    next
      case p: (Inr p)
      obtain i gap where r: "r = Inr (i, gap)" using p by (metis surj_pair)
      let ?fl = "\<lparr>fl_visit = ?v, fl_call = c, fl_replica = i, fl_gap = gap, fl_phase = Queued, fl_model = JNull, fl_report = None\<rparr>"
        and ?sv = "sv\<lparr>sv_app := ?a\<lparr>app_gateway := g\<rparr>\<rparr>"
      show ?thesis
      proof (cases "c_stream c")
        case True
        let ?sv' = "?sv\<lparr>sv_flights := AList.update k ?fl (sv_flights sv)\<rparr>"
        have "advance ops up vs (Arrives k) sv = ?sv'"
          using sv Inr sched r True by (simp add: arrive_def Let_def)
        with stream_segments [of ?sv' k ?fl ops up vs] True sv Inr sched r show ?thesis
          by (simp add: all_segments_def serve_visit_def chat_endpoint_def reply_def AList.delete_update_same)
      next
        case False
        have "advance ops up vs (Arrives k) sv = open_call ops up k ?fl ?sv"
          using sv Inr sched r False by (simp add: arrive_def Let_def)
        with whole_segments [of ?sv k ?fl ops up vs] False sv Inr sched r show ?thesis
          by (simp add: all_segments_def serve_visit_def chat_endpoint_def reply_def del: advance.simps)
      qed
    qed
  qed
qed

lemma converse_length: "converse ops up vs a = (rs, a') \<Longrightarrow> length rs = length vs"
  by (induction vs arbitrary: a rs) (auto split: prod.splits)

lemma segments_converse:
  assumes "\<forall>k \<in> set ks. map_of (sv_flights sv) k = None"
  shows "run_segments ops up vs (concat (map all_segments ks)) sv =
    (let (rs, a') = converse ops up (map vs ks) (sv_app sv)
     in sv\<lparr>sv_app := a', sv_answers := sv_answers sv @ zip ks rs\<rparr>)"
  using assms
proof (induction ks arbitrary: sv)
  case (Cons k ks)
  then have "run_segments ops up vs (all_segments k) sv = reply k (serve_visit ops up (vs k) (sv_app sv)) sv"
    and flights: "AList.delete k (sv_flights sv) = sv_flights sv" by (simp_all add: segments_serve delete_notin)
  with Cons show ?case
    by (simp add: case_prod_beta reply_def Let_def)
qed simp

subsection \<open>Every segment is a run of the transition system\<close>

definition job_of :: "flight \<Rightarrow> job" where
  "job_of fl = \<lparr>j_replica = fl_replica fl, j_phase = fl_phase fl, j_call = fl_call fl, j_now = vs_now (fl_visit fl), j_gap = fl_gap fl\<rparr>"

definition jobs :: "('s, 'h) server \<Rightarrow> job multiset" where
  "jobs sv = image_mset (job_of \<circ> snd) (mset (sv_flights sv))"

definition flight_ok :: "bool \<Rightarrow> flight \<Rightarrow> bool" where
  \<comment> \<open>only a stream waits for its slot, and only a running call of the vLLM adapter has a report\<close>
  "flight_ok vllm fl \<longleftrightarrow>
     (fl_phase fl = Queued \<longrightarrow> c_stream (fl_call fl)) \<and> (fl_report fl \<noteq> None \<longrightarrow> fl_phase fl = Running \<and> vllm)"

definition flights_ok :: "('s, 'h) server \<Rightarrow> bool" where
  "flights_ok sv \<longleftrightarrow> wf_dict (sv_flights sv) \<and>
     (\<forall>p \<in> set (sv_flights sv). flight_ok (backend_method (app_backend (sv_app sv)) = vllm_result) (snd p))"

lemma flights_okD:
  assumes "flights_ok sv" "map_of (sv_flights sv) k = Some fl"
  shows "flight_ok (backend_method (app_backend (sv_app sv)) = vllm_result) fl"
  using assms(1) map_of_SomeD [OF assms(2)] by (fastforce simp: flights_ok_def)

lemma mset_update:
  assumes "wf_dict d"
  shows "mset (AList.update k v d) = add_mset (k, v) (mset (AList.delete k d))"
  using assms
proof (induction d)
  case (Cons p d)
  then show ?case
    by (cases "fst p = k") (simp_all add: delete_notin [of d] map_of_eq_None_iff image_iff case_prod_beta)
qed simp

lemma mset_delete:
  assumes "wf_dict d" "map_of d k = Some v"
  shows "mset d = add_mset (k, v) (mset (AList.delete k d))"
  using assms
proof (induction d)
  case (Cons p d)
  then show ?case
    by (cases "fst p = k") (auto simp: delete_notin [of d] map_of_eq_None_iff image_iff)
qed simp

lemma jobs_at:
  assumes "flights_ok sv" "map_of (sv_flights sv) k = Some fl"
  obtains J where "jobs sv = add_mset (job_of fl) J" "J = image_mset (job_of \<circ> snd) (mset (AList.delete k (sv_flights sv)))"
  using assms mset_delete [of "sv_flights sv" k fl] by (simp add: jobs_def flights_ok_def)

definition advanced ::
  "'s session_store \<Rightarrow> (call \<Rightarrow> bool) \<Rightarrow> ('s, 'h) server \<Rightarrow> ('s, 'h) server \<Rightarrow> bool" where
  "advanced ops valid sv sv' \<longleftrightarrow>
     (gw_step ops (backend_method (app_backend (sv_app sv))) valid)\<^sup>*\<^sup>* (app_gateway (sv_app sv), jobs sv) (app_gateway (sv_app sv'), jobs sv') \<and>
     flights_ok sv' \<and> app_settings (sv_app sv') = app_settings (sv_app sv) \<and> app_tokenizer (sv_app sv') = app_tokenizer (sv_app sv) \<and>
     backend_method (app_backend (sv_app sv')) = backend_method (app_backend (sv_app sv))"

lemma advanced_refl: "flights_ok sv \<Longrightarrow> advanced ops valid sv sv"
  by (simp add: advanced_def)

lemma advanced_trans: "advanced ops valid sv sv1 \<Longrightarrow> advanced ops valid sv1 sv2 \<Longrightarrow> advanced ops valid sv sv2"
  by (auto simp: advanced_def)

lemma flights_ok_update:
  assumes "flights_ok sv" "flight_ok (backend_method (app_backend (sv_app sv)) = vllm_result) fl"
    "sv_flights sv' = AList.update k fl (sv_flights sv)" "backend_method (app_backend (sv_app sv')) = backend_method (app_backend (sv_app sv))"
  shows "flights_ok sv'"
  using assms by (auto simp: flights_ok_def set_update)

lemma flights_ok_reply:
  assumes "flights_ok sv" "backend_method (app_backend (snd out)) = backend_method (app_backend (sv_app sv))"
  shows "flights_ok (reply k out sv)"
  using assms by (auto simp: flights_ok_def set_delete)

lemma jobs_update:
  "flights_ok sv \<Longrightarrow> sv_flights sv' = AList.update k fl (sv_flights sv) \<Longrightarrow>
     jobs sv' = add_mset (job_of fl) (image_mset (job_of \<circ> snd) (mset (AList.delete k (sv_flights sv))))"
  by (simp add: jobs_def flights_ok_def mset_update)

lemma jobs_new: "map_of (sv_flights sv) k = None \<Longrightarrow> image_mset (job_of \<circ> snd) (mset (AList.delete k (sv_flights sv))) = jobs sv"
  by (simp add: jobs_def delete_notin)

lemma jobs_reply: "jobs (reply k out sv) = image_mset (job_of \<circ> snd) (mset (AList.delete k (sv_flights sv)))"
  by (simp add: jobs_def)

lemma serve_whole_frame:
  "app_settings (snd (serve_whole ops up watch clock i c now gap a)) = app_settings a"
  "app_tokenizer (snd (serve_whole ops up watch clock i c now gap a)) = app_tokenizer a"
  by (simp_all add: serve_whole_def Let_def case_prod_beta split: sum.split)

lemma serve_stream_frame:
  "app_settings (snd (serve_stream ops up watch el clock i c now gap a)) = app_settings a"
  "app_tokenizer (snd (serve_stream ops up watch el clock i c now gap a)) = app_tokenizer a"
  by (simp_all add: serve_stream_def Let_def case_prod_beta split: sum.split)

lemma open_whole:
  assumes ok: "flights_ok sv" and fl: "fl_report fl = None" "\<not> c_stream (fl_call fl)" and k: "map_of (sv_flights sv) k = None"
  shows "(gw_step ops (backend_method (app_backend (sv_app sv))) valid)\<^sup>*\<^sup>*
      (enter_slot (fl_replica fl) (app_gateway (sv_app sv)), add_mset (job_of (fl\<lparr>fl_phase := Running\<rparr>)) (jobs sv))
      (app_gateway (sv_app (open_call ops up k fl sv)), jobs (open_call ops up k fl sv)) \<and>
    flights_ok (open_call ops up k fl sv) \<and>
    app_settings (sv_app (open_call ops up k fl sv)) = app_settings (sv_app sv) \<and>
    app_tokenizer (sv_app (open_call ops up k fl sv)) = app_tokenizer (sv_app sv) \<and>
    backend_method (app_backend (sv_app (open_call ops up k fl sv))) = backend_method (app_backend (sv_app sv))"
proof (cases "app_backend (sv_app sv)")
  case (SimulatedBackend h)
  obtain res a' where run: "serve_whole ops up (\<lambda>n. vs_elapsed (fl_visit fl)) (vs_clock (fl_visit fl)) (fl_replica fl) (fl_call fl)
      (vs_now (fl_visit fl)) (fl_gap fl) (sv_app sv) = (res, a')" by fastforce
  have frame: "app_settings a' = app_settings (sv_app sv)" "app_tokenizer a' = app_tokenizer (sv_app sv)"
    using serve_whole_frame run by (metis snd_conv)+
  have "open_call ops up k fl sv = reply k (res, a') sv" using SimulatedBackend fl run by (simp add: open_call_def)
  then show ?thesis
    using flights_ok_reply [OF ok, of "(res, a')"] jobs_new [OF k] frame
      serve_whole_run(1) [OF run fl(2) refl, of valid "jobs sv"] serve_whole_run(2) [OF run fl(2) refl]
    by (auto simp: jobs_reply job_of_def)
next
  case (VllmBackend b)
  let ?sv = "open_call ops up k fl sv"
  have sv: "sv_app ?sv = (sv_app sv)\<lparr>app_gateway := enter_slot (fl_replica fl) (app_gateway (sv_app sv))\<rparr>"
    "sv_flights ?sv = AList.update k (fl\<lparr>fl_phase := Running, fl_model := JNull\<rparr>) (sv_flights sv)"
    using VllmBackend fl by (simp_all add: open_call_def Let_def)
  have "flights_ok ?sv" by (rule flights_ok_update [OF ok _ sv(2)]) (simp_all add: flight_ok_def fl sv)
  moreover have "job_of (fl\<lparr>fl_phase := Running, fl_model := JNull\<rparr>) = job_of (fl\<lparr>fl_phase := Running\<rparr>)"
    by (simp add: job_of_def)
  ultimately show ?thesis using jobs_update [OF ok sv(2)] jobs_new [OF k] by (simp add: sv(1))
qed

lemma open_stream:
  assumes ok: "flights_ok sv" and fl: "fl_report fl = None" "c_stream (fl_call fl)" "fl_phase fl = Queued"
    and k: "map_of (sv_flights sv) k = Some fl"
  shows "advanced ops valid sv (open_call ops up k fl sv)"
proof -
  let ?J = "image_mset (job_of \<circ> snd) (mset (AList.delete k (sv_flights sv)))"
  have J: "jobs sv = add_mset (job_of fl) ?J" by (rule jobs_at [OF ok k]) simp
  show ?thesis
  proof (cases "app_backend (sv_app sv)")
    case (SimulatedBackend h)
    let ?sv = "open_call ops up k fl sv" and ?exec = "backend_method (app_backend (sv_app sv))"
      and ?g = "enter_slot (fl_replica fl) (app_gateway (sv_app sv))"
    have exec: "?exec = (\<lambda>w. sim_execute h)" by (simp add: SimulatedBackend backend_method_def)
    show ?thesis
    proof (cases "stream_model (fl_call fl)")
      case (Inl e)
      then have "?sv = reply k (Inl (Unhandled e), sv_app sv) sv" using SimulatedBackend fl by (simp add: open_call_def)
      moreover have "gw_step ops ?exec valid (app_gateway (sv_app sv), jobs sv) (app_gateway (sv_app sv), ?J)"
        unfolding J by (rule gw_step.cancel_queued) (simp add: job_of_def fl(3))
      ultimately show ?thesis using flights_ok_reply [OF ok, of "(Inl (Unhandled e), sv_app sv)"]
        by (auto simp: advanced_def jobs_reply)
    next
      case (Inr m)
      let ?j = "(job_of fl)\<lparr>j_phase := Running\<rparr>"
      have start: "gw_step ops ?exec valid (app_gateway (sv_app sv), jobs sv) (?g, add_mset ?j ?J)"
        using gw_step.start [of "job_of fl" ops ?exec valid "app_gateway (sv_app sv)" ?J] unfolding J by (simp add: job_of_def fl(3))
      show ?thesis
      proof (cases "sim_execute h (g_replicas ?g ! fl_replica fl) (c_sid (fl_call fl)) (c_prompt (fl_call fl)) (c_max (fl_call fl))
          (vs_now (fl_visit fl)) (vs_now (fl_visit fl) + fl_gap fl)")
        case (Inl e)
        obtain events where "?sv = reply k (Inr (EventStream events), (sv_app sv)\<lparr>app_gateway := leave_slot (fl_replica fl) ?g\<rparr>) sv"
          using SimulatedBackend fl Inr Inl by (simp add: open_call_def Let_def stream_response_def)
        moreover have "gw_step ops ?exec valid (?g, add_mset ?j ?J) (leave_slot (fl_replica fl) ?g, ?J)"
          using gw_step.upstream_failure [of ?j ops ?exec valid ?g ?J] by (simp add: job_of_def)
        ultimately show ?thesis
          using start flights_ok_reply [OF ok, of "(Inr (EventStream events), (sv_app sv)\<lparr>app_gateway := leave_slot (fl_replica fl) ?g\<rparr>)"]
          by (auto simp: advanced_def jobs_reply)
      next
        case run: (Inr p)
        obtain res r' where p: "p = (res, r')" by fastforce
        have sv: "sv_app ?sv = (sv_app sv)\<lparr>app_gateway := ?g\<lparr>g_replicas := (g_replicas ?g)[fl_replica fl := r']\<rparr>\<rparr>"
          "sv_flights ?sv = AList.update k (fl\<lparr>fl_phase := Yielding res, fl_model := m\<rparr>) (sv_flights sv)"
          using SimulatedBackend fl Inr run p by (simp_all add: open_call_def Let_def)
        have "flights_ok ?sv" by (rule flights_ok_update [OF ok _ sv(2)]) (simp_all add: flight_ok_def fl sv)
        moreover have "gw_step ops ?exec valid (?g, add_mset ?j ?J)
            (?g\<lparr>g_replicas := (g_replicas ?g)[j_replica ?j := r']\<rparr>, add_mset (?j\<lparr>j_phase := Yielding res\<rparr>) ?J)"
          by (rule gw_step.serve [where w = undefined]) (simp_all add: job_of_def fl(2) in_process_def exec run p)
        moreover have "job_of (fl\<lparr>fl_phase := Yielding res, fl_model := m\<rparr>) = ?j\<lparr>j_phase := Yielding res\<rparr>" "j_replica ?j = fl_replica fl"
          by (simp_all add: job_of_def)
        ultimately show ?thesis using start jobs_update [OF ok sv(2)]
          by (auto simp: advanced_def sv(1))
      qed
    qed
  next
    case (VllmBackend b)
    let ?sv = "open_call ops up k fl sv"
    show ?thesis
    proof (cases "stream_model (fl_call fl)")
      case (Inl e)
      then have "?sv = reply k (Inl (Unhandled e), sv_app sv) sv" using VllmBackend fl by (simp add: open_call_def)
      moreover have "gw_step ops (backend_method (app_backend (sv_app sv))) valid (app_gateway (sv_app sv), jobs sv) (app_gateway (sv_app sv), ?J)"
        unfolding J by (rule gw_step.cancel_queued) (simp add: job_of_def fl(3))
      ultimately show ?thesis using flights_ok_reply [OF ok, of "(Inl (Unhandled e), sv_app sv)"]
        by (auto simp: advanced_def jobs_reply)
    next
      case (Inr m)
      have sv: "sv_app ?sv = (sv_app sv)\<lparr>app_gateway := enter_slot (fl_replica fl) (app_gateway (sv_app sv))\<rparr>"
        "sv_flights ?sv = AList.update k (fl\<lparr>fl_phase := Running, fl_model := m\<rparr>) (sv_flights sv)"
        using VllmBackend fl Inr by (simp_all add: open_call_def Let_def)
      have "flights_ok ?sv" by (rule flights_ok_update [OF ok _ sv(2)]) (simp_all add: flight_ok_def fl sv)
      moreover have "job_of (fl\<lparr>fl_phase := Running, fl_model := m\<rparr>) = (job_of fl)\<lparr>j_phase := Running\<rparr>" by (simp add: job_of_def)
      moreover have "gw_step ops (backend_method (app_backend (sv_app sv))) valid (app_gateway (sv_app sv), jobs sv)
          (enter_slot (j_replica (job_of fl)) (app_gateway (sv_app sv)), add_mset ((job_of fl)\<lparr>j_phase := Running\<rparr>) ?J)"
        unfolding J by (rule gw_step.start) (simp add: job_of_def fl(3))
      moreover have "j_replica (job_of fl) = fl_replica fl" by (simp add: job_of_def)
      ultimately show ?thesis using jobs_update [OF ok sv(2)] by (auto simp: advanced_def sv(1))
    qed
  qed
qed

lemma arrive_run:
  assumes ok: "flights_ok sv" and k: "map_of (sv_flights sv) k = None" and v: "accepts valid (sv_app sv) (vs_request v)"
  shows "advanced ops valid sv (arrive ops up k v sv)"
proof (cases "read_call (api_key (app_settings (sv_app sv))) (app_tokenizer (sv_app sv)) (vs_request v)")
  case (Inl e)
  then show ?thesis using flights_ok_reply [OF ok, of "(Inl e, sv_app sv)"] jobs_new [OF k]
    by (simp add: arrive_def advanced_def jobs_reply)
next
  case (Inr c)
  let ?step = "gw_step ops (backend_method (app_backend (sv_app sv))) valid"
  have valid: "valid c" using v Inr by (simp add: accepts_def)
  obtain r g where sched: "schedule ops (vs_clocks v) (c_sid c) (c_tool c) (vs_now v) (app_gateway (sv_app sv)) = (r, g)" by fastforce
  show ?thesis
  proof (cases r)
    case e: (Inl e)
    have "?step (app_gateway (sv_app sv), jobs sv) (g, jobs sv)"
      by (rule gw_step.refuse [where c = c and clocks = "vs_clocks v" and now = "vs_now v"]) (use valid sched e in simp_all)
    then show ?thesis
      using Inr sched e flights_ok_reply [OF ok, of "(Inl (Unhandled e), (sv_app sv)\<lparr>app_gateway := g\<rparr>)"] jobs_new [OF k]
      by (auto simp: arrive_def advanced_def jobs_reply)
  next
    case p: (Inr p)
    obtain i gap where "r = Inr (i, gap)" using p by (metis surj_pair)
    note sched = sched [unfolded this]
    let ?fl = "\<lparr>fl_visit = v, fl_call = c, fl_replica = i, fl_gap = gap, fl_phase = Queued, fl_model = JNull, fl_report = None\<rparr>"
      and ?sv = "sv\<lparr>sv_app := (sv_app sv)\<lparr>app_gateway := g\<rparr>\<rparr>"
    have ok': "flights_ok ?sv" using ok by (simp add: flights_ok_def)
    show ?thesis
    proof (cases "c_stream c")
      case True
      let ?sv' = "?sv\<lparr>sv_flights := AList.update k ?fl (sv_flights sv)\<rparr>"
      have "arrive ops up k v sv = ?sv'" using Inr sched True by (simp add: arrive_def Let_def)
      moreover have "flights_ok ?sv'" by (rule flights_ok_update [OF ok]) (simp_all add: flight_ok_def True)
      moreover have "?step (app_gateway (sv_app sv), jobs sv) (g, add_mset (job_of ?fl) (jobs sv))"
        unfolding job_of_def flight.simps by (rule gw_step.admit_stream [where clocks = "vs_clocks v"]) (simp_all add: valid True sched)
      moreover have "jobs ?sv' = add_mset (job_of ?fl) (jobs sv)"
        using jobs_update [OF ok, of ?sv' k ?fl] jobs_new [OF k] by simp
      ultimately show ?thesis by (auto simp: advanced_def)
    next
      case False
      have "arrive ops up k v sv = open_call ops up k ?fl ?sv" using Inr sched False by (simp add: arrive_def Let_def)
      moreover have "jobs ?sv = jobs sv" by (simp add: jobs_def)
      moreover have "?step (app_gateway (sv_app sv), jobs sv) (enter_slot i g, add_mset (job_of (?fl\<lparr>fl_phase := Running\<rparr>)) (jobs sv))"
        unfolding job_of_def flight.simps by (rule gw_step.admit [where clocks = "vs_clocks v"]) (simp_all add: valid False sched)
      ultimately show ?thesis
        using open_whole [OF ok', of ?fl k ops valid up] False k
        by (auto simp: advanced_def intro: converse_rtranclp_into_rtranclp)
    qed
  qed
qed

lemma reach_run:
  assumes ok: "flights_ok sv" and k: "map_of (sv_flights sv) k = Some fl" and fl: "fl_phase fl = Running"
  shows "advanced ops valid sv (reach up k fl sv)"
proof (cases "app_backend (sv_app sv)")
  case (SimulatedBackend h)
  then show ?thesis using advanced_refl [OF ok] by (simp add: reach_def)
next
  case (VllmBackend b)
  let ?J = "image_mset (job_of \<circ> snd) (mset (AList.delete k (sv_flights sv)))"
  obtain report b' where sv: "sv_app (reach up k fl sv) = (sv_app sv)\<lparr>app_backend := VllmBackend b'\<rparr>"
    "sv_flights (reach up k fl sv) = AList.update k (fl\<lparr>fl_report := Some report\<rparr>) (sv_flights sv)"
    using VllmBackend by (simp add: reach_def case_prod_beta Let_def)
  have "flights_ok (reach up k fl sv)"
    by (rule flights_ok_update [OF ok _ sv(2)]) (simp_all add: flight_ok_def fl sv(1) VllmBackend backend_method_def)
  moreover have "jobs sv = add_mset (job_of fl) ?J" by (rule jobs_at [OF ok k]) simp
  moreover have "job_of (fl\<lparr>fl_report := Some report\<rparr>) = job_of fl" by (simp add: job_of_def)
  ultimately show ?thesis using jobs_update [OF ok sv(2)] by (simp add: advanced_def sv(1) VllmBackend backend_method_def)
qed

lemma conclude_run:
  assumes ok: "flights_ok sv" and k: "map_of (sv_flights sv) k = Some fl" and fl: "fl_report fl = Some (chunks, ended)"
  shows "advanced ops valid sv (conclude_call ops k fl chunks ended sv)"
proof -
  let ?J = "image_mset (job_of \<circ> snd) (mset (AList.delete k (sv_flights sv)))" and ?a = "sv_app sv"
  let ?g = "app_gateway ?a" and ?i = "fl_replica fl" and ?c = "fl_call fl" and ?now = "vs_now (fl_visit fl)"
  have J: "jobs sv = add_mset (job_of fl) ?J" by (rule jobs_at [OF ok k]) simp
  have running: "fl_phase fl = Running" "backend_method (app_backend ?a) = vllm_result"
    using flights_okD [OF ok k] fl by (auto simp: flight_ok_def)
  have job_phase: "j_phase (job_of fl) = Running" by (simp add: job_of_def running(1))
  let ?step = "gw_step ops vllm_result valid" and ?res = "\<lambda>w. vllm_result w (g_replicas ?g ! ?i) (c_sid ?c) (c_prompt ?c) (c_max ?c) ?now (?now + fl_gap fl)"
  define out where "out = (case ended of Inl e \<Rightarrow> Inl e | Inr w \<Rightarrow> ?res w)"
  have outcome: "isl out \<or> (\<exists>w. out = ?res w)" by (auto simp: out_def split: sum.split)
  have finished: "advanced ops valid sv sv'" if sv': "sv' = reply k (res, ?a\<lparr>app_gateway := g'\<rparr>) sv" "?step (?g, jobs sv) (g', ?J)" for sv' res g'
    using that(2) flights_ok_reply [OF ok, of "(res, ?a\<lparr>app_gateway := g'\<rparr>)" k] running
    by (auto simp: sv'(1) advanced_def jobs_reply)
  show ?thesis
  proof (cases "c_stream ?c")
    case True
      obtain events g' where gen: "stream_response ops (vs_clock (fl_visit fl)) ?i ?c (fl_model fl) ?now chunks out ?g = (events, g')" by fastforce
      have step: "?step (?g, jobs sv) (g', ?J)"
        using outcome
      proof
        assume "isl out"
        then have "g' = leave_slot (j_replica (job_of fl)) ?g"
          using gen by (auto simp: stream_response_def Let_def isl_def job_of_def)
        then show ?thesis unfolding J by (metis gw_step.upstream_failure job_phase)
      next
        assume "\<exists>w. out = ?res w"
        then obtain w where w: "out = ?res w" ..
        show ?thesis unfolding J
          by (rule gw_step.finish_stream [where w = w and outcome = out])
            (use gen w in \<open>simp_all add: job_of_def running(1) True\<close>)
      qed
      show ?thesis
        by (rule finished [OF _ step])
          (simp add: conclude_call_def Let_def True gen out_def [symmetric])
  next
    case False
    obtain res g' where fin: "finish_call ops (\<lambda>r sid pt ot now ret. out) (vs_clock (fl_visit fl)) ?i ?c ?now (fl_gap fl) ?g = (res, g')"
      by fastforce
    have step: "?step (?g, jobs sv) (g', ?J)"
      using outcome
    proof
      assume "isl out"
      then have "g' = leave_slot (j_replica (job_of fl)) ?g" using fin by (auto simp: finish_call_def isl_def job_of_def)
      then show ?thesis unfolding J by (metis gw_step.upstream_failure job_phase)
    next
      assume "\<exists>w. out = ?res w"
      then obtain w where "vllm_result w (g_replicas ?g ! ?i) (c_sid ?c) (c_prompt ?c) (c_max ?c) ?now (?now + fl_gap fl) = out" by metis
      from finish_call_const [where exec = "vllm_result w", OF this] fin
      have "finish_call ops (vllm_result w) (vs_clock (fl_visit fl)) ?i ?c ?now (fl_gap fl) ?g = (res, g')" by simp
      then show ?thesis unfolding J
        by (intro gw_step.finish [where w = w]) (simp_all add: job_of_def running(1) False)
    qed
    show ?thesis
      by (cases res; rule finished [OF _ step]; simp add: conclude_call_def Let_def False fin out_def [symmetric])
  qed
qed

lemma resume_run:
  assumes ok: "flights_ok sv" and k: "map_of (sv_flights sv) k = Some fl" and fl: "fl_phase fl = Yielding res"
  shows "advanced ops valid sv (resume_call ops k fl res sv)"
proof -
  let ?J = "image_mset (job_of \<circ> snd) (mset (AList.delete k (sv_flights sv)))"
  have J: "jobs sv = add_mset (job_of fl) ?J" by (rule jobs_at [OF ok k]) simp
  obtain events g' where run: "resume_stream ops (vs_clock (fl_visit fl)) (fl_replica fl) (fl_call fl) (vs_now (fl_visit fl)) res
      (app_gateway (sv_app sv)) = (events, g')" by fastforce
  then obtain r where "resume_call ops k fl res sv = reply k (r, (sv_app sv)\<lparr>app_gateway := g'\<rparr>) sv"
    by (simp add: resume_call_def Let_def)
  moreover have "gw_step ops (backend_method (app_backend (sv_app sv))) valid (app_gateway (sv_app sv), jobs sv) (g', ?J)"
    unfolding J by (rule gw_step.resume [where res = res and events = events]) (use run in \<open>simp_all add: job_of_def fl\<close>)
  ultimately show ?thesis
    using flights_ok_reply [OF ok, of "(r, (sv_app sv)\<lparr>app_gateway := g'\<rparr>)"] by (auto simp: advanced_def jobs_reply)
qed

lemma advance_run:
  assumes ok: "flights_ok sv" and vs: "\<forall>k. accepts valid (sv_app sv) (vs_request (vs k))"
  shows "advanced ops valid sv (advance ops up vs s sv)"
proof (cases s)
  case (Arrives k)
  then show ?thesis using arrive_run [OF ok] vs advanced_refl [OF ok] by (simp split: option.split)
next
  case (Starts k)
  have "c_stream (fl_call fl) \<and> fl_report fl = None" if "map_of (sv_flights sv) k = Some fl" "fl_phase fl = Queued" for fl
    using flights_okD [OF ok that(1)] that(2) by (cases "fl_report fl") (auto simp: flight_ok_def)
  with Starts show ?thesis using open_stream [OF ok] advanced_refl [OF ok] by (auto split: option.split)
next
  case (Reaches k)
  then show ?thesis using reach_run [OF ok] advanced_refl [OF ok] by (auto split: option.split)
next
  case (Ends k)
  then show ?thesis using conclude_run [OF ok] resume_run [OF ok] advanced_refl [OF ok]
    by (auto split: option.split phase.split)
qed

lemma segments_run:
  assumes "flights_ok sv" and "\<forall>k. accepts valid (sv_app sv) (vs_request (vs k))"
  shows "advanced ops valid sv (run_segments ops up vs segs sv)"
  using assms
proof (induction segs arbitrary: sv)
  case Nil
  then show ?case by (simp add: advanced_refl)
next
  case (Cons s segs)
  note one = advance_run [OF Cons.prems, of ops up s]
  then have "flights_ok (advance ops up vs s sv)" "\<forall>k. accepts valid (sv_app (advance ops up vs s sv)) (vs_request (vs k))"
    using Cons.prems(2) by (simp_all add: advanced_def accepts_def)
  from advanced_trans [OF one Cons.IH [OF this]] show ?case by simp
qed

subsection \<open>No request is lost and none is answered twice\<close>

definition seen_requests :: "('s, 'h) server \<Rightarrow> nat multiset" where
  \<comment> \<open>those that were answered and those in flight\<close>
  "seen_requests sv = image_mset fst (mset (sv_answers sv)) + image_mset fst (mset (sv_flights sv))"

fun arrivals :: "segment list \<Rightarrow> nat list" where
  "arrivals [] = []"
| "arrivals (Arrives k # segs) = k # arrivals segs"
| "arrivals (s # segs) = arrivals segs"

lemma seen_reply:
  "flights_ok sv \<Longrightarrow> seen_requests (reply k out sv) =
     (if map_of (sv_flights sv) k = None then add_mset k (seen_requests sv) else seen_requests sv)"
  using mset_delete [of "sv_flights sv" k] by (auto simp: seen_requests_def flights_ok_def delete_notin)

lemma seen_update:
  assumes "flights_ok sv" "sv_flights sv' = AList.update k fl (sv_flights sv)" "sv_answers sv' = sv_answers sv"
  shows "seen_requests sv' = (if map_of (sv_flights sv) k = None then add_mset k (seen_requests sv) else seen_requests sv)"
  using assms mset_update [of "sv_flights sv" k fl] mset_delete [of "sv_flights sv" k]
  by (auto simp: seen_requests_def flights_ok_def delete_notin)

lemma seen_open:
  assumes "flights_ok sv"
  shows "seen_requests (open_call ops up k fl sv) =
    (if map_of (sv_flights sv) k = None then add_mset k (seen_requests sv) else seen_requests sv)"
proof (cases "app_backend (sv_app sv)")
  case (SimulatedBackend h)
  show ?thesis
  proof (cases "\<exists>m p. c_stream (fl_call fl) \<and> stream_model (fl_call fl) = Inr m \<and>
      sim_execute h (g_replicas (enter_slot (fl_replica fl) (app_gateway (sv_app sv))) ! fl_replica fl) (c_sid (fl_call fl))
        (c_prompt (fl_call fl)) (c_max (fl_call fl)) (vs_now (fl_visit fl)) (vs_now (fl_visit fl) + fl_gap fl) = Inr p")
    case False
    then have "\<exists>out. open_call ops up k fl sv = reply k out sv"
      using SimulatedBackend
      by (cases "stream_model (fl_call fl)")
        (auto simp: open_call_def Let_def case_prod_beta split: sum.splits, (metis surj_pair)+)
    then show ?thesis using seen_reply [OF assms] by auto
  next
    case True
    then obtain m res r' where "c_stream (fl_call fl)" "stream_model (fl_call fl) = Inr m"
      "sim_execute h (g_replicas (enter_slot (fl_replica fl) (app_gateway (sv_app sv))) ! fl_replica fl) (c_sid (fl_call fl))
        (c_prompt (fl_call fl)) (c_max (fl_call fl)) (vs_now (fl_visit fl)) (vs_now (fl_visit fl) + fl_gap fl) = Inr (res, r')" by auto
    then have "sv_flights (open_call ops up k fl sv) = AList.update k (fl\<lparr>fl_phase := Yielding res, fl_model := m\<rparr>) (sv_flights sv)"
      "sv_answers (open_call ops up k fl sv) = sv_answers sv" using SimulatedBackend by (simp_all add: open_call_def Let_def)
    then show ?thesis by (rule seen_update [OF assms])
  qed
next
  case (VllmBackend b)
  show ?thesis
  proof (cases "if c_stream (fl_call fl) then stream_model (fl_call fl) else Inr JNull")
    case (Inl e)
    then show ?thesis using VllmBackend seen_reply [OF assms] by (simp add: open_call_def Let_def)
  next
    case (Inr m)
    then have "sv_flights (open_call ops up k fl sv) = AList.update k (fl\<lparr>fl_phase := Running, fl_model := m\<rparr>) (sv_flights sv)"
      "sv_answers (open_call ops up k fl sv) = sv_answers sv" using VllmBackend by (simp_all add: open_call_def Let_def)
    then show ?thesis by (rule seen_update [OF assms])
  qed
qed

lemma seen_arrive:
  assumes ok: "flights_ok sv" and k: "map_of (sv_flights sv) k = None"
  shows "seen_requests (arrive ops up k v sv) = add_mset k (seen_requests sv)"
proof -
  have same: "flights_ok (sv\<lparr>sv_app := (sv_app sv)\<lparr>app_gateway := g\<rparr>\<rparr>)"
    "seen_requests (sv\<lparr>sv_app := a\<rparr>) = seen_requests sv" for g a
    using ok by (simp_all add: flights_ok_def seen_requests_def)
  have new: "seen_requests (sv\<lparr>sv_app := a, sv_flights := AList.update k fl (sv_flights sv)\<rparr>) = add_mset k (seen_requests sv)" for a fl
    using seen_update [OF ok, of "sv\<lparr>sv_app := a, sv_flights := AList.update k fl (sv_flights sv)\<rparr>" k fl] k by simp
  show ?thesis
    using seen_reply [OF ok, of k] seen_open [OF same(1), of ops up k] k
    by (auto simp: arrive_def Let_def same(2) new split: sum.split prod.split)
qed

lemma seen_advance:
  assumes ok: "flights_ok sv" and new: "\<forall>k. s = Arrives k \<longrightarrow> map_of (sv_flights sv) k = None"
  shows "seen_requests (advance ops up vs s sv) = mset (arrivals [s]) + seen_requests sv"
proof (cases s)
  case (Arrives k)
  with new show ?thesis using seen_arrive [OF ok] by simp
next
  case (Starts k)
  with seen_open [OF ok] show ?thesis by (simp split: option.split)
next
  case (Reaches k)
  have "seen_requests (reach up k fl sv) = seen_requests sv" if "map_of (sv_flights sv) k = Some fl" for fl
  proof (cases "app_backend (sv_app sv)")
    case (VllmBackend b)
    obtain report where "sv_flights (reach up k fl sv) = AList.update k (fl\<lparr>fl_report := Some report\<rparr>) (sv_flights sv)"
      "sv_answers (reach up k fl sv) = sv_answers sv"
      using VllmBackend by (simp add: reach_def case_prod_beta Let_def)
    from seen_update [OF ok this] that show ?thesis by simp
  qed (simp add: reach_def)
  with Reaches show ?thesis by (simp split: option.split)
next
  case (Ends k)
  have "seen_requests (conclude_call ops k fl chunks ended sv) = seen_requests sv" if "map_of (sv_flights sv) k = Some fl" for fl chunks ended
    using seen_reply [OF ok] that by (simp add: conclude_call_def Let_def)
  moreover have "seen_requests (resume_call ops k fl res sv) = seen_requests sv" if "map_of (sv_flights sv) k = Some fl" for fl res
    using seen_reply [OF ok] that by (simp add: resume_call_def Let_def case_prod_beta)
  ultimately show ?thesis using Ends by (simp split: option.split phase.split)
qed

lemma arrivals_append [simp]: "arrivals (segs @ segs') = arrivals segs @ arrivals segs'"
  by (induction segs rule: arrivals.induct) simp_all

lemma segments_seen:
  assumes "flights_ok sv" "distinct (arrivals segs)" "\<forall>k \<in> set (arrivals segs). k \<notin># seen_requests sv"
    and "\<forall>k. accepts valid (sv_app sv) (vs_request (vs k))"
  shows "seen_requests (run_segments ops up vs segs sv) = mset (arrivals segs) + seen_requests sv"
  using assms
proof (induction segs arbitrary: sv)
  case (Cons s segs)
  let ?sv = "advance ops up vs s sv"
  have new: "map_of (sv_flights sv) k = None" if "s = Arrives k" for k
    using Cons.prems(3) that by (force simp: seen_requests_def map_of_eq_None_iff)
  have one: "seen_requests ?sv = mset (arrivals [s]) + seen_requests sv"
    using seen_advance [OF Cons.prems(1)] new by blast
  have adv: "advanced ops valid sv ?sv" by (rule advance_run [OF Cons.prems(1,4)])
  have split: "arrivals (s # segs) = arrivals [s] @ arrivals segs" using arrivals_append [of "[s]" segs] by simp
  have "seen_requests (run_segments ops up vs segs ?sv) = mset (arrivals segs) + seen_requests ?sv"
  proof (rule Cons.IH)
    show "flights_ok ?sv" "\<forall>k. accepts valid (sv_app ?sv) (vs_request (vs k))"
      using adv Cons.prems(4) by (simp_all add: advanced_def accepts_def)
    show "distinct (arrivals segs)" "\<forall>k \<in> set (arrivals segs). k \<notin># seen_requests ?sv"
      using Cons.prems(2,3) unfolding split one by auto
  qed
  then show ?case unfolding split by (simp add: one)
qed simp

subsection \<open>Properties\<close>

definition fresh_server :: "('s, 'h) app \<Rightarrow> ('s, 'h) server" where
  "fresh_server a = \<lparr>sv_app = a, sv_flights = [], sv_answers = []\<rparr>"

text \<open>
  C6: Handlers that interleave run the gateway's transition system. With any session store, either backend, any
  requests, good or bad, streaming or not, and any interleaving of their handlers at the awaits and at
  the yields inside a slot, the gateway is always in a reachable state of the transition system whose jobs are the requests in
  flight; the in-flight count of a replica is the number of requests being served there; and every
  request that has arrived is either in flight or was answered, exactly once. Served one after the other, the
  handlers are the endpoint.
\<close>

theorem interleaved_handlers_run_the_transition_system:
  assumes start: "gw_reachable ops (backend_method (app_backend a)) valid (create_gateway c rk pk s) (app_gateway a, {#})"
      "0 < cc_replicas c"
    and calls: "\<forall>k. accepts valid a (vs_request (vs k))" "distinct (arrivals segs)"
    and run: "sv = run_segments ops up vs segs (fresh_server a)"
  shows "gw_reachable ops (backend_method (app_backend a)) valid (create_gateway c rk pk s)
      (app_gateway (sv_app sv), image_mset job_of (mset (dict_values (sv_flights sv)))) \<and>
    (\<forall>i < length (g_replicas (app_gateway (sv_app sv))). inflight (g_replicas (app_gateway (sv_app sv)) ! i) =
       int (length (filter (\<lambda>fl. fl_phase fl \<noteq> Queued \<and> fl_replica fl = i) (dict_values (sv_flights sv))))) \<and>
    mset (map fst (sv_answers sv)) + mset (dict_keys (sv_flights sv)) = mset (arrivals segs) \<and>
    (\<forall>ks. run_segments ops up vs (concat (map all_segments ks)) (fresh_server a) =
       (let (rs, a') = converse ops up (map vs ks) a in (fresh_server a')\<lparr>sv_answers := zip ks rs\<rparr>))"
proof -
  let ?exec = "backend_method (app_backend a)" and ?g0 = "create_gateway c rk pk s" and ?fl = "dict_values (sv_flights sv)"
  have fresh: "flights_ok (fresh_server a)" "sv_app (fresh_server a) = a" "jobs (fresh_server a) = {#}"
    "seen_requests (fresh_server a) = {#}" "map_of (sv_flights (fresh_server a)) k = None" for k
    by (simp_all add: fresh_server_def flights_ok_def jobs_def seen_requests_def)
  have "advanced ops valid (fresh_server a) sv"
    unfolding run using calls(1) by (intro segments_run fresh(1)) (simp add: fresh(2))
  then have "(gw_step ops ?exec valid)\<^sup>*\<^sup>* (app_gateway a, {#}) (app_gateway (sv_app sv), jobs sv)"
    by (simp add: advanced_def fresh(2,3))
  from gw_run_reachable [OF this start(1)] have reach: "gw_reachable ops ?exec valid ?g0 (app_gateway (sv_app sv), jobs sv)" .
  have J: "jobs sv = image_mset job_of (mset ?fl)" by (simp add: jobs_def image_mset.compositionality)
  have "slots_ok (app_gateway (sv_app sv), jobs sv)"
    using reach backend_method_cases [of "app_backend a"] vllm_gateway.slots_reachable [OF _ create_gateway_started [OF start(2)]]
      sim_gateway.slots_reachable [OF _ create_gateway_started [OF start(2)]] by fastforce
  then have slots: "\<forall>i < length (g_replicas (app_gateway (sv_app sv))). inflight (g_replicas (app_gateway (sv_app sv)) ! i) =
      int (length (filter (\<lambda>fl. fl_phase fl \<noteq> Queued \<and> fl_replica fl = i) ?fl))"
    unfolding J by (simp add: slots_ok_def running_on_def inflight_def filter_mset_image_mset job_of_def o_def flip: mset_filter)
  have "seen_requests sv = mset (arrivals segs)"
    unfolding run using segments_seen [OF fresh(1) calls(2)] calls(1) by (simp add: fresh(2,4))
  then have seen: "mset (map fst (sv_answers sv)) + mset (dict_keys (sv_flights sv)) = mset (arrivals segs)"
    by (simp add: seen_requests_def)
  have "run_segments ops up vs (concat (map all_segments ks)) (fresh_server a) =
      (let (rs, a') = converse ops up (map vs ks) a in (fresh_server a')\<lparr>sv_answers := zip ks rs\<rparr>)" for ks
    using segments_converse [of ks "fresh_server a" ops up vs] fresh(5) by (simp add: fresh(2) case_prod_beta) (simp add: fresh_server_def)
  with reach [unfolded J] slots seen show ?thesis by blast
qed

definition example_segments :: "segment list" where
  \<comment> \<open>request 1 is served while the stream of request 2 waits at its yield\<close>
  "example_segments = [Arrives 0, Arrives 2, Starts 2, Arrives 1, Ends 2]"

lemma interleaved_handlers_run_the_transition_system_witness:
  "\<forall>up. \<exists>sv. sv = run_segments mem_ops up (\<lambda>k. example_visits ! (k mod 3)) example_segments (fresh_server example_app) \<and>
     mset (map fst (sv_answers sv)) + mset (dict_keys (sv_flights sv)) = {#0, 2, 1#} \<and>
     run_segments mem_ops up (\<lambda>k. example_visits ! (k mod 3)) (concat (map all_segments [0, 1, 2])) (fresh_server example_app) =
       (let (rs, a') = converse mem_ops up example_visits example_app in (fresh_server a')\<lparr>sv_answers := zip [0, 1, 2] rs\<rparr>)"
proof
  fix up
  have start: "gw_reachable mem_ops (backend_method (app_backend example_app)) sized_call
      (create_gateway default_cluster_config ''affinity'' ''adaptive'' default_mem_store) (app_gateway example_app, {#})"
    by (simp add: example_app_def gw_reachable.init)
  have len: "length example_visits = 3" by (simp add: example_visits_def)
  then have accepted: "\<forall>k. accepts sized_call example_app (vs_request (example_visits ! (k mod 3)))"
    using example_accepts by (simp add: nth_mem)
  have arrive: "arrivals example_segments = [0, 2, 1]" by (simp add: example_segments_def)
  have ks: "map (\<lambda>k. example_visits ! (k mod 3)) [0, 1, 2] = example_visits" by (simp add: example_visits_def numeral_2_eq_2)
  let ?sv = "run_segments mem_ops up (\<lambda>k. example_visits ! (k mod 3)) example_segments (fresh_server example_app)"
  have "distinct (arrivals example_segments)" by (simp add: arrive)
  note law = interleaved_handlers_run_the_transition_system [OF start default_replicas accepted this refl, of up]
  from law have "mset (map fst (sv_answers ?sv)) + mset (dict_keys (sv_flights ?sv)) = mset (arrivals example_segments)" by blast
  moreover from law have "run_segments mem_ops up (\<lambda>k. example_visits ! (k mod 3)) (concat (map all_segments [0, 1, 2])) (fresh_server example_app) =
      (let (rs, a') = converse mem_ops up (map (\<lambda>k. example_visits ! (k mod 3)) [0, 1, 2]) example_app
       in (fresh_server a')\<lparr>sv_answers := zip [0, 1, 2] rs\<rparr>)" by blast
  ultimately show "\<exists>sv. sv = ?sv \<and> mset (map fst (sv_answers sv)) + mset (dict_keys (sv_flights sv)) = {#0, 2, 1#} \<and>
     run_segments mem_ops up (\<lambda>k. example_visits ! (k mod 3)) (concat (map all_segments [0, 1, 2])) (fresh_server example_app) =
       (let (rs, a') = converse mem_ops up example_visits example_app in (fresh_server a')\<lparr>sv_answers := zip [0, 1, 2] rs\<rparr>)"
    by (intro exI [of _ ?sv] conjI refl) (simp_all only: mset.simps arrive ks)
qed

end
