(* ===== verification/Replay.thy ===== *)
theory Replay
  imports Router Simulated
begin

section \<open>Trace replay: the discrete-event benchmark\<close>

text \<open>
  \<open>bench/replay.py\<close>. \<open>run_arm\<close> pops events \<open>(time, sequence number, session, turn)\<close> from a heap
  in lexicographic order, serves the turn on the replica the arm's router selects, and pushes
  the session's next turn. The heap is modelled by what \<open>heapq\<close> promises, the least element
  first, as a sorted list. The affinity arm's router owns a fresh in-memory session store; the
  wall-clock readings it makes while the \<open>n\<close>-th event is served are \<open>wall n\<close>. The loop is a
  recursive function whose termination measure is the number of turns still to be served.
\<close>

type_synonym event = "real \<times> nat \<times> nat \<times> nat"

datatype arm_router = AffinityArm affinity_router mem_store | RoundRobinArm round_robin

record arm_state =
  queue :: "event list"
  next_seq :: nat
  arm_predictor :: predictor
  arm_replicas :: "replica list"
  router :: arm_router
  stats :: run_stats
  session_start :: "(string, real) dict"
  session_end :: "(string, real) dict"

record arm_result =
  label :: string
  res_stats :: run_stats
  res_evictions :: int
  res_offloads :: int
  res_affinity_hits :: int
  res_affinity_breaks :: int

definition heap_push :: "event \<Rightarrow> event list \<Rightarrow> event list" where
  "heap_push e q = insort e q"

fun initial_queue :: "nat \<Rightarrow> session_trace list \<Rightarrow> event list \<Rightarrow> event list" where
  "initial_queue i [] q = q"
| "initial_queue i (tr # trs) q = initial_queue (i + 1) trs (heap_push (arrival_ms tr, i, i, 0) q)"

definition arm_policy :: "cluster_config \<Rightarrow> bool \<Rightarrow> cache_policy" where
  "arm_policy c adaptive = (if adaptive then adaptive_policy (cc_policy c) else lru_policy)"

definition build_arm :: "session_trace list \<Rightarrow> cluster_config \<Rightarrow> bool \<Rightarrow> arm_state" where
  "build_arm traces c adaptive =
     \<lparr>queue = initial_queue 0 traces [], next_seq = length traces,
      arm_predictor = new_predictor (cc_predictor c),
      arm_replicas = build_replicas (cc_replicas c) (hardware c) (arm_policy c adaptive),
      router = (if adaptive then AffinityArm (new_affinity_router (cc_policy c)) default_mem_store
                else RoundRobinArm \<lparr>cursor = 0\<rparr>),
      stats = empty_run_stats, session_start = [], session_end = []\<rparr>"

definition setdefault :: "'k \<Rightarrow> 'v \<Rightarrow> ('k, 'v) dict \<Rightarrow> ('k, 'v) dict" where
  "setdefault k v d = (if map_of d k = None then AList.update k v d else d)"

definition arm_select ::
  "real \<times> real \<Rightarrow> string \<Rightarrow> real \<Rightarrow> replica list \<Rightarrow> arm_router \<Rightarrow> py_error + nat \<times> arm_router" where
  "arm_select clocks sid now reps rt =
     (case rt of
        RoundRobinArm rr \<Rightarrow>
          (case rr_select reps rr of
             Inl e \<Rightarrow> Inl e | Inr (i, rr') \<Rightarrow> Inr (i, RoundRobinArm rr'))
      | AffinityArm ar s \<Rightarrow>
          (case affinity_select mem_ops reps sid now clocks ar s of
             (Inl e, _) \<Rightarrow> Inl e
           | (Inr i, ar', s') \<Rightarrow> Inr (i, AffinityArm ar' s')))"

definition learn_gap :: "session_trace \<Rightarrow> nat \<Rightarrow> predictor \<Rightarrow> py_error + predictor" where
  \<comment> \<open>on resume, the previous tool call's actual duration is observed\<close>
  "learn_gap tr t p =
     (if t = 0 then Inr p
      else let prev = turns tr ! (t - 1)
           in case named (tool_name prev) of
                None \<Rightarrow> Inr p
              | Some n \<Rightarrow> observe (st_session_id tr) (tool_name prev) (tool_duration_ms prev) p)"

definition gap_estimate ::
  "cluster_config \<Rightarrow> session_trace \<Rightarrow> turn \<Rightarrow> predictor \<Rightarrow> py_error + real \<times> predictor" where
  "gap_estimate c tr tn p =
     (case named (tool_name tn) of
        None \<Rightarrow> Inr (dead_session_ms (cc_policy c) * 2, p)
      | Some n \<Rightarrow> predict_ms (st_session_id tr) (tool_name tn) p)"

definition count_result :: "request_result \<Rightarrow> run_stats \<Rightarrow> run_stats" where
  "count_result res s =
     (let s1 = s\<lparr>requests := requests s + 1,
                 tokens_reused := tokens_reused s + reused_tokens res,
                 tokens_computed := tokens_computed s + computed_tokens res,
                 ttfts := ttfts s @ [ttft_ms res],
                 gpu_busy_ms := gpu_busy_ms s + (restore_ms res + prefill_ms res + decode_ms res)\<rparr>
      in case rr_tier res of
           GPU \<Rightarrow> s1\<lparr>gpu_hits := gpu_hits s1 + 1\<rparr>
         | DRAM \<Rightarrow> s1\<lparr>dram_hits := dram_hits s1 + 1\<rparr>
         | MISS \<Rightarrow> s1\<lparr>misses := misses s1 + 1\<rparr>)"

definition serve_turn ::
  "cluster_config \<Rightarrow> real \<times> real \<Rightarrow> session_trace \<Rightarrow> real \<Rightarrow> nat \<Rightarrow> nat \<Rightarrow> arm_state \<Rightarrow> py_error + arm_state" where
  \<comment> \<open>the body of the loop, after the event was popped\<close>
  "serve_turn c clocks tr now s_idx t st =
     (let tn = turns tr ! t;
          sid = st_session_id tr;
          starts = setdefault sid now (session_start st);
          reps = map (prune now) (arm_replicas st)
      in case learn_gap tr t (arm_predictor st) of
           Inl e \<Rightarrow> Inl e
         | Inr p1 \<Rightarrow>
           (case arm_select clocks sid now reps (router st) of
              Inl e \<Rightarrow> Inl e
            | Inr (i, rt) \<Rightarrow>
              (case gap_estimate c tr tn p1 of
                 Inl e \<Rightarrow> Inl e
               | Inr (gap, p2) \<Rightarrow>
                 (let r = reps ! i;
                      provisional_done = max (free_at_ms r) now
                  in case sim_execute (hardware c) r sid (prompt_tokens tn) (output_tokens tn) now
                            (provisional_done + gap) of
                       Inl e \<Rightarrow> Inl e
                     | Inr (res, r') \<Rightarrow>
                       (let completed = now + latency_ms res;
                            more = t + 1 < length (turns tr)
                        in Inr (st\<lparr>
                             queue := (if more
                                       then heap_push (completed + tool_duration_ms tn, next_seq st, s_idx, t + 1) (queue st)
                                       else queue st),
                             next_seq := (if more then next_seq st + 1 else next_seq st),
                             arm_predictor := p2,
                             arm_replicas := reps[i := r'\<lparr>pending := pending r' @ [completed]\<rparr>],
                             router := rt,
                             stats := count_result res (stats st),
                             session_start := starts,
                             session_end := AList.update sid completed (session_end st)\<rparr>))))))"

definition arm_step ::
  "(nat \<Rightarrow> real \<times> real) \<Rightarrow> session_trace list \<Rightarrow> cluster_config \<Rightarrow> arm_state \<Rightarrow> py_error + arm_state" where
  "arm_step wall traces c st =
     (case queue st of
        [] \<Rightarrow> Inl IndexError
      | (now, seq, s_idx, t) # rest \<Rightarrow>
          if s_idx < length traces \<and> t < length (turns (traces ! s_idx))
          then serve_turn c (wall (nat (requests (stats st)))) (traces ! s_idx) now s_idx t (st\<lparr>queue := rest\<rparr>)
          else Inl IndexError)"

text \<open>Turns still to be served: what the events in the heap stand for.\<close>

definition turns_left :: "session_trace list \<Rightarrow> event \<Rightarrow> nat" where
  "turns_left traces = (\<lambda>(now, seq, s_idx, t). length (turns (traces ! s_idx)) - t)"

definition work_left :: "session_trace list \<Rightarrow> event list \<Rightarrow> nat" where
  "work_left traces q = sum_list (map (turns_left traces) q)"

lemma sum_list_insort: "sum_list (map f (insort x xs)) = f x + sum_list (map f xs)"
  for f :: "'a::linorder \<Rightarrow> 'b::comm_monoid_add"
  by (induction xs) (auto simp: add.left_commute)

lemma work_left_simps [simp]:
  "work_left traces [] = 0"
  "work_left traces (e # q) = turns_left traces e + work_left traces q"
  "work_left traces (heap_push e q) = turns_left traces e + work_left traces q"
  by (simp_all add: work_left_def heap_push_def sum_list_insort)

lemma serve_turn_work:
  assumes "serve_turn c clocks tr now s_idx t st = Inr st'" and "tr = traces ! s_idx"
  shows "work_left traces (queue st') =
    (if t + 1 < length (turns tr) then length (turns tr) - (t + 1) else 0) + work_left traces (queue st)"
  using assms
  by (auto simp: serve_turn_def Let_def turns_left_def split: sum.splits prod.splits if_splits)

lemma arm_step_work:
  assumes "arm_step wall traces c st = Inr st'"
  shows "work_left traces (queue st) = work_left traces (queue st') + 1"
  using assms serve_turn_work
  by (fastforce simp: arm_step_def turns_left_def split: list.splits prod.splits if_splits)

function arm_loop ::
  "(nat \<Rightarrow> real \<times> real) \<Rightarrow> session_trace list \<Rightarrow> cluster_config \<Rightarrow> arm_state \<Rightarrow> py_error + arm_state" where
  "arm_loop wall traces c st =
     (if queue st = [] then Inr st
      else case arm_step wall traces c st of
             Inl e \<Rightarrow> Inl e
           | Inr st' \<Rightarrow> arm_loop wall traces c st')"
  by pat_completeness auto
termination
  by (relation "measure (\<lambda>(wall, traces, c, st). work_left traces (queue st))")
    (auto dest: arm_step_work)

declare arm_loop.simps [simp del]

fun completions :: "(string, real) dict \<Rightarrow> (string, real) dict \<Rightarrow> py_error + real list" where
  "completions starts [] = Inr []"
| "completions starts ((sid, finish) # ends) =
     (case map_of starts sid of
        None \<Rightarrow> Inl KeyError
      | Some start \<Rightarrow>
          (case completions starts ends of
             Inl e \<Rightarrow> Inl e | Inr xs \<Rightarrow> Inr ((finish - start) # xs)))"

fun router_hits :: "arm_router \<Rightarrow> int" where
  "router_hits (AffinityArm ar s) = affinity_hits ar"
| "router_hits (RoundRobinArm rr) = 0"

fun router_breaks :: "arm_router \<Rightarrow> int" where
  "router_breaks (AffinityArm ar s) = affinity_breaks ar"
| "router_breaks (RoundRobinArm rr) = 0"

definition run_arm ::
  "(nat \<Rightarrow> real \<times> real) \<Rightarrow> session_trace list \<Rightarrow> cluster_config \<Rightarrow> bool \<Rightarrow> string \<Rightarrow> py_error + arm_result" where
  "run_arm wall traces c adaptive lab =
     (case arm_loop wall traces c (build_arm traces c adaptive) of
        Inl e \<Rightarrow> Inl e
      | Inr st \<Rightarrow>
          (case completions (session_start st) (session_end st) of
             Inl e \<Rightarrow> Inl e
           | Inr xs \<Rightarrow>
               Inr \<lparr>label = lab,
                    res_stats = (stats st)\<lparr>job_completion_ms := job_completion_ms (stats st) @ xs\<rparr>,
                    res_evictions = sum_list (map evictions (arm_replicas st)),
                    res_offloads = sum_list (map offloads (arm_replicas st)),
                    res_affinity_hits = router_hits (router st),
                    res_affinity_breaks = router_breaks (router st)\<rparr>))"

definition compare_arms ::
  "(nat \<Rightarrow> real \<times> real) \<Rightarrow> (nat \<Rightarrow> real \<times> real) \<Rightarrow> session_trace list \<Rightarrow> cluster_config
   \<Rightarrow> py_error + arm_result \<times> arm_result" where
  "compare_arms wall1 wall2 traces c =
     (case run_arm wall1 traces c False ''stock vLLM (round-robin + LRU)'' of
        Inl e \<Rightarrow> Inl e
      | Inr b \<Rightarrow>
          (case run_arm wall2 traces c True ''AgentServe (affinity + adaptive TTL)'' of
             Inl e \<Rightarrow> Inl e | Inr t \<Rightarrow> Inr (b, t)))"

subsection \<open>What a trace may contain\<close>

definition wf_turn :: "turn \<Rightarrow> bool" where
  "wf_turn tn \<longleftrightarrow> 0 \<le> prompt_tokens tn \<and> 0 \<le> output_tokens tn \<and> 0 \<le> tool_duration_ms tn"

definition wf_trace :: "session_trace \<Rightarrow> bool" where
  "wf_trace tr \<longleftrightarrow> turns tr \<noteq> [] \<and> (\<forall>tn \<in> set (turns tr). wf_turn tn)"

definition event_ok :: "session_trace list \<Rightarrow> event \<Rightarrow> bool" where
  "event_ok traces = (\<lambda>(now, seq, s_idx, t). s_idx < length traces \<and> t < length (turns (traces ! s_idx)))"

lemma wf_trace_turn:
  assumes "wf_trace tr" "t < length (turns tr)"
  shows "0 \<le> prompt_tokens (turns tr ! t)" "0 \<le> output_tokens (turns tr ! t)"
    "0 \<le> tool_duration_ms (turns tr ! t)"
  using assms by (auto simp: wf_trace_def wf_turn_def)

lemma set_heap_push [simp]: "set (heap_push e q) = insert e (set q)"
  by (simp add: heap_push_def set_insort_key)

lemma sorted_heap_push [simp]: "sorted (heap_push e q) = sorted q"
  by (simp add: heap_push_def sorted_insort)

subsection \<open>One event\<close>

text \<open>
  The machinery of an arm: the replicas satisfy their invariant, an affinity arm's session
  store is well formed, and the predictor's tables are the averages of some history.
\<close>

fun router_ok :: "arm_router \<Rightarrow> bool" where
  "router_ok (AffinityArm ar s) = wf_mem_store s"
| "router_ok (RoundRobinArm rr) = True"

definition arm_ok :: "cluster_config \<Rightarrow> arm_state \<Rightarrow> bool" where
  "arm_ok c st \<longleftrightarrow> wf_cluster (arm_replicas st) \<and> router_ok (router st) \<and>
     (\<exists>h. predictor_after (cc_predictor c) h (arm_predictor st))"

lemma arm_select_total:
  assumes "wf_cluster reps" "router_ok rt"
  shows "\<exists>i rt'. arm_select clocks sid now reps rt = Inr (i, rt') \<and> i < length reps \<and> router_ok rt'"
proof (cases rt)
  case (RoundRobinArm rr)
  with assms(1) show ?thesis by (auto simp: arm_select_def rr_select_def wf_cluster_def)
next
  case (AffinityArm ar s)
  with assms mem.select_total [of s reps sid now clocks ar] show ?thesis
    by (auto simp: arm_select_def)
qed

lemma learn_gap_total:
  assumes tr: "wf_trace tr" "t < length (turns tr)" and p: "predictor_after c h p"
  shows "\<exists>p' h'. learn_gap tr t p = Inr p' \<and> predictor_after c h' p'"
proof (cases "t = 0 \<or> named (tool_name (turns tr ! (t - 1))) = None")
  case True
  with p show ?thesis by (auto simp: learn_gap_def Let_def)
next
  case False
  let ?prev = "turns tr ! (t - 1)"
  have "0 \<le> tool_duration_ms ?prev" using wf_trace_turn(3) [OF tr(1), of "t - 1"] tr(2) by simp
  then obtain p' where "observe (st_session_id tr) (tool_name ?prev) (tool_duration_ms ?prev) p = Inr p'"
    using observe_total by blast
  with observe_after [OF p this] False show ?thesis by (auto simp: learn_gap_def Let_def)
qed

lemma gap_estimate_total:
  assumes "wf_cluster_config c" "predictor_after (cc_predictor c) h p"
  shows "\<exists>gap p'. gap_estimate c tr tn p = Inr (gap, p') \<and> predictor_after (cc_predictor c) h p'"
  using predict_after [OF assms(2), of "st_session_id tr" "tool_name tn"] assms
  by (auto simp: gap_estimate_def wf_cluster_config_def wf_predictor_config_def split: option.split)

lemma wf_cluster_prune [wf_intros]: "wf_cluster reps \<Longrightarrow> wf_cluster (map (prune now) reps)"
  by (auto simp: wf_cluster_def wf_prune) (simp_all add: prune_def)

lemma wf_add_pending [wf_intros]: "wf_replica r \<Longrightarrow> wf_replica (r\<lparr>pending := ts\<rparr>)"
  by (simp add: wf_replica_def dram_tokens_def)

text \<open>Serving a turn always succeeds, and the new state is determined by the call's result.\<close>

definition served ::
  "session_trace \<Rightarrow> real \<Rightarrow> nat \<Rightarrow> nat \<Rightarrow> request_result \<Rightarrow> arm_state \<Rightarrow> arm_state \<Rightarrow> bool" where
  "served tr now s_idx t res st st' \<longleftrightarrow>
     queue st' = (if t + 1 < length (turns tr)
        then heap_push (now + latency_ms res + tool_duration_ms (turns tr ! t), next_seq st, s_idx, t + 1) (queue st)
        else queue st) \<and>
     stats st' = count_result res (stats st) \<and>
     session_start st' = setdefault (st_session_id tr) now (session_start st) \<and>
     session_end st' = AList.update (st_session_id tr) (now + latency_ms res) (session_end st)"

lemma serve_turn_total:
  assumes c: "wf_cluster_config c" and ok: "arm_ok c st"
    and tr: "wf_trace tr" "t < length (turns tr)"
  shows "\<exists>st' res. serve_turn c clocks tr now s_idx t st = Inr st' \<and> arm_ok c st' \<and>
    served tr now s_idx t res st st' \<and>
    0 \<le> reused_tokens res \<and> 0 \<le> computed_tokens res \<and>
    reused_tokens res + computed_tokens res = prompt_tokens (turns tr ! t) \<and>
    0 \<le> ttft_ms res \<and> ttft_ms res \<le> latency_ms res"
proof -
  let ?tn = "turns tr ! t" and ?sid = "st_session_id tr" and ?reps = "map (prune now) (arm_replicas st)"
  have reps: "wf_cluster ?reps" using ok by (simp add: arm_ok_def wf_cluster_prune)
  obtain p1 h where p1: "learn_gap tr t (arm_predictor st) = Inr p1" "predictor_after (cc_predictor c) h p1"
    using ok learn_gap_total [OF tr] unfolding arm_ok_def by blast
  obtain i rt where sel: "arm_select clocks ?sid now ?reps (router st) = Inr (i, rt)"
      "i < length ?reps" "router_ok rt"
    using arm_select_total [OF reps] ok unfolding arm_ok_def by blast
  obtain gap p2 where gap: "gap_estimate c tr ?tn p1 = Inr (gap, p2)" "predictor_after (cc_predictor c) h p2"
    using gap_estimate_total [OF c p1(2)] by blast
  let ?r = "?reps ! i"
  note r = wf_clusterD [OF reps sel(2)]
  have n: "0 \<le> prompt_tokens ?tn" "0 \<le> output_tokens ?tn" by (rule wf_trace_turn [OF tr])+
  obtain res r' where ex: "sim_execute (hardware c) ?r ?sid (prompt_tokens ?tn) (output_tokens ?tn) now
        (max (free_at_ms ?r) now + gap) = Inr (res, r')"
    and r': "wf_replica r'" "hw r' = hw ?r" "policy r' = policy ?r" "rep_id r' = rep_id ?r"
    and res: "reused_tokens res = reusable_tokens ?sid (prompt_tokens ?tn) ?r"
      "computed_tokens res = prompt_tokens ?tn - reusable_tokens ?sid (prompt_tokens ?tn) ?r"
    using sim_execute_law [OF r(2,3) n, of "hardware c" ?sid now "max (free_at_ms ?r) now + gap"]
    by auto
  let ?st = "st\<lparr>
     queue := (if t + 1 < length (turns tr)
       then heap_push (now + latency_ms res + tool_duration_ms ?tn, next_seq st, s_idx, t + 1) (queue st)
       else queue st),
     next_seq := (if t + 1 < length (turns tr) then next_seq st + 1 else next_seq st),
     arm_predictor := p2, arm_replicas := ?reps[i := r'\<lparr>pending := pending r' @ [now + latency_ms res]\<rparr>],
     router := rt, stats := count_result res (stats st),
     session_start := setdefault ?sid now (session_start st),
     session_end := AList.update ?sid (now + latency_ms res) (session_end st)\<rparr>"
  have "serve_turn c clocks tr now s_idx t st = Inr ?st"
    by (simp add: serve_turn_def Let_def p1(1) sel(1) gap(1) ex)
  moreover have "wf_cluster (?reps[i := r'\<lparr>pending := pending r' @ [now + latency_ms res]\<rparr>])"
    using r r' by (intro wf_cluster_update [OF reps sel(2)]) (simp_all add: wf_add_pending)
  with sel(3) gap(2) have "arm_ok c ?st" by (auto simp: arm_ok_def)
  moreover have "served tr now s_idx t res st ?st" by (simp add: served_def)
  moreover have "0 \<le> ttft_ms res \<and> ttft_ms res \<le> latency_ms res"
    using sim_execute_times [OF _ r(2,3) n ex] c
    by (auto simp: ttft_ms_def latency_ms_def wf_cluster_config_def)
  ultimately show ?thesis using reusable_bounds [OF r(2) n(1), of ?sid] res
    by (intro exI [of _ ?st] exI [of _ res]) auto
qed

subsection \<open>The invariant of the event loop\<close>

definition event_tokens :: "session_trace list \<Rightarrow> event \<Rightarrow> int" where
  "event_tokens traces = (\<lambda>(now, seq, s_idx, t). sum_list (map prompt_tokens (drop t (turns (traces ! s_idx)))))"

definition tokens_left :: "session_trace list \<Rightarrow> event list \<Rightarrow> int" where
  "tokens_left traces q = sum_list (map (event_tokens traces) q)"

definition total_turns :: "session_trace list \<Rightarrow> nat" where
  "total_turns traces = sum_list (map (\<lambda>tr. length (turns tr)) traces)"

definition total_tokens :: "session_trace list \<Rightarrow> int" where
  "total_tokens traces = sum_list (map total_prompt_tokens traces)"

lemma tokens_left_simps [simp]:
  "tokens_left traces [] = 0"
  "tokens_left traces (e # q) = event_tokens traces e + tokens_left traces q"
  "tokens_left traces (heap_push e q) = event_tokens traces e + tokens_left traces q"
  by (simp_all add: tokens_left_def heap_push_def sum_list_insort)

text \<open>
  The counters and the work still in the heap always add up to the workload of the traces; a
  session that was started has an end not before its start, and no later event precedes it.
\<close>

definition counters_ok :: "session_trace list \<Rightarrow> run_stats \<Rightarrow> event list \<Rightarrow> bool" where
  "counters_ok traces s q \<longleftrightarrow> consistent_stats s \<and>
     requests s + int (work_left traces q) = int (total_turns traces) \<and>
     tokens_reused s + tokens_computed s + tokens_left traces q = total_tokens traces \<and>
     int (length (ttfts s)) = requests s \<and> (\<forall>x \<in> set (ttfts s). 0 \<le> x) \<and> job_completion_ms s = []"

definition event_session :: "session_trace list \<Rightarrow> event \<Rightarrow> string" where
  "event_session traces = (\<lambda>(now, seq, s_idx, t). st_session_id (traces ! s_idx))"

definition jobs_ok ::
  "session_trace list \<Rightarrow> (string, real) dict \<Rightarrow> (string, real) dict \<Rightarrow> event list \<Rightarrow> bool" where
  "jobs_ok traces starts ends q \<longleftrightarrow> wf_dict ends \<and>
     set (dict_keys starts) = set (dict_keys ends) \<and>
     set (dict_keys ends) \<union> event_session traces ` set q = st_session_id ` set traces \<and>
     (\<forall>k a b. map_of starts k = Some a \<longrightarrow> map_of ends k = Some b \<longrightarrow> a \<le> b) \<and>
     (\<forall>k a. map_of starts k = Some a \<longrightarrow> (\<forall>e \<in> set q. a \<le> fst e))"

definition arm_inv :: "session_trace list \<Rightarrow> cluster_config \<Rightarrow> arm_state \<Rightarrow> bool" where
  "arm_inv traces c st \<longleftrightarrow> arm_ok c st \<and> sorted (queue st) \<and> (\<forall>e \<in> set (queue st). event_ok traces e) \<and>
     counters_ok traces (stats st) (queue st) \<and>
     jobs_ok traces (session_start st) (session_end st) (queue st)"

lemma count_result_counters:
  assumes inv: "counters_ok traces s ((now, seq, s_idx, t) # rest)" and t: "t < length (turns (traces ! s_idx))"
    and res: "0 \<le> reused_tokens res" "0 \<le> computed_tokens res" "0 \<le> ttft_ms res"
      "reused_tokens res + computed_tokens res = prompt_tokens (turns (traces ! s_idx) ! t)"
    and q: "work_left traces q + 1 = work_left traces ((now, seq, s_idx, t) # rest)"
      "tokens_left traces q + prompt_tokens (turns (traces ! s_idx) ! t) =
         tokens_left traces ((now, seq, s_idx, t) # rest)"
  shows "counters_ok traces (count_result res s) q"
  using assms
  by (auto simp: counters_ok_def count_result_def Let_def consistent_stats_def split: cache_tier.split)

lemma jobs_served:
  assumes inv: "jobs_ok traces starts ends ((now, seq, s_idx, t) # rest)"
    and ok: "event_ok traces (now, seq, s_idx, t)" and sorted: "\<forall>e \<in> set rest. now \<le> fst e"
    and fin: "now \<le> finish"
    and q: "set q \<subseteq> insert (later, sq, s_idx, t') (set rest)" "set rest \<subseteq> set q" "now \<le> later"
  shows "jobs_ok traces (setdefault (st_session_id (traces ! s_idx)) now starts)
    (AList.update (st_session_id (traces ! s_idx)) finish ends) q"
proof -
  let ?sid = "st_session_id (traces ! s_idx)" and ?e = "(now, seq, s_idx, t)"
  let ?starts = "setdefault ?sid now starts" and ?ends = "AList.update ?sid finish ends"
  note parts = inv [unfolded jobs_ok_def]
  have sid: "?sid \<in> st_session_id ` set traces" using ok by (simp add: event_ok_def)
  have start: "map_of ?starts k = (if k = ?sid \<and> map_of starts k = None then Some now else map_of starts k)" for k
    by (auto simp: setdefault_def)
  have early: "a \<le> now" if "map_of ?starts k = Some a" for k a
    using that parts by (auto simp: start split: if_splits)
  have "set (dict_keys ?starts) = insert ?sid (set (dict_keys starts))"
    by (simp add: setdefault_def keys_update map_of_eq_None_keys insert_absorb del: set_map)
  then have "set (dict_keys ?starts) = set (dict_keys ?ends)" using parts by (simp add: keys_update del: set_map)
  moreover have this_session: "event_session traces (b, n, s_idx, m) = ?sid" for b n m
    by (simp add: event_session_def)
  have "event_session traces ` set q \<subseteq> insert ?sid (event_session traces ` set rest)"
    using image_mono [OF q(1), of "event_session traces"] by (simp add: this_session)
  then have "insert ?sid (event_session traces ` set q) = insert ?sid (event_session traces ` set rest)"
    using image_mono [OF q(2), of "event_session traces"] by blast
  then have "insert ?sid (set (dict_keys ends) \<union> event_session traces ` set q) =
      insert ?sid (set (dict_keys ends) \<union> event_session traces ` set rest)" by blast
  then have "set (dict_keys ?ends) \<union> event_session traces ` set q = st_session_id ` set traces"
    using parts by (simp add: keys_update this_session Un_commute del: set_map)
  moreover have "a \<le> b" if "map_of ?starts k = Some a" "map_of ?ends k = Some b" for k a b
    using that early [OF that(1)] order_trans [OF _ fin, of a] parts
    by (cases "k = ?sid") (auto simp: start)
  moreover have "a \<le> fst e" if "map_of ?starts k = Some a" "e \<in> set q" for k a e
    using early [OF that(1)] that(2) q sorted by fastforce
  ultimately show ?thesis using parts by (simp add: jobs_ok_def del: set_map)
qed

lemma arm_step_inv:
  assumes c: "wf_cluster_config c" and tr: "\<forall>tr \<in> set traces. wf_trace tr"
    and inv: "arm_inv traces c st" and ne: "queue st \<noteq> []"
  shows "\<exists>st'. arm_step wall traces c st = Inr st' \<and> arm_inv traces c st'"
proof -
  obtain now seq s_idx t rest where q: "queue st = (now, seq, s_idx, t) # rest"
    using ne by (metis list.exhaust prod_cases4)
  let ?tr = "traces ! s_idx" and ?st = "st\<lparr>queue := rest\<rparr>"
  note parts = inv [unfolded arm_inv_def q]
  have t: "s_idx < length traces" "t < length (turns ?tr)" using parts by (auto simp: event_ok_def)
  then have wf: "wf_trace ?tr" using tr by simp
  have "arm_ok c ?st" using parts by (simp add: arm_ok_def)
  from serve_turn_total [OF c this wf t(2)] obtain st' res
    where st': "serve_turn c (wall (nat (requests (stats st)))) ?tr now s_idx t ?st = Inr st'" "arm_ok c st'"
      "served ?tr now s_idx t res ?st st'"
      and res: "0 \<le> reused_tokens res" "0 \<le> computed_tokens res" "0 \<le> ttft_ms res" "ttft_ms res \<le> latency_ms res"
      "reused_tokens res + computed_tokens res = prompt_tokens (turns ?tr ! t)" by blast
  let ?later = "now + latency_ms res + tool_duration_ms (turns ?tr ! t)"
  note s = st'(3) [unfolded served_def, simplified]
  have later: "now \<le> now + latency_ms res" "now \<le> ?later"
    using res wf_trace_turn(3) [OF wf t(2)] by auto
  have rest: "sorted rest" "\<forall>e \<in> set rest. now \<le> fst e"
    using parts by (auto simp: less_eq_prod_def)
  have drop: "drop t (turns ?tr) = turns ?tr ! t # drop (t + 1) (turns ?tr)"
    using t(2) by (simp add: Cons_nth_drop_Suc)
  have "counters_ok traces (count_result res (stats st)) (queue st')"
    using parts t(2) res s drop
    by (intro count_result_counters [of _ _ now seq s_idx t rest])
      (auto simp: turns_left_def event_tokens_def)
  moreover have "jobs_ok traces (session_start st') (session_end st') (queue st')"
    using parts rest later s
    by (auto simp del: set_map intro!: jobs_served [of _ _ _ now seq s_idx t rest _ _ ?later "next_seq st" "t + 1"])
  moreover have "sorted (queue st')" "\<forall>e \<in> set (queue st'). event_ok traces e"
    using s rest(1) parts t(1) by (auto simp: event_ok_def)
  ultimately show ?thesis
    using st' s t q by (auto simp: arm_inv_def arm_step_def)
qed

lemma arm_loop_inv:
  "wf_cluster_config c \<Longrightarrow> \<forall>tr \<in> set traces. wf_trace tr \<Longrightarrow> arm_inv traces c st \<Longrightarrow>
    \<exists>st'. arm_loop wall traces c st = Inr st' \<and> arm_inv traces c st' \<and> queue st' = []"
proof (induction wall traces c st rule: arm_loop.induct)
  case (1 wall traces c st)
  note wf = "1.prems"
  show ?case
  proof (cases "queue st = []")
    case True
    with wf show ?thesis by (simp add: arm_loop.simps)
  next
    case False
    from arm_step_inv [OF wf False] obtain st1
      where st1: "arm_step wall traces c st = Inr st1" "arm_inv traces c st1" by blast
    from "1.IH" [OF False st1(1) wf(1,2) st1(2)] False st1(1) show ?thesis
      by (simp add: arm_loop.simps [of wall traces c st])
  qed
qed

lemma initial_queue_facts:
  "traces = before @ trs \<Longrightarrow> i = length before \<Longrightarrow> sorted q \<Longrightarrow>
     sorted (initial_queue i trs q) \<and>
     work_left traces (initial_queue i trs q) = work_left traces q + total_turns trs \<and>
     tokens_left traces (initial_queue i trs q) = tokens_left traces q + total_tokens trs \<and>
     event_session traces ` set (initial_queue i trs q) =
       event_session traces ` set q \<union> st_session_id ` set trs \<and>
     ((\<forall>tr \<in> set trs. turns tr \<noteq> []) \<longrightarrow> (\<forall>e \<in> set q. event_ok traces e) \<longrightarrow>
      (\<forall>e \<in> set (initial_queue i trs q). event_ok traces e))"
proof (induction trs arbitrary: i before q)
  case Nil
  then show ?case by (simp add: total_turns_def total_tokens_def)
next
  case (Cons tr trs)
  have i: "traces ! i = tr" "i < length traces" using Cons.prems by simp_all
  have next_q: "traces = (before @ [tr]) @ trs" "i + 1 = length (before @ [tr])"
    "sorted (heap_push (arrival_ms tr, i, i, 0) q)" using Cons.prems by simp_all
  from Cons.IH [OF next_q] i show ?case
    by (auto simp: total_turns_def total_tokens_def turns_left_def event_tokens_def event_session_def
        event_ok_def total_prompt_tokens_def)
qed

lemma arm_inv_build:
  assumes c: "wf_cluster_config c" and tr: "\<forall>tr \<in> set traces. wf_trace tr"
  shows "arm_inv traces c (build_arm traces c adaptive)"
proof -
  have q: "sorted (initial_queue 0 traces [])"
    "work_left traces (initial_queue 0 traces []) = total_turns traces"
    "tokens_left traces (initial_queue 0 traces []) = total_tokens traces"
    "event_session traces ` set (initial_queue 0 traces []) = st_session_id ` set traces"
    "\<forall>e \<in> set (initial_queue 0 traces []). event_ok traces e"
    using initial_queue_facts [of traces "[]" traces 0 "[]"] tr by (auto simp: wf_trace_def)
  have "wf_cluster (build_replicas (cc_replicas c) (hardware c) (arm_policy c adaptive))"
    using c by (intro wf_build_replicas) (simp_all add: wf_cluster_config_def arm_policy_def)
  then have "arm_ok c (build_arm traces c adaptive)"
    by (auto simp: arm_ok_def build_arm_def default_mem_store_def intro: new_predictor_after)
  with q show ?thesis
    by (auto simp: arm_inv_def build_arm_def counters_ok_def jobs_ok_def empty_run_stats_def
        consistent_stats_def simp del: set_map)
qed

lemma completions_total:
  assumes "set (dict_keys ends) \<subseteq> set (dict_keys starts)" and "wf_dict ends"
    and "\<forall>k a b. map_of starts k = Some a \<longrightarrow> map_of ends k = Some b \<longrightarrow> a \<le> b"
  shows "\<exists>xs. completions starts ends = Inr xs \<and> length xs = card (set (dict_keys ends)) \<and> (\<forall>x \<in> set xs. 0 \<le> x)"
  using assms
proof (induction ends)
  case Nil
  then show ?case by simp
next
  case (Cons p ends)
  obtain k b where p: "p = (k, b)" by fastforce
  obtain a where a: "map_of starts k = Some a"
    using Cons.prems(1) p by (cases "map_of starts k") (auto simp: map_of_eq_None_iff)
  have "map_of starts k' = Some a' \<Longrightarrow> map_of ends k' = Some b' \<Longrightarrow> a' \<le> b'" for k' a' b'
    using Cons.prems(2,3) p map_of_eq_None_keys [of ends k] by (metis distinct.simps(2) fst_conv list.simps(9) map_of_Cons_code(2) option.simps(3))
  then obtain xs where "completions starts ends = Inr xs" "length xs = card (set (dict_keys ends))" "\<forall>x \<in> set xs. 0 \<le> x"
    using Cons.IH Cons.prems(1,2) by (auto simp del: set_map)
  moreover have "a \<le> b" using Cons.prems(3) p a by (metis map_of_Cons_code(2))
  ultimately show ?case using p a Cons.prems(2) by (simp del: set_map)
qed

subsection \<open>The report\<close>

text \<open>
  A list index below zero counts from the end.
\<close>

definition py_index :: "'a list \<Rightarrow> int \<Rightarrow> py_error + 'a" where
  "py_index xs i =
     (if 0 \<le> i \<and> i < int (length xs) then Inr (xs ! nat i)
      else if i < 0 \<and> - int (length xs) \<le> i then Inr (xs ! nat (int (length xs) + i))
      else Inl IndexError)"

definition percentile :: "real list \<Rightarrow> real \<Rightarrow> py_error + real" where
  "percentile vs q =
     (if vs = [] then Inr 0
      else let ordered = sort vs;
               idx = min (int (length ordered) - 1) (py_round (q * real_of_int (int (length ordered) - 1)))
           in py_index ordered idx)"

definition report :: "arm_result \<Rightarrow> py_error + (string, real) dict" where
  "report res =
     (let s = res_stats res
      in case percentile (ttfts s) (50 / 100) of Inl e \<Rightarrow> Inl e | Inr p50_ttft \<Rightarrow>
        (case percentile (ttfts s) (95 / 100) of Inl e \<Rightarrow> Inl e | Inr p95_ttft \<Rightarrow>
        (case percentile (job_completion_ms s) (50 / 100) of Inl e \<Rightarrow> Inl e | Inr p50_jct \<Rightarrow>
        (case percentile (job_completion_ms s) (95 / 100) of Inl e \<Rightarrow> Inl e | Inr p95_jct \<Rightarrow>
         Inr [(''requests'', real_of_int (requests s)),
              (''gpu_hit_rate'', gpu_hit_rate s),
              (''any_hit_rate'', any_hit_rate s),
              (''token_reuse_rate'', reuse_rate s),
              (''tokens_recomputed'', real_of_int (tokens_computed s)),
              (''p50_ttft_ms'', p50_ttft),
              (''p95_ttft_ms'', p95_ttft),
              (''p50_jct_ms'', p50_jct),
              (''p95_jct_ms'', p95_jct),
              (''gpu_busy_ms'', gpu_busy_ms s),
              (''evictions'', real_of_int (res_evictions res)),
              (''offloads'', real_of_int (res_offloads res))]))))"

lemma percentile_rank:
  assumes "vs \<noteq> []" "0 \<le> q" "q \<le> 1"
  shows "percentile vs q = Inr (sort vs ! nat (py_round (q * real (length vs - 1)))) \<and>
    0 \<le> py_round (q * real (length vs - 1)) \<and>
    py_round (q * real (length vs - 1)) < int (length vs)"
proof -
  obtain m where m: "length vs = Suc m" using assms(1) by (cases vs) auto
  have "0 \<le> q * real m" using assms by simp
  from py_round_mono [OF this] have lo: "0 \<le> py_round (q * real m)" using py_round_of_int [of 0] by simp
  have "q * real m \<le> real m" using assms by (simp add: mult_left_le_one_le)
  from py_round_mono [OF this] have hi: "py_round (q * real m) \<le> int m"
    using py_round_of_int [of "int m"] by simp
  have "percentile vs q = py_index (sort vs) (min (int m) (py_round (q * real m)))"
    using assms(1) m by (simp add: percentile_def Let_def)
  then show ?thesis using lo hi m by (simp add: py_index_def min_absorb2)
qed

subsection \<open>Properties\<close>

lemma run_arm_total:
  assumes c: "wf_cluster_config c" and tr: "\<forall>tr \<in> set traces. wf_trace tr"
  shows "\<exists>res. run_arm wall traces c adaptive lab = Inr res \<and> consistent_stats (res_stats res) \<and>
    requests (res_stats res) = int (total_turns traces) \<and>
    tokens_reused (res_stats res) + tokens_computed (res_stats res) = total_tokens traces \<and>
    int (length (ttfts (res_stats res))) = requests (res_stats res) \<and>
    (\<forall>x \<in> set (ttfts (res_stats res)). 0 \<le> x) \<and>
    length (job_completion_ms (res_stats res)) = card (st_session_id ` set traces) \<and>
    (\<forall>x \<in> set (job_completion_ms (res_stats res)). 0 \<le> x)"
proof -
  obtain st where st: "arm_loop wall traces c (build_arm traces c adaptive) = Inr st"
    "arm_inv traces c st" "queue st = []"
    using arm_loop_inv [OF c tr arm_inv_build [OF c tr]] by blast
  then have jobs: "jobs_ok traces (session_start st) (session_end st) []"
    and counters: "counters_ok traces (stats st) []" by (simp_all add: arm_inv_def)
  from jobs have ends: "set (dict_keys (session_end st)) = st_session_id ` set traces"
    by (simp add: jobs_ok_def del: set_map)
  obtain xs where "completions (session_start st) (session_end st) = Inr xs"
    "length xs = card (set (dict_keys (session_end st)))" "\<forall>x \<in> set xs. 0 \<le> x"
    using completions_total [of "session_end st" "session_start st"] jobs
    by (auto simp: jobs_ok_def simp del: set_map)
  with st(1) counters ends show ?thesis
    by (simp add: run_arm_def counters_ok_def consistent_stats_def del: set_map)
qed

text \<open>
  C17: A replay serves every turn of every trace exactly once. For any accepted configuration
  and any traces whose sessions have at least one turn and no negative sizes, either arm runs to
  the end without an exception; it counts one request and one non-negative time to first token
  per turn, splits the prompt tokens of the whole trace exactly into reused and recomputed, and
  records one non-negative completion time per session id.
\<close>

theorem replay_serves_every_turn:
  assumes "wf_cluster_config c" and "\<forall>tr \<in> set traces. wf_trace tr"
  shows "\<exists>res. run_arm wall traces c adaptive lab = Inr res \<and> consistent_stats (res_stats res) \<and>
    requests (res_stats res) = int (sum_list (map (\<lambda>tr. length (turns tr)) traces)) \<and>
    tokens_reused (res_stats res) + tokens_computed (res_stats res) =
      sum_list (map total_prompt_tokens traces) \<and>
    int (length (ttfts (res_stats res))) = requests (res_stats res) \<and>
    (\<forall>x \<in> set (ttfts (res_stats res)). 0 \<le> x) \<and>
    length (job_completion_ms (res_stats res)) = card (st_session_id ` set traces) \<and>
    (\<forall>x \<in> set (job_completion_ms (res_stats res)). 0 \<le> x)"
  using run_arm_total [OF assms] by (simp add: total_turns_def total_tokens_def)

definition example_traces :: "session_trace list" where
  "example_traces =
     [\<lparr>st_session_id = ''s0'', arrival_ms = 0, turns =
        [\<lparr>prompt_tokens = 1000, output_tokens = 100, tool_name = Some ''grep'', tool_duration_ms = 400\<rparr>,
         \<lparr>prompt_tokens = 1500, output_tokens = 50, tool_name = None, tool_duration_ms = 0\<rparr>]\<rparr>,
      \<lparr>st_session_id = ''s1'', arrival_ms = 10, turns =
        [\<lparr>prompt_tokens = 2000, output_tokens = 80, tool_name = None, tool_duration_ms = 0\<rparr>]\<rparr>]"

lemma wf_example_traces: "\<forall>tr \<in> set example_traces. wf_trace tr"
  by (simp add: example_traces_def wf_trace_def wf_turn_def)

lemma replay_serves_every_turn_witness:
  "\<exists>res. run_arm (\<lambda>n. (real n, real n)) example_traces default_cluster_config True ''arm'' = Inr res \<and>
     requests (res_stats res) = 3 \<and>
     tokens_reused (res_stats res) + tokens_computed (res_stats res) = 4500 \<and>
     length (job_completion_ms (res_stats res)) = 2"
  using replay_serves_every_turn [OF wf_default_cluster_config wf_example_traces,
      of "\<lambda>n. (real n, real n)" True "''arm''"]
  by (auto simp: example_traces_def total_prompt_tokens_def)

text \<open>
  C32: The two arms of a comparison are comparable. Baseline and treatment both succeed, serve
  the same number of requests, the same prompt tokens and the same jobs, so one arm recomputes
  no more tokens than the other exactly when its reported reuse rate is no lower.
\<close>

theorem arms_serve_the_same_workload:
  assumes c: "wf_cluster_config c" and tr: "\<forall>tr \<in> set traces. wf_trace tr"
  shows "\<exists>b t. compare_arms wall1 wall2 traces c = Inr (b, t) \<and>
    requests (res_stats b) = requests (res_stats t) \<and>
    tokens_reused (res_stats b) + tokens_computed (res_stats b) =
      tokens_reused (res_stats t) + tokens_computed (res_stats t) \<and>
    length (job_completion_ms (res_stats b)) = length (job_completion_ms (res_stats t)) \<and>
    (tokens_computed (res_stats t) \<le> tokens_computed (res_stats b) \<longleftrightarrow>
     reuse_rate (res_stats b) \<le> reuse_rate (res_stats t))"
proof -
  obtain b t where bt: "compare_arms wall1 wall2 traces c = Inr (b, t)"
    and b: "requests (res_stats b) = int (total_turns traces)"
      "tokens_reused (res_stats b) + tokens_computed (res_stats b) = total_tokens traces"
      "length (job_completion_ms (res_stats b)) = card (st_session_id ` set traces)"
      "consistent_stats (res_stats b)"
    and t: "requests (res_stats t) = int (total_turns traces)"
      "tokens_reused (res_stats t) + tokens_computed (res_stats t) = total_tokens traces"
      "length (job_completion_ms (res_stats t)) = card (st_session_id ` set traces)"
      "consistent_stats (res_stats t)"
    using run_arm_total [OF c tr, of wall1 False "''stock vLLM (round-robin + LRU)''"]
      run_arm_total [OF c tr, of wall2 True "''AgentServe (affinity + adaptive TTL)''"]
    by (auto simp: compare_arms_def)
  have "0 \<le> total_tokens traces" "0 \<le> tokens_computed (res_stats b)" "0 \<le> tokens_reused (res_stats b)"
    "0 \<le> tokens_computed (res_stats t)" "0 \<le> tokens_reused (res_stats t)"
    using b(2,4) by (auto simp: consistent_stats_def)
      (use t(4) in \<open>auto simp: consistent_stats_def\<close>)
  then have "tokens_computed (res_stats t) \<le> tokens_computed (res_stats b) \<longleftrightarrow>
      reuse_rate (res_stats b) \<le> reuse_rate (res_stats t)"
    using b(2) t(2)
    by (cases "total_tokens traces = 0") (auto simp: reuse_rate_def Let_def divide_le_cancel)
  with bt b t show ?thesis by auto
qed

lemma arms_serve_the_same_workload_witness:
  "\<exists>b t. compare_arms (\<lambda>n. (0, 0)) (\<lambda>n. (real n, real n)) example_traces default_cluster_config = Inr (b, t) \<and>
     requests (res_stats b) = requests (res_stats t)"
  using arms_serve_the_same_workload [OF wf_default_cluster_config wf_example_traces,
      of "\<lambda>n. (0, 0)" "\<lambda>n. (real n, real n)"]
  by blast

text \<open>
  A reported percentile is one of the measured values, and the right one. For a quantile
  between 0 and 1 of a non-empty list of values, \<open>percentile\<close> returns the entry of the sorted
  list at an index within one half of the exact rank \<open>q * (n - 1)\<close>, and a larger quantile never
  returns a smaller value.
\<close>

theorem percentile_is_nearest_rank:
  assumes "vs \<noteq> []" and "0 \<le> q" and "q \<le> q'" and "q' \<le> 1"
  shows "\<exists>k x y. percentile vs q = Inr x \<and> percentile vs q' = Inr y \<and>
    k < length vs \<and> x = sort vs ! k \<and> x \<in> set vs \<and>
    \<bar>real k - q * real (length vs - 1)\<bar> \<le> 1 / 2 \<and> x \<le> y"
proof -
  let ?i = "\<lambda>q. py_round (q * real (length vs - 1))"
  have rank: "percentile vs p = Inr (sort vs ! nat (?i p)) \<and> 0 \<le> ?i p \<and> ?i p < int (length vs)"
    if "p = q \<or> p = q'" for p
  proof -
    from that assms have "0 \<le> p" "p \<le> 1" by auto
    then show ?thesis by (rule percentile_rank [OF assms(1)])
  qed
  have "q * real (length vs - 1) \<le> q' * real (length vs - 1)"
    using assms by (intro mult_right_mono) simp_all
  then have "sort vs ! nat (?i q) \<le> sort vs ! nat (?i q')"
    using rank by (intro sorted_nth_mono) (auto simp: nat_mono py_round_mono nat_less_iff)
  moreover have "sort vs ! nat (?i q) \<in> set vs"
    using rank [of q] by (metis length_sort nat_less_iff nth_mem set_sort)
  ultimately show ?thesis
    using rank [of q] rank [of q'] py_round_near [of "q * real (length vs - 1)"]
    by (intro exI [of _ "nat (?i q)"]) (auto simp: nat_less_iff)
qed

lemma percentile_is_nearest_rank_witness:
  "\<exists>k x y. percentile [30, 10, 20 :: real] (1 / 2) = Inr x \<and> percentile [30, 10, 20] (19 / 20) = Inr y \<and>
    k < length [30, 10, 20 :: real] \<and> x = sort [30, 10, 20] ! k \<and> x \<in> set [30, 10, 20] \<and>
    \<bar>real k - 1 / 2 * real (length [30, 10, 20 :: real] - 1)\<bar> \<le> 1 / 2 \<and> x \<le> y"
  by (rule percentile_is_nearest_rank) simp_all

end
