(* ===== verification/Traces.thy ===== *)
theory Traces
  imports Replay
begin

section \<open>Synthetic agent traces\<close>

text \<open>
  \<open>bench/traces.py\<close>. The random generator is the standard library's, seeded: its methods are a
  record of functions over the generator's state \<open>'g\<close>, and \<open>rng_laws\<close> states the ranges they are
  documented to keep. Every draw is made in the order of the source.
\<close>

record 'g rng =
  rng_choices :: "string list \<Rightarrow> real list \<Rightarrow> 'g \<Rightarrow> string \<times> 'g"
  rng_lognormvariate :: "real \<Rightarrow> real \<Rightarrow> 'g \<Rightarrow> real \<times> 'g"
  rng_gauss :: "real \<Rightarrow> real \<Rightarrow> 'g \<Rightarrow> real \<times> 'g"
  rng_randint :: "int \<Rightarrow> int \<Rightarrow> 'g \<Rightarrow> int \<times> 'g"
  rng_uniform :: "real \<Rightarrow> real \<Rightarrow> 'g \<Rightarrow> real \<times> 'g"

definition tool_profile :: "(string, real \<times> real \<times> real) dict" where
  "tool_profile =
     [(''read_file'', (280, 45 / 100, 32 / 100)), (''grep'', (420, 50 / 100, 18 / 100)),
      (''edit_file'', (650, 40 / 100, 16 / 100)), (''git_diff'', (900, 55 / 100, 8 / 100)),
      (''run_linter'', (6500, 60 / 100, 10 / 100)), (''run_tests'', (44000, 70 / 100, 13 / 100)),
      (''build'', (95000, 65 / 100, 3 / 100))]"

definition sample_tool :: "'g rng \<Rightarrow> 'g \<Rightarrow> (py_error + string \<times> real) \<times> 'g" where
  "sample_tool api g =
     (let (name, g1) = rng_choices api (dict_keys tool_profile) (map (snd \<circ> snd) (dict_values tool_profile)) g
      in case map_of tool_profile name of
           None \<Rightarrow> (Inl KeyError, g1)
         | Some (mean, sigma, weight) \<Rightarrow>
             (let (x, g2) = rng_lognormvariate api (ln mean - sigma ^ 2 / 2) sigma g1
              in (Inr (name, max 50 x), g2)))"

fun generate_turns :: "'g rng \<Rightarrow> nat \<Rightarrow> int \<Rightarrow> 'g \<Rightarrow> (py_error + turn list) \<times> 'g" where
  \<comment> \<open>the inner loop, with the turns still to generate and the prompt of the next one\<close>
  "generate_turns api 0 prompt g = (Inr [], g)"
| "generate_turns api (Suc n) prompt g =
     (let (output, g1) = rng_randint api 90 420 g;
          (tool, g2) = (if n = 0 then (Inr (None, 0), g1)
                        else case sample_tool api g1 of
                               (Inl e, g2) \<Rightarrow> (Inl e, g2)
                             | (Inr (name, ms), g2) \<Rightarrow> (Inr (Some name, ms), g2))
      in case tool of
           Inl e \<Rightarrow> (Inl e, g2)
         | Inr (name, ms) \<Rightarrow>
             (let (result_tokens, g3) = (if named name \<noteq> None then rng_randint api 120 1400 g2 else (0, g2))
              in case generate_turns api n (prompt + output + result_tokens) g3 of
                   (Inl e, g4) \<Rightarrow> (Inl e, g4)
                 | (Inr ts, g4) \<Rightarrow>
                     (Inr (\<lparr>prompt_tokens = prompt, output_tokens = output, tool_name = name,
                            tool_duration_ms = ms\<rparr> # ts), g4)))"

definition padded :: "nat \<Rightarrow> string" where
  \<comment> \<open>\<open>f"{i:04d}"\<close>\<close>
  "padded i = replicate (4 - length (nat_digits i)) (CHR ''0'') @ nat_digits i"

definition generate_session :: "'g rng \<Rightarrow> int \<Rightarrow> int \<Rightarrow> real \<Rightarrow> nat \<Rightarrow> 'g \<Rightarrow> (py_error + session_trace) \<times> 'g" where
  "generate_session api mean_turns base_prompt window i g =
     (let (x, g1) = rng_gauss api (real_of_int mean_turns) 6 g;
          turns_count = max 4 (py_trunc x);
          (extra, g2) = rng_randint api (-900) 2600 g1
      in case generate_turns api (nat turns_count) (base_prompt + extra) g2 of
           (Inl e, g3) \<Rightarrow> (Inl e, g3)
         | (Inr ts, g3) \<Rightarrow>
             (let (arrival, g4) = rng_uniform api 0 window g3
              in (Inr \<lparr>st_session_id = ''sess-'' @ padded i, arrival_ms = arrival, turns = ts\<rparr>, g4)))"

fun generate_sessions ::
  "'g rng \<Rightarrow> int \<Rightarrow> int \<Rightarrow> real \<Rightarrow> nat list \<Rightarrow> 'g \<Rightarrow> (py_error + session_trace list) \<times> 'g" where
  "generate_sessions api mean_turns base_prompt window [] g = (Inr [], g)"
| "generate_sessions api mean_turns base_prompt window (i # is) g =
     (case generate_session api mean_turns base_prompt window i g of
        (Inl e, g1) \<Rightarrow> (Inl e, g1)
      | (Inr tr, g1) \<Rightarrow>
          (case generate_sessions api mean_turns base_prompt window is g1 of
             (Inl e, g2) \<Rightarrow> (Inl e, g2)
           | (Inr trs, g2) \<Rightarrow> (Inr (tr # trs), g2)))"

definition generate_trace ::
  "'g rng \<Rightarrow> nat \<Rightarrow> int \<Rightarrow> int \<Rightarrow> real \<Rightarrow> 'g \<Rightarrow> (py_error + session_trace list) \<times> 'g" where
  \<comment> \<open>\<open>g\<close> is the generator seeded with \<open>seed\<close>\<close>
  "generate_trace api sessions mean_turns base_prompt window g =
     (case generate_sessions api mean_turns base_prompt window [0..<sessions] g of
        (Inl e, g') \<Rightarrow> (Inl e, g')
      | (Inr trs, g') \<Rightarrow> (Inr (sort_key arrival_ms trs), g'))"

definition trace_summary :: "session_trace list \<Rightarrow> py_error + (string, real) dict" where
  "trace_summary trs =
     (let ns = map (\<lambda>tr. int (length (turns tr))) trs;
          prompts = [prompt_tokens tn. tr \<leftarrow> trs, tn \<leftarrow> turns tr];
          gaps = sort [tool_duration_ms tn. tr \<leftarrow> trs, tn \<leftarrow> turns tr, named (tool_name tn) \<noteq> None]
      in if trs = [] then Inl ZeroDivisionError
         else if prompts = [] then Inl ValueError
         else case py_index gaps (int (length gaps div 2)) of Inl e \<Rightarrow> Inl e | Inr median \<Rightarrow>
              (case py_index gaps (py_trunc (real (length gaps) * (9 / 10))) of Inl e \<Rightarrow> Inl e | Inr p90 \<Rightarrow>
               Inr [(''sessions'', real (length trs)),
                    (''total_calls'', real_of_int (sum_list ns)),
                    (''mean_turns'', real_of_int (sum_list ns) / real (length ns)),
                    (''max_prompt_tokens'', real_of_int (Max (set prompts))),
                    (''mean_prompt_tokens'', real_of_int (sum_list prompts) / real (length prompts)),
                    (''median_tool_gap_ms'', median),
                    (''p90_tool_gap_ms'', p90)]))"

subsection \<open>The generator's ranges\<close>

definition rng_laws :: "'g rng \<Rightarrow> bool" where
  "rng_laws api \<longleftrightarrow>
     (\<forall>xs ws g. xs \<noteq> [] \<longrightarrow> fst (rng_choices api xs ws g) \<in> set xs) \<and>
     (\<forall>lo hi g. lo \<le> hi \<longrightarrow> lo \<le> fst (rng_randint api lo hi g) \<and> fst (rng_randint api lo hi g) \<le> hi) \<and>
     (\<forall>lo hi g. lo \<le> hi \<longrightarrow> lo \<le> fst (rng_uniform api lo hi g) \<and> fst (rng_uniform api lo hi g) \<le> hi)"

text \<open>
  A conversation as the agents hold it: each prompt contains the previous prompt, the model's
  output and a tool result; every turn but the last ends in a tool call.
\<close>

fun grows :: "turn list \<Rightarrow> bool" where
  "grows (a # b # ts) =
     (prompt_tokens a + output_tokens a + 120 \<le> prompt_tokens b \<and> named (tool_name a) \<noteq> None \<and>
      50 \<le> tool_duration_ms a \<and> grows (b # ts))"
| "grows [a] = (tool_name a = None \<and> tool_duration_ms a = 0)"
| "grows [] = True"

lemma sample_tool_total:
  assumes "rng_laws api"
  shows "\<exists>name ms g'. sample_tool api g = (Inr (name, ms), g') \<and> named (Some name) = Some name \<and> 50 \<le> ms"
proof -
  obtain name g1 where draw: "rng_choices api (dict_keys tool_profile) (map (snd \<circ> snd) (dict_values tool_profile)) g = (name, g1)"
    by fastforce
  have "dict_keys tool_profile \<noteq> []" by (simp add: tool_profile_def)
  then have name: "name \<in> set (dict_keys tool_profile)"
    using assms draw unfolding rng_laws_def by (metis fst_conv)
  then obtain mean sigma w where "map_of tool_profile name = Some (mean, sigma, w)"
    by (cases "map_of tool_profile name") (auto simp: map_of_eq_None_iff)
  moreover have "named (Some name) = Some name" using name by (auto simp: tool_profile_def named_def)
  ultimately show ?thesis using draw by (auto simp: sample_tool_def split: prod.split)
qed

lemma rng_ranges:
  assumes "rng_laws api"
  shows "rng_randint api lo hi g = (k, g') \<Longrightarrow> lo \<le> hi \<Longrightarrow> lo \<le> k \<and> k \<le> hi"
    "rng_uniform api a b g = (x, g') \<Longrightarrow> a \<le> b \<Longrightarrow> a \<le> x \<and> x \<le> b"
  using assms unfolding rng_laws_def by (metis fst_conv)+

lemma generate_turns_total:
  assumes api: "rng_laws api"
  shows "0 \<le> prompt \<Longrightarrow> \<exists>ts g'. generate_turns api n prompt g = (Inr ts, g') \<and> length ts = n \<and> grows ts \<and>
    (\<forall>tn \<in> set ts. wf_turn tn \<and> prompt \<le> prompt_tokens tn) \<and> (n \<noteq> 0 \<longrightarrow> prompt_tokens (hd ts) = prompt)"
proof (induction n arbitrary: prompt g)
  case 0
  show ?case by simp
next
  case (Suc n)
  obtain out_n g1 where out: "rng_randint api 90 420 g = (out_n, g1)" by fastforce
  then have o: "90 \<le> out_n" using rng_ranges(1) [OF api] by fastforce
  show ?case
  proof (cases "n = 0")
    case True
    with out o Suc.prems show ?thesis by (simp add: named_def wf_turn_def)
  next
    case False
    obtain name ms g2 where tool: "sample_tool api g1 = (Inr (name, ms), g2)"
        "named (Some name) = Some name" "50 \<le> ms" using sample_tool_total [OF api] by blast
    obtain k g3 where k: "rng_randint api 120 1400 g2 = (k, g3)" by fastforce
    then have k120: "120 \<le> k" using rng_ranges(1) [OF api] by fastforce
    have "0 \<le> prompt + out_n + k" using Suc.prems o k120 by simp
    from Suc.IH [OF this, of g3] obtain ts g' where ts: "generate_turns api n (prompt + out_n + k) g3 = (Inr ts, g')"
      "length ts = n" "grows ts" "\<forall>tn \<in> set ts. wf_turn tn \<and> prompt + out_n + k \<le> prompt_tokens tn"
      "prompt_tokens (hd ts) = prompt + out_n + k" using False by blast
    then obtain b us where us: "ts = b # us" using False by (cases ts) auto
    show ?thesis using False out o tool k k120 ts Suc.prems by (auto simp: us wf_turn_def)
  qed
qed

subsection \<open>Session names\<close>

lemma padded_value: "parse_digits False 0 (padded i) = Some (int i)"
proof -
  have zeros: "foldl (\<lambda>a c. 10 * a + digit_value c) 0 (replicate k (CHR ''0'')) = 0" for k
    by (induction k) (simp_all add: digit_value_def code_def)
  have "is_digit (CHR ''0'')" by (simp add: is_digit_def code_def)
  then have "\<forall>c \<in> set (padded i). is_digit c" by (auto simp: padded_def nat_digits_digits)
  then have "parse_digits False 0 (padded i) =
      Some (foldl (\<lambda>a c. 10 * a + digit_value c) 0 (padded i))"
    using parse_digits_append [of "padded i" False 0 "[]"] by (simp add: padded_def)
  also have "foldl (\<lambda>a c. 10 * a + digit_value c) 0 (padded i) = int i"
    by (simp add: padded_def zeros nat_digits_value)
  finally show ?thesis .
qed

lemma padded_inj: "padded i = padded j \<longleftrightarrow> i = j"
  by (metis padded_value of_nat_eq_iff option.inject)

subsection \<open>Properties\<close>

lemma generate_session_total:
  assumes api: "rng_laws api" and base: "900 \<le> base" and window: "0 \<le> window"
  shows "\<exists>tr g'. generate_session api mean_turns base window i g = (Inr tr, g') \<and>
    st_session_id tr = ''sess-'' @ padded i \<and> 0 \<le> arrival_ms tr \<and> arrival_ms tr \<le> window \<and>
    4 \<le> length (turns tr) \<and> grows (turns tr) \<and> wf_trace tr"
proof -
  obtain x g1 where x: "rng_gauss api (real_of_int mean_turns) 6 g = (x, g1)" by fastforce
  obtain extra g2 where extra: "rng_randint api (-900) 2600 g1 = (extra, g2)" by fastforce
  then have "0 \<le> base + extra" using rng_ranges(1) [OF api extra] base by simp
  from generate_turns_total [OF api this, of "nat (max 4 (py_trunc x))" g2] obtain ts g3
    where ts: "generate_turns api (nat (max 4 (py_trunc x))) (base + extra) g2 = (Inr ts, g3)"
      "length ts = nat (max 4 (py_trunc x))" "grows ts" "\<forall>tn \<in> set ts. wf_turn tn" by blast
  obtain arrival g4 where arrival: "rng_uniform api 0 window g3 = (arrival, g4)" by fastforce
  have "4 \<le> length ts" using ts(2) by simp
  moreover have "wf_trace \<lparr>st_session_id = sid, arrival_ms = arrival, turns = ts\<rparr>" for sid
    using ts(4) \<open>4 \<le> length ts\<close> by (auto simp: wf_trace_def)
  ultimately show ?thesis
    using x extra ts arrival rng_ranges(2) [OF api arrival window]
    by (simp add: generate_session_def Let_def)
qed

lemma generate_sessions_total:
  assumes api: "rng_laws api" and base: "900 \<le> base" and window: "0 \<le> window"
  shows "\<exists>trs g'. generate_sessions api mean_turns base window is g = (Inr trs, g') \<and>
    map st_session_id trs = map (\<lambda>i. ''sess-'' @ padded i) is \<and>
    (\<forall>tr \<in> set trs. 0 \<le> arrival_ms tr \<and> arrival_ms tr \<le> window \<and> 4 \<le> length (turns tr) \<and>
       grows (turns tr) \<and> wf_trace tr)"
proof (induction "is" arbitrary: g)
  case Nil
  show ?case by simp
next
  case (Cons i js)
  obtain tr g1 where tr: "generate_session api mean_turns base window i g = (Inr tr, g1)"
    "st_session_id tr = ''sess-'' @ padded i"
    "0 \<le> arrival_ms tr \<and> arrival_ms tr \<le> window \<and> 4 \<le> length (turns tr) \<and> grows (turns tr) \<and> wf_trace tr"
    using generate_session_total [OF assms] by blast
  obtain trs g2 where "generate_sessions api mean_turns base window js g1 = (Inr trs, g2)"
    "map st_session_id trs = map (\<lambda>i. ''sess-'' @ padded i) js"
    "\<forall>tr \<in> set trs. 0 \<le> arrival_ms tr \<and> arrival_ms tr \<le> window \<and> 4 \<le> length (turns tr) \<and> grows (turns tr) \<and> wf_trace tr"
    using Cons.IH by blast
  with tr show ?case by simp
qed

lemma generate_trace_total:
  assumes "rng_laws api" "900 \<le> base" "0 \<le> window"
  shows "\<exists>trs g'. generate_trace api sessions mean_turns base window g = (Inr trs, g') \<and>
    length trs = sessions \<and> distinct (map st_session_id trs) \<and> sorted (map arrival_ms trs) \<and>
    (\<forall>tr \<in> set trs. 0 \<le> arrival_ms tr \<and> arrival_ms tr \<le> window \<and> 4 \<le> length (turns tr) \<and>
       grows (turns tr) \<and> wf_trace tr)"
proof -
  obtain trs g' where gen: "generate_sessions api mean_turns base window [0..<sessions] g = (Inr trs, g')"
    and ids: "map st_session_id trs = map (\<lambda>i. ''sess-'' @ padded i) [0..<sessions]"
    and all: "\<forall>tr \<in> set trs. 0 \<le> arrival_ms tr \<and> arrival_ms tr \<le> window \<and> 4 \<le> length (turns tr) \<and>
      grows (turns tr) \<and> wf_trace tr"
    using generate_sessions_total [OF assms] by blast
  let ?trs = "sort_key arrival_ms trs"
  have len: "length trs = sessions" using arg_cong [OF ids, of length] by simp
  have "distinct (map st_session_id trs)" unfolding ids by (simp add: distinct_map inj_on_def padded_inj)
  moreover have "mset (map st_session_id ?trs) = mset (map st_session_id trs)" by simp
  ultimately have distinct: "distinct (map st_session_id ?trs)" using mset_eq_imp_distinct_iff by blast
  have "sorted (map arrival_ms ?trs)" by simp
  with gen all len distinct show ?thesis by (auto simp: generate_trace_def)
qed

text \<open>
  C38: Generated traces have the shape the benchmark depends on and can be replayed. For any
  generator within its documented ranges, generation succeeds with the requested number of
  sessions under distinct names, ordered by arrivals inside the window; every session has at
  least four calls, each prompt contains the previous prompt, its output and a tool result, only
  the last call ends without a tool; and both arms of a comparison serve all of it.
\<close>

theorem generated_traces_replay:
  assumes "rng_laws api" and "900 \<le> base" and "0 \<le> window" and c: "wf_cluster_config c"
  shows "\<exists>trs g'. generate_trace api sessions mean_turns base window g = (Inr trs, g') \<and>
    length trs = sessions \<and> distinct (map st_session_id trs) \<and> sorted (map arrival_ms trs) \<and>
    (\<forall>tr \<in> set trs. 0 \<le> arrival_ms tr \<and> arrival_ms tr \<le> window \<and> 4 \<le> length (turns tr) \<and> grows (turns tr)) \<and>
    (\<exists>b t. compare_arms wall1 wall2 trs c = Inr (b, t) \<and>
       length (job_completion_ms (res_stats b)) = sessions \<and> length (job_completion_ms (res_stats t)) = sessions)"
proof -
  obtain trs g' where gen: "generate_trace api sessions mean_turns base window g = (Inr trs, g')"
      "length trs = sessions" "distinct (map st_session_id trs)" "sorted (map arrival_ms trs)"
    and all: "\<forall>tr \<in> set trs. 0 \<le> arrival_ms tr \<and> arrival_ms tr \<le> window \<and> 4 \<le> length (turns tr) \<and>
      grows (turns tr) \<and> wf_trace tr"
    using generate_trace_total [OF assms(1-3)] by blast
  have card: "card (st_session_id ` set trs) = sessions"
    using gen(2) distinct_card [OF gen(3)] by simp
  have wf: "\<forall>tr \<in> set trs. wf_trace tr" using all by simp
  have "\<exists>b t. compare_arms wall1 wall2 trs c = Inr (b, t) \<and>
      length (job_completion_ms (res_stats b)) = sessions \<and> length (job_completion_ms (res_stats t)) = sessions"
    using run_arm_total [OF c wf, of wall1 False "''stock vLLM (round-robin + LRU)''"]
      run_arm_total [OF c wf, of wall2 True "''AgentServe (affinity + adaptive TTL)''"] card
    by (auto simp: compare_arms_def)
  with gen all show ?thesis by auto
qed

definition fixed_rng :: "unit rng" where
  "fixed_rng =
     \<lparr>rng_choices = (\<lambda>xs ws g. (hd xs, g)), rng_lognormvariate = (\<lambda>mu sigma g. (300, g)),
      rng_gauss = (\<lambda>mu sigma g. (mu, g)), rng_randint = (\<lambda>lo hi g. (lo, g)), rng_uniform = (\<lambda>lo hi g. (lo, g))\<rparr>"

lemma generated_traces_replay_witness:
  "\<exists>trs. fst (generate_trace fixed_rng 3 5 4200 240000 ()) = Inr trs \<and> length trs = 3 \<and>
     distinct (map st_session_id trs) \<and>
     (\<exists>b t. compare_arms (\<lambda>n. (0, 0)) (\<lambda>n. (0, 0)) trs default_cluster_config = Inr (b, t) \<and>
        length (job_completion_ms (res_stats b)) = 3)"
proof -
  have "rng_laws fixed_rng" by (simp add: rng_laws_def fixed_rng_def)
  from generated_traces_replay [OF this _ _ wf_default_cluster_config, of 4200 240000 3 5 "()" "\<lambda>n. (0, 0)" "\<lambda>n. (0, 0)"]
  show ?thesis by (auto 4 4)
qed

end
