(* ===== verification/Live_Replay.thy ===== *)
theory Live_Replay
  imports Replay PyJson PyFormat "HOL-Library.Sublist"
begin

section \<open>Live replay: prompts, reports and tables\<close>

text \<open>
  \<open>bench/live_replay.py\<close>, the part that is not network: the prompts it sends, the report over the
  calls it recorded, and the tables it prints. The sessions are in \<open>Live_Sessions\<close>. The replica of a
  call is whatever JSON value the server named, although the class declares it an integer or
  \<open>None\<close>; the report puts those values in a set.
\<close>

record call_record =
  cr_session_id :: string
  cr_turn :: nat
  cr_prompt_tokens :: int
  cr_cached_tokens :: int
  cr_latency_ms :: real
  cr_replica :: json
  cr_ok :: bool

record arm_run =
  ar_label :: string
  ar_calls :: "call_record list"
  ar_session_ms :: "(string, real) dict"
  ar_wall_ms :: real

definition ok_calls :: "arm_run \<Rightarrow> call_record list" where
  "ok_calls run = filter cr_ok (ar_calls run)"

definition mean_or_zero :: "real list \<Rightarrow> real" where
  "mean_or_zero xs = (if xs = [] then 0 else sum_list xs / real (length xs))"

definition distinct_replicas :: "json list \<Rightarrow> py_error + nat" where
  "distinct_replicas rs = set_size (filter (\<lambda>v. v \<noteq> JNull) rs)"

definition report_entries :: "arm_run \<Rightarrow> nat \<Rightarrow> real \<Rightarrow> real \<Rightarrow> real \<Rightarrow> (string, real) dict" where
  "report_entries run touched p50 p95 p95_jct =
     (let calls = ok_calls run;
          reused = sum_list (map cr_cached_tokens calls);
          prompt = sum_list (map cr_prompt_tokens calls)
      in [(''calls'', real (length calls)),
          (''failed'', real (length (ar_calls run)) - real (length calls)),
          (''cache_hit_rate'', real (length (filter (\<lambda>c. 0 < cr_cached_tokens c) calls)) / real (max 1 (length calls))),
          (''token_reuse_rate'', real_of_int reused / real_of_int (max 1 prompt)),
          (''tokens_recomputed'', real_of_int (prompt - reused)),
          (''replicas_touched'', real touched),
          (''p50_latency_ms'', p50),
          (''p95_latency_ms'', p95),
          (''mean_latency_ms'', mean_or_zero (map cr_latency_ms calls)),
          (''p95_jct_ms'', p95_jct),
          (''wall_clock_s'', ar_wall_ms run / 1000)])"

definition pct :: "real list \<Rightarrow> real \<Rightarrow> py_error + real" where
  "pct vs q =
     (if vs = [] then Inr 0
      else let ordered = sort vs
           in py_index ordered (min (int (length ordered) - 1) (py_round (q * real_of_int (int (length ordered) - 1)))))"

lemma pct_is_percentile [simp]: "pct = percentile"
  by (simp add: fun_eq_iff pct_def percentile_def)

definition live_report :: "arm_run \<Rightarrow> py_error + (string, real) dict" where
  "live_report run =
     (let lat = map cr_latency_ms (ok_calls run); jct = dict_values (ar_session_ms run)
      in case distinct_replicas (map cr_replica (ok_calls run)) of Inl e \<Rightarrow> Inl e | Inr touched \<Rightarrow>
        (case pct lat (50 / 100) of Inl e \<Rightarrow> Inl e | Inr p50 \<Rightarrow>
        (case pct lat (95 / 100) of Inl e \<Rightarrow> Inl e | Inr p95 \<Rightarrow>
        (case pct jct (95 / 100) of Inl e \<Rightarrow> Inl e | Inr p95_jct \<Rightarrow>
         Inr (report_entries run touched p50 p95 p95_jct)))))"

subsection \<open>Tables\<close>

definition report_value :: "(string, real) dict \<Rightarrow> string \<Rightarrow> py_error + real" where
  "report_value d key = (case map_of d key of None \<Rightarrow> Inl KeyError | Some v \<Rightarrow> Inr v)"

datatype metric_kind = Rate | Count

definition compare_cell :: "metric_kind \<Rightarrow> real \<Rightarrow> string" where
  "compare_cell kind v = (case kind of Rate \<Rightarrow> fmt_percent 1 v | Count \<Rightarrow> fmt_fixed False True 0 v)"

definition compare_delta :: "metric_kind \<Rightarrow> real \<Rightarrow> real \<Rightarrow> string" where
  \<comment> \<open>the change from the baseline \<open>b\<close> to the treatment \<open>t\<close>\<close>
  "compare_delta kind b t =
     (case kind of
        Rate \<Rightarrow> fmt_fixed True False 1 ((t - b) * 100) @ '' pp''
      | Count \<Rightarrow> if b \<noteq> 0 then fmt_fixed True False 1 ((t / b - 1) * 100) @ ''%'' else ''n/a'')"

definition compare_rows :: "(string \<times> string \<times> metric_kind) list" where
  "compare_rows =
     [(''Cache hit rate'', ''cache_hit_rate'', Rate),
      (''Prompt tokens reused'', ''token_reuse_rate'', Rate),
      (''Tokens prefilled cold'', ''tokens_recomputed'', Count),
      (''Replicas touched'', ''replicas_touched'', Count),
      (''Mean latency (ms)'', ''mean_latency_ms'', Count),
      (''p50 latency (ms)'', ''p50_latency_ms'', Count),
      (''p95 latency (ms)'', ''p95_latency_ms'', Count),
      (''p95 job completion (ms)'', ''p95_jct_ms'', Count),
      (''Failed calls'', ''failed'', Count)]"

fun compare_lines ::
  "(string, real) dict \<Rightarrow> (string, real) dict \<Rightarrow> (string \<times> string \<times> metric_kind) list \<Rightarrow> py_error + string list" where
  "compare_lines b t [] = Inr []"
| "compare_lines b t ((title, key, kind) # rows) =
     (case report_value b key of Inl e \<Rightarrow> Inl e | Inr bv \<Rightarrow>
     (case report_value t key of Inl e \<Rightarrow> Inl e | Inr tv \<Rightarrow>
     (case compare_lines b t rows of Inl e \<Rightarrow> Inl e | Inr ls \<Rightarrow>
      Inr ((ljust 28 title @ rjust 20 (compare_cell kind bv) @ rjust 16 (compare_cell kind tv) @
            rjust 12 (compare_delta kind bv tv)) # ls))))"

definition compare_head :: string where
  "compare_head = ljust 28 ''metric'' @ rjust 20 ''round-robin + LRU'' @ rjust 16 ''AgentServe'' @ rjust 12 ''delta''"

definition compare_table :: "arm_run \<Rightarrow> arm_run \<Rightarrow> py_error + string list" where
  \<comment> \<open>the lines of the table\<close>
  "compare_table baseline treatment =
     (case live_report baseline of Inl e \<Rightarrow> Inl e | Inr b \<Rightarrow>
     (case live_report treatment of Inl e \<Rightarrow> Inl e | Inr t \<Rightarrow>
     (case compare_lines b t compare_rows of Inl e \<Rightarrow> Inl e | Inr ls \<Rightarrow>
     (case report_value b ''calls'' of Inl e \<Rightarrow> Inl e | Inr calls \<Rightarrow>
     (case report_value b ''wall_clock_s'' of Inl e \<Rightarrow> Inl e | Inr bw \<Rightarrow>
     (case report_value t ''wall_clock_s'' of Inl e \<Rightarrow> Inl e | Inr tw \<Rightarrow>
      Inr ([[], compare_head, replicate (length compare_head) (CHR ''-'')] @ ls @
           [[], ''Calls: '' @ fmt_int (py_trunc calls) @ '' per arm.  Wall clock: '' @
            fmt_fixed False False 0 bw @ ''s vs '' @ fmt_fixed False False 0 tw @ ''s.''])))))))"

definition integer_keys :: "string list" where
  "integer_keys = [''calls'', ''failed'', ''tokens_recomputed'', ''replicas_touched'']"

definition report_line :: "string \<times> real \<Rightarrow> string" where
  \<comment> \<open>a line \<open>main\<close> prints; four of the values are integers\<close>
  "report_line = (\<lambda>(k, v).
     ''  '' @ ljust 22 k @ '' '' @
     (if k \<in> set integer_keys then fmt_int (py_trunc v) else fmt_fixed False True 4 v))"

definition report_json :: "(string, real) dict \<Rightarrow> json" where
  "report_json d =
     JDict (map (\<lambda>(k, v). (k, if k \<in> set integer_keys then JInt (py_trunc v) else JFloat (Finite v))) d)"

definition live_main_output :: "string \<Rightarrow> string option \<Rightarrow> arm_run \<Rightarrow> py_error + string list \<times> json option" where
  \<comment> \<open>the lines \<open>main\<close> prints after the replay and the document it writes to \<open>--json-out\<close>\<close>
  "live_main_output title json_out run =
     (case live_report run of Inl e \<Rightarrow> Inl e | Inr d \<Rightarrow>
      let lines = [[], title] @ map report_line d
      in Inr (case named json_out of
                None \<Rightarrow> (lines, None)
              | Some path \<Rightarrow> (lines @ [[], ''wrote '' @ path], Some (report_json d))))"

subsection \<open>Prompts\<close>

fun join_words :: "string list \<Rightarrow> string" where
  "join_words [] = []"
| "join_words [w] = w"
| "join_words (w # v # ws) = w @ CHR '' '' # join_words (v # ws)"

definition newline :: char where
  "newline = char_of (10 :: nat)"

definition prompt_header :: "string \<Rightarrow> string" where
  "prompt_header sid =
     ''SESSION '' @ sid @ [newline] @ ''You are a coding agent working on a repository.'' @ [newline]"

definition build_prompt :: "int \<Rightarrow> string \<Rightarrow> nat \<Rightarrow> string" where
  "build_prompt tokens sid t =
     prompt_header sid @ join_words (map (\<lambda>i. ''tok'' @ py_str_int (int i)) [0..<nat (max 1 (tokens - 40))])"

lemma join_words_append:
  "xs \<noteq> [] \<Longrightarrow> join_words (xs @ ys) = join_words xs @ (if ys = [] then [] else CHR '' '' # join_words ys)"
proof (induction xs rule: join_words.induct)
  case (2 w)
  then show ?case by (cases ys) simp_all
qed simp_all

lemma join_words_prefix: "xs \<noteq> [] \<Longrightarrow> prefix (join_words xs) (join_words (xs @ ys))"
  by (simp add: join_words_append)

lemma build_prompt_grows:
  assumes "tokens \<le> tokens'"
  shows "prefix (build_prompt tokens sid t) (build_prompt tokens' sid t')"
proof -
  let ?w = "\<lambda>i. ''tok'' @ py_str_int (int i)" and ?m = "nat (max 1 (tokens - 40))" and ?n = "nat (max 1 (tokens' - 40))"
  have "?m \<le> ?n" using assms by simp
  then have "[0..<?n] = [0..<?m] @ [?m..<?n]" using upt_add_eq_append [of 0 ?m "?n - ?m"] by simp
  then have "map ?w [0..<?n] = map ?w [0..<?m] @ map ?w [?m..<?n]" by simp
  moreover have "map ?w [0..<?m] \<noteq> []" by simp
  ultimately show ?thesis unfolding build_prompt_def using join_words_prefix by (metis same_prefix_prefix)
qed

lemma until_newline:
  "prefix (a @ newline # x) (b @ newline # y) \<Longrightarrow> newline \<notin> set a \<Longrightarrow> newline \<notin> set b \<Longrightarrow> a = b"
proof (induction a arbitrary: b)
  case Nil
  then show ?case by (cases b) auto
next
  case (Cons c a)
  then show ?case by (cases b) auto
qed

subsection \<open>The report of a run\<close>

lemma percentile_total: "0 \<le> q \<Longrightarrow> q \<le> 1 \<Longrightarrow> \<exists>x. percentile vs q = Inr x"
  using percentile_rank [of vs q] by (cases "vs = []") (auto simp: percentile_def)

lemma percentile_mset: "mset vs = mset ws \<Longrightarrow> percentile vs q = percentile ws q"
proof -
  assume "mset vs = mset ws"
  then have "sort vs = sort ws" "vs = [] \<longleftrightarrow> ws = []"
    by (metis properties_for_sort mset_sort sorted_sort, metis mset_zero_iff)
  then show ?thesis by (simp add: percentile_def Let_def)
qed

lemma distinct_replicas_mset: "mset rs = mset rs' \<Longrightarrow> distinct_replicas rs = distinct_replicas rs'"
proof -
  assume m: "mset rs = mset rs'"
  have f: "mset (filter P rs) = mset (filter P rs')" for P using m by simp
  then have "set (filter P rs) = set (filter P rs')" "length (filter P rs) = length (filter P rs')" for P
    by (metis set_mset_mset, metis size_mset)
  then show ?thesis by (simp add: distinct_replicas_def set_size_def)
qed

definition same_calls :: "arm_run \<Rightarrow> arm_run \<Rightarrow> bool" where
  "same_calls run run' \<longleftrightarrow> mset (ar_calls run) = mset (ar_calls run') \<and>
     mset (dict_values (ar_session_ms run)) = mset (dict_values (ar_session_ms run')) \<and>
     ar_wall_ms run = ar_wall_ms run'"

lemma live_report_cong:
  assumes "same_calls run run'"
  shows "live_report run = live_report run'"
proof -
  have ok: "mset (ok_calls run) = mset (ok_calls run')" and len: "length (ar_calls run) = length (ar_calls run')"
    using assms by (auto simp: same_calls_def ok_calls_def dest: mset_eq_length)
  then have "length (ok_calls run) = length (ok_calls run')"
    "length (filter P (ok_calls run)) = length (filter P (ok_calls run'))" for P
    by (metis size_mset, metis mset_filter size_mset)
  moreover have "distinct_replicas (map cr_replica (ok_calls run)) = distinct_replicas (map cr_replica (ok_calls run'))"
    "percentile (map cr_latency_ms (ok_calls run)) q = percentile (map cr_latency_ms (ok_calls run')) q"
    "percentile (dict_values (ar_session_ms run)) q = percentile (dict_values (ar_session_ms run')) q" for q
    using ok assms by (auto intro!: distinct_replicas_mset percentile_mset simp: same_calls_def)
  moreover have "mean_or_zero (map cr_latency_ms (ok_calls run)) = mean_or_zero (map cr_latency_ms (ok_calls run'))"
    using sum_list_mset_cong [OF ok, of cr_latency_ms] ok
    by (auto simp: mean_or_zero_def dest: mset_eq_length)
  ultimately show ?thesis
    using len sum_list_mset_cong [OF ok, of cr_cached_tokens] sum_list_mset_cong [OF ok, of cr_prompt_tokens] assms
    by (simp add: live_report_def report_entries_def Let_def same_calls_def cong: sum.case_cong)
qed

definition sound_call :: "call_record \<Rightarrow> bool" where
  "sound_call c \<longleftrightarrow> 0 \<le> cr_cached_tokens c \<and> cr_cached_tokens c \<le> cr_prompt_tokens c \<and>
     \<not> unhashable (cr_replica c)"

lemma live_report_entries:
  assumes "\<forall>c \<in> set (ok_calls run). sound_call c"
  obtains touched p50 p95 p95_jct where "live_report run = Inr (report_entries run touched p50 p95 p95_jct)"
    "percentile (map cr_latency_ms (ok_calls run)) (50 / 100) = Inr p50"
    "percentile (map cr_latency_ms (ok_calls run)) (95 / 100) = Inr p95"
proof -
  obtain touched where t: "distinct_replicas (map cr_replica (ok_calls run)) = Inr touched"
    using assms by (auto simp: distinct_replicas_def set_size_def sound_call_def)
  have total: "\<exists>x. percentile vs (50 / 100) = Inr x" "\<exists>x. percentile vs (95 / 100) = Inr x" for vs
    by (rule percentile_total; simp)+
  obtain p50 p95 jct where "percentile (map cr_latency_ms (ok_calls run)) (50 / 100) = Inr p50"
    "percentile (map cr_latency_ms (ok_calls run)) (95 / 100) = Inr p95"
    "percentile (dict_values (ar_session_ms run)) (95 / 100) = Inr jct"
    using total(1) [of "map cr_latency_ms (ok_calls run)"] total(2) [of "map cr_latency_ms (ok_calls run)"]
      total(2) [of "dict_values (ar_session_ms run)"] by blast
  with t that show thesis by (simp add: live_report_def)
qed

lemma percentile_median_le:
  assumes "percentile vs (50 / 100) = Inr x" "percentile vs (95 / 100) = Inr y"
  shows "x \<le> y"
proof (cases "vs = []")
  case True
  with assms show ?thesis by (simp add: percentile_def)
next
  case False
  note rank = percentile_rank [OF False, of "50 / 100"] percentile_rank [OF False, of "95 / 100"]
  have "py_round (50 / 100 * real (length vs - 1)) \<le> py_round (95 / 100 * real (length vs - 1))"
    by (intro py_round_mono) simp
  with rank assms show ?thesis by (auto intro!: sorted_nth_mono simp: nat_mono nat_less_iff)
qed

lemma sum_list_cached:
  "\<forall>c \<in> set cs. sound_call c \<Longrightarrow> 0 \<le> sum_list (map cr_cached_tokens cs) \<and>
     sum_list (map cr_cached_tokens cs) \<le> sum_list (map cr_prompt_tokens cs)"
  by (induction cs) (auto simp: sound_call_def)

lemma report_values_total:
  assumes "key \<in> {''calls'', ''failed'', ''cache_hit_rate'', ''token_reuse_rate'', ''tokens_recomputed'', ''replicas_touched'',
    ''p50_latency_ms'', ''p95_latency_ms'', ''mean_latency_ms'', ''p95_jct_ms'', ''wall_clock_s''}"
  shows "\<exists>x. report_value (report_entries run n p q r) key = Inr x"
proof -
  have "key \<in> set (map fst (report_entries run n p q r))"
    using assms by (auto simp: report_entries_def Let_def)
  then have "map_of (report_entries run n p q r) key \<noteq> None" by (simp add: map_of_eq_None_iff)
  then show ?thesis by (auto simp: report_value_def)
qed

lemma compare_lines_total:
  "(\<And>key. key \<in> set (map (fst \<circ> snd) rows) \<Longrightarrow> (\<exists>x. report_value b key = Inr x) \<and> (\<exists>x. report_value t key = Inr x)) \<Longrightarrow>
     \<exists>ls. compare_lines b t rows = Inr ls \<and> length ls = length rows"
proof (induction rows)
  case (Cons row rows)
  obtain title key kind where row: "row = (title, key, kind)" by (cases row)
  obtain x y where "report_value b key = Inr x" "report_value t key = Inr y" using Cons.prems [of key] row by auto
  moreover obtain ls where "compare_lines b t rows = Inr ls" "length ls = length rows" using Cons by auto
  ultimately show ?case by (simp add: row)
qed simp

lemma compare_table_total:
  assumes "live_report run = Inr (report_entries run n p q r)" "live_report run' = Inr (report_entries run' n' p' q' r')"
  shows "\<exists>ls. compare_table run run' = Inr ls \<and> length ls = 14"
proof -
  let ?b = "report_entries run n p q r" and ?t = "report_entries run' n' p' q' r'"
  have "\<exists>ls. compare_lines ?b ?t compare_rows = Inr ls \<and> length ls = length compare_rows"
    by (rule compare_lines_total) (auto simp: compare_rows_def intro!: report_values_total)
  moreover have "\<exists>x. report_value ?b ''calls'' = Inr x" "\<exists>x. report_value ?b ''wall_clock_s'' = Inr x"
    "\<exists>x. report_value ?t ''wall_clock_s'' = Inr x" by (rule report_values_total; simp)+
  ultimately show ?thesis using assms by (auto simp: compare_table_def compare_rows_def)
qed

subsection \<open>Properties\<close>

text \<open>
  The report of a live run is sound and does not depend on the interleaving. When every
  successful call reports cached tokens between zero and its prompt and a replica that is not a
  list or an object, the report is produced; calls and failures add up to the recorded calls, both
  rates lie between 0 and 1, the median latency is at most the 95th percentile; the same calls
  and completion times recorded in any other order give the same report; and the comparison table
  of two such runs is printed in full.
\<close>

theorem live_report_is_order_independent:
  assumes ok: "\<forall>c \<in> set (ok_calls run). sound_call c" and ok': "\<forall>c \<in> set (ok_calls other). sound_call c"
  shows "\<exists>d calls failed hit reuse p50 p95. live_report run = Inr d \<and>
    (\<forall>run'. same_calls run run' \<longrightarrow> live_report run' = Inr d) \<and>
    map_of d ''calls'' = Some calls \<and> map_of d ''failed'' = Some failed \<and>
    calls + failed = real (length (ar_calls run)) \<and>
    map_of d ''cache_hit_rate'' = Some hit \<and> 0 \<le> hit \<and> hit \<le> 1 \<and>
    map_of d ''token_reuse_rate'' = Some reuse \<and> 0 \<le> reuse \<and> reuse \<le> 1 \<and>
    map_of d ''p50_latency_ms'' = Some p50 \<and> map_of d ''p95_latency_ms'' = Some p95 \<and> p50 \<le> p95 \<and>
    (\<exists>ls. compare_table run other = Inr ls \<and> length ls = 14)"
proof -
  obtain n p50 p95 jct where d: "live_report run = Inr (report_entries run n p50 p95 jct)"
    and p: "percentile (map cr_latency_ms (ok_calls run)) (50 / 100) = Inr p50"
      "percentile (map cr_latency_ms (ok_calls run)) (95 / 100) = Inr p95" by (rule live_report_entries [OF ok])
  obtain n' p50' p95' jct' where d': "live_report other = Inr (report_entries other n' p50' p95' jct')"
    by (rule live_report_entries [OF ok'])
  let ?hits = "real (length (filter (\<lambda>c. 0 < cr_cached_tokens c) (ok_calls run))) / real (max 1 (length (ok_calls run)))"
  let ?reuse = "real_of_int (sum_list (map cr_cached_tokens (ok_calls run))) /
      real_of_int (max 1 (sum_list (map cr_prompt_tokens (ok_calls run))))"
  have "length (filter (\<lambda>c. 0 < cr_cached_tokens c) (ok_calls run)) \<le> max 1 (length (ok_calls run))"
    using length_filter_le [of "\<lambda>c. 0 < cr_cached_tokens c" "ok_calls run"] by linarith
  then have hits: "0 \<le> ?hits" "?hits \<le> 1" by simp_all
  have "sum_list (map cr_cached_tokens (ok_calls run)) \<le> max 1 (sum_list (map cr_prompt_tokens (ok_calls run)))"
    using sum_list_cached [OF ok] by linarith
  then have reuse: "0 \<le> ?reuse" "?reuse \<le> 1"
    using sum_list_cached [OF ok] by (simp_all add: divide_le_eq del: of_int_max)
  note facts = d hits reuse percentile_median_le [OF p] compare_table_total [OF d d']
  have "live_report run' = Inr (report_entries run n p50 p95 jct)" if "same_calls run run'" for run'
    using live_report_cong [OF that] d by simp
  with facts show ?thesis
    by (intro exI [of _ "report_entries run n p50 p95 jct"]) (simp add: report_entries_def Let_def)
qed

lemma live_report_is_order_independent_witness:
  "\<exists>d. live_report \<lparr>ar_label = ''a'', ar_calls = [\<lparr>cr_session_id = ''s'', cr_turn = 0, cr_prompt_tokens = 10,
      cr_cached_tokens = 4, cr_latency_ms = 5, cr_replica = JInt 1, cr_ok = True\<rparr>], ar_session_ms = [(''s'', 6)],
      ar_wall_ms = 9\<rparr> = Inr d \<and> map_of d ''token_reuse_rate'' = Some (4 / 10)"
proof -
  let ?run = "\<lparr>ar_label = ''a'', ar_calls = [\<lparr>cr_session_id = ''s'', cr_turn = 0, cr_prompt_tokens = 10,
      cr_cached_tokens = 4, cr_latency_ms = 5, cr_replica = JInt 1, cr_ok = True\<rparr>], ar_session_ms = [(''s'', 6)],
      ar_wall_ms = 9\<rparr>"
  have "\<forall>c \<in> set (ok_calls ?run). sound_call c" by (simp add: ok_calls_def sound_call_def)
  from live_report_is_order_independent [OF this this] obtain d where "live_report ?run = Inr d" by blast
  moreover from this have "map_of d ''token_reuse_rate'' = Some (4 / 10)"
    by (auto simp: live_report_def report_entries_def Let_def ok_calls_def split: sum.splits)
  ultimately show ?thesis by blast
qed

text \<open>
  The prompts of a session grow by appending, and two sessions never share one. A prompt with
  no fewer tokens extends a shorter one of the same session character by character, whatever the
  turn; and for different session ids, which do not contain a line break, no prompt of one session
  is a prefix of a prompt of the other, so a reported hit can only come from the same session.
\<close>

theorem prompts_extend_within_a_session_only:
  assumes "newline \<notin> set sid" and "newline \<notin> set sid'" and "tokens \<le> tokens'"
  shows "prefix (build_prompt tokens sid t) (build_prompt tokens' sid t') \<and>
    (sid \<noteq> sid' \<longrightarrow> \<not> prefix (build_prompt n sid u) (build_prompt n' sid' u'))"
proof -
  have "sid = sid'" if p: "prefix (build_prompt n sid u) (build_prompt n' sid' u')"
  proof -
    obtain x y where "build_prompt n sid u = ''SESSION '' @ sid @ newline # x"
      "build_prompt n' sid' u' = ''SESSION '' @ sid' @ newline # y"
      by (auto simp: build_prompt_def prompt_header_def)
    with p have "prefix (sid @ newline # x) (sid' @ newline # y)" by simp
    then show ?thesis using assms(1,2) by (rule until_newline)
  qed
  with build_prompt_grows [OF assms(3)] show ?thesis by blast
qed

lemma prompts_extend_within_a_session_only_witness:
  "prefix (build_prompt 50 ''s1'' 0) (build_prompt 80 ''s1'' 1) \<and>
   \<not> prefix (build_prompt 50 ''s1'' 0) (build_prompt 80 ''s2'' 0)"
proof -
  have "newline \<notin> set ''s1''" "newline \<notin> set ''s2''" by (simp_all add: newline_def char_of_def)
  from prompts_extend_within_a_session_only [OF this, of 50 80 0 1 50 0 80 0] show ?thesis by simp
qed

end
