(* ===== verification/Live_Sessions.thy ===== *)
theory Live_Sessions
  imports Live_Replay Traces Vllm
begin

section \<open>Live replay: the sessions\<close>

text \<open>
  \<open>run_session\<close> and \<open>replay\<close> of \<open>bench/live_replay.py\<close>. The HTTP client is library code: one
  \<open>post\<close> with its headers, over the client's own state. The sessions run concurrently under a
  semaphore, so a replay is a transition system: a step starts a session for which the semaphore
  has room, sends the request of a session's turn, appends the record of a turn when its answer
  is in, or ends a session; any number of requests may be between the two. Stopwatch readings are chosen freely by the steps. A turn that names
  a tool divides by the speedup, and a speedup of 0 is the one exception that leaves a session.
\<close>

record 'h live_client =
  live_post :: "string \<Rightarrow> json \<Rightarrow> (string, string) dict \<Rightarrow> 'h \<Rightarrow> (py_error + http_response) \<times> 'h"

subsection \<open>One turn\<close>

definition turn_payload :: "string \<Rightarrow> turn \<Rightarrow> json" where
  "turn_payload prompt tn = JDict
     [(''messages'', JList [JDict [(''role'', JStr ''user''), (''content'', JStr prompt)]]),
      (''max_tokens'', JInt (min (output_tokens tn) 64))]"

definition turn_headers :: "(string, string) dict \<Rightarrow> string \<Rightarrow> turn \<Rightarrow> (string, string) dict" where
  "turn_headers headers sid tn =
     (let named_session = AList.update ''X-Session-Id'' sid headers
      in case named (tool_name tn) of
           None \<Rightarrow> named_session
         | Some tool \<Rightarrow> AList.update ''X-Tool-Name'' tool named_session)"

definition auth_headers :: "string option \<Rightarrow> (string, string) dict" where
  "auth_headers key =
     (case key of
        None \<Rightarrow> []
      | Some k \<Rightarrow> if k = [] then [] else [(''Authorization'', ''Bearer '' @ k)])"

definition read_record :: "string \<Rightarrow> nat \<Rightarrow> json \<Rightarrow> real \<Rightarrow> py_error + call_record" where
  \<comment> \<open>the record made from the body of a successful answer\<close>
  "read_record sid k body latency =
     (case json_get body ''usage'' (JDict []) of Inl e \<Rightarrow> Inl e | Inr usage \<Rightarrow>
     (case json_get usage ''prompt_tokens_details'' JNull of Inl e \<Rightarrow> Inl e | Inr d \<Rightarrow>
     (case json_get usage ''prompt_tokens'' (JInt 0) of Inl e \<Rightarrow> Inl e | Inr p \<Rightarrow>
     (case json_int p of Inl e \<Rightarrow> Inl e | Inr prompt \<Rightarrow>
     (case int_field (json_or d (JDict [])) ''cached_tokens'' 0 of Inl e \<Rightarrow> Inl e | Inr cached \<Rightarrow>
     (case json_get body ''agentserve'' JNull of Inl e \<Rightarrow> Inl e | Inr a \<Rightarrow>
     (case json_get (json_or a (JDict [])) ''replica'' JNull of Inl e \<Rightarrow> Inl e | Inr rep \<Rightarrow>
      Inr \<lparr>cr_session_id = sid, cr_turn = k, cr_prompt_tokens = prompt, cr_cached_tokens = cached,
           cr_latency_ms = latency, cr_replica = rep, cr_ok = True\<rparr>)))))))"

definition failed_record :: "string \<Rightarrow> nat \<Rightarrow> real \<Rightarrow> call_record" where
  "failed_record sid k latency =
     \<lparr>cr_session_id = sid, cr_turn = k, cr_prompt_tokens = 0, cr_cached_tokens = 0,
      cr_latency_ms = latency, cr_replica = JNull, cr_ok = False\<rparr>"

definition live_turn ::
  "'h live_client \<Rightarrow> string \<Rightarrow> (string, string) dict \<Rightarrow> string \<Rightarrow> nat \<Rightarrow> turn \<Rightarrow> real \<Rightarrow> 'h \<Rightarrow> call_record \<times> 'h" where
  \<comment> \<open>the body of the loop of \<open>run_session\<close>, up to the sleep\<close>
  "live_turn api url headers sid k tn latency h =
     (case live_post api url (turn_payload (build_prompt (prompt_tokens tn) sid k) tn) (turn_headers headers sid tn) h of
        (Inl e, h') \<Rightarrow> (failed_record sid k latency, h')
      | (Inr resp, h') \<Rightarrow>
          (if \<not> resp_ok resp then failed_record sid k latency
           else case resp_json resp of
                  Inl e \<Rightarrow> failed_record sid k latency
                | Inr body \<Rightarrow>
                    (case read_record sid k body latency of
                       Inl e \<Rightarrow> failed_record sid k latency
                     | Inr rec \<Rightarrow> rec),
           h'))"

definition sleep_fails :: "real \<Rightarrow> turn \<Rightarrow> bool" where
  \<comment> \<open>\<open>turn.tool_duration_ms / 1000.0 / speedup\<close> raises\<close>
  "sleep_fails speedup tn \<longleftrightarrow> named (tool_name tn) \<noteq> None \<and> speedup = 0"

subsection \<open>All sessions\<close>

datatype live_phase = Waiting | Active nat | Sent nat call_record | Ended real | Crashed

record 'h live_state =
  lv_phases :: "live_phase list"
  lv_calls :: "call_record list"
  lv_http :: 'h

fun is_active :: "live_phase \<Rightarrow> bool" where
  "is_active (Active k) = True"
| "is_active (Sent k rec) = True"
| "is_active _ = False"

definition active_sessions :: "'h live_state \<Rightarrow> nat" where
  "active_sessions st = length (filter is_active (lv_phases st))"

definition live_start :: "session_trace list \<Rightarrow> 'h \<Rightarrow> 'h live_state" where
  "live_start traces h = \<lparr>lv_phases = replicate (length traces) Waiting, lv_calls = [], lv_http = h\<rparr>"

definition set_phase :: "nat \<Rightarrow> live_phase \<Rightarrow> 'h live_state \<Rightarrow> 'h live_state" where
  "set_phase i ph st = st\<lparr>lv_phases := (lv_phases st)[i := ph]\<rparr>"

inductive live_step ::
  "'h live_client \<Rightarrow> string \<Rightarrow> (string, string) dict \<Rightarrow> nat \<Rightarrow> real \<Rightarrow> session_trace list \<Rightarrow> 'h live_state \<Rightarrow> 'h live_state \<Rightarrow> bool"
  for api url headers concurrency speedup traces
where
  acquire: "live_step api url headers concurrency speedup traces st (set_phase i (Active 0) st)"
    if "i < length traces" "lv_phases st ! i = Waiting" "active_sessions st < concurrency"
| send: "live_step api url headers concurrency speedup traces st (set_phase i (Sent k rec) (st\<lparr>lv_http := h\<rparr>))"
    if "i < length traces" "lv_phases st ! i = Active k" "k < length (turns (traces ! i))"
      "live_turn api url headers (st_session_id (traces ! i)) k (turns (traces ! i) ! k) latency (lv_http st) = (rec, h)"
| answer: "live_step api url headers concurrency speedup traces st
      (set_phase i (if sleep_fails speedup (turns (traces ! i) ! k) then Crashed else Active (Suc k))
        (st\<lparr>lv_calls := lv_calls st @ [rec]\<rparr>))"
    if "i < length traces" "lv_phases st ! i = Sent k rec"
| release: "live_step api url headers concurrency speedup traces st (set_phase i (Ended ms) st)"
    if "i < length traces" "lv_phases st ! i = Active k" "length (turns (traces ! i)) \<le> k"

inductive live_reachable ::
  "'h live_client \<Rightarrow> string \<Rightarrow> (string, string) dict \<Rightarrow> nat \<Rightarrow> real \<Rightarrow> session_trace list \<Rightarrow> 'h \<Rightarrow> 'h live_state \<Rightarrow> bool"
  for api url headers concurrency speedup traces h0
where
  start: "live_reachable api url headers concurrency speedup traces h0 (live_start traces h0)"
| step: "live_reachable api url headers concurrency speedup traces h0 st'"
    if "live_reachable api url headers concurrency speedup traces h0 st"
      "live_step api url headers concurrency speedup traces st st'"

fun session_results :: "session_trace list \<Rightarrow> live_phase list \<Rightarrow> (string, real) dict \<Rightarrow> (string, real) dict option" where
  \<comment> \<open>\<open>dict(results)\<close>, when every session has ended\<close>
  "session_results (tr # trs) (Ended ms # phs) d = session_results trs phs (AList.update (st_session_id tr) ms d)"
| "session_results [] [] d = Some d"
| "session_results _ _ d = None"

definition live_result :: "string \<Rightarrow> real \<Rightarrow> session_trace list \<Rightarrow> 'h live_state \<Rightarrow> arm_run option" where
  "live_result title wall traces st =
     (case session_results traces (lv_phases st) [] of
        None \<Rightarrow> None
      | Some d \<Rightarrow> Some \<lparr>ar_label = title, ar_calls = lv_calls st, ar_session_ms = d, ar_wall_ms = wall\<rparr>)"

subsection \<open>The command line\<close>

record live_args =
  la_url :: string
  la_sessions :: int
  la_turns :: int
  la_concurrency :: int
  la_prompt_tokens :: int
  la_speedup :: real
  la_seed :: int
  la_api_key :: "string option"
  la_timeout :: real
  la_label :: string
  la_json_out :: "string option"

definition default_live_args :: live_args where
  "default_live_args =
     \<lparr>la_url = ''http://localhost:8000/v1/chat/completions'', la_sessions = 24, la_turns = 10, la_concurrency = 8,
      la_prompt_tokens = 1200, la_speedup = 20, la_seed = 7, la_api_key = None, la_timeout = 120,
      la_label = ''AgentServe'', la_json_out = None\<rparr>"

definition live_main ::
  "'g rng \<Rightarrow> (int \<Rightarrow> 'g) \<Rightarrow> (live_args \<Rightarrow> session_trace list \<Rightarrow> py_error + arm_run) \<Rightarrow> live_args
   \<Rightarrow> py_error + string list \<times> json option" where
  \<comment> \<open>the third argument is the run of \<open>replay\<close>, one of those \<open>live_result\<close> describes\<close>
  "live_main rng seeded run_replay args =
     (case fst (generate_trace rng (nat (la_sessions args)) (la_turns args) (la_prompt_tokens args) 1
             (seeded (la_seed args))) of
        Inl e \<Rightarrow> Inl e
      | Inr traces \<Rightarrow>
          (case run_replay args traces of Inl e \<Rightarrow> Inl e | Inr run \<Rightarrow>
           live_main_output (la_label args) (la_json_out args) run))"

inductive_cases live_step_cases: "live_step api url headers concurrency speedup traces st st'"

subsection \<open>Progress\<close>

fun turns_done :: "session_trace \<Rightarrow> live_phase \<Rightarrow> nat" where
  "turns_done tr Waiting = 0"
| "turns_done tr (Active k) = k"
| "turns_done tr (Sent k rec) = k"
| "turns_done tr (Ended ms) = length (turns tr)"
| "turns_done tr Crashed = 0"

fun phase_work :: "session_trace \<Rightarrow> live_phase \<Rightarrow> nat" where
  "phase_work tr Waiting = 2 * length (turns tr) + 2"
| "phase_work tr (Active k) = 2 * (length (turns tr) - k) + 1"
| "phase_work tr (Sent k rec) = 2 * (length (turns tr) - k)"
| "phase_work tr (Ended ms) = 0"
| "phase_work tr Crashed = 0"

definition live_work :: "session_trace list \<Rightarrow> 'h live_state \<Rightarrow> nat" where
  "live_work traces st = sum_list (map2 phase_work traces (lv_phases st))"

lemma set_phase_simps [simp]:
  "lv_phases (set_phase i ph st) = (lv_phases st)[i := ph]" "lv_calls (set_phase i ph st) = lv_calls st"
  "lv_http (set_phase i ph st) = lv_http st"
  by (simp_all add: set_phase_def)

lemma sum_map2_update:
  "i < length xs \<Longrightarrow> length ys = length xs \<Longrightarrow>
     sum_list (map2 f xs (ys[i := y])) + f (xs ! i) (ys ! i) = sum_list (map2 f xs ys) + (f (xs ! i) y :: nat)"
proof (induction xs arbitrary: ys i)
  case (Cons x xs)
  then obtain z zs where ys: "ys = z # zs" by (cases ys) auto
  with Cons show ?case by (cases i) auto
qed simp

lemma live_step_length:
  "live_step api url headers concurrency speedup traces st st' \<Longrightarrow> length (lv_phases st') = length (lv_phases st)"
  by (erule live_step_cases) simp_all

lemma live_step_work:
  assumes "live_step api url headers concurrency speedup traces st st'" "length (lv_phases st) = length traces"
    and sent: "\<And>i k rec. i < length traces \<Longrightarrow> lv_phases st ! i = Sent k rec \<Longrightarrow> k < length (turns (traces ! i))"
  shows "live_work traces st' < live_work traces st"
  using assms(1)
proof cases
  case (acquire i)
  with sum_map2_update [of i traces "lv_phases st" phase_work "Active 0"] assms(2)
  show ?thesis by (simp add: live_work_def)
next
  case (send i k latency rec h)
  with sum_map2_update [of i traces "lv_phases st" phase_work "Sent k rec"] assms(2)
  show ?thesis by (simp add: live_work_def)
next
  case (answer i k rec)
  with sent [OF answer(2,3)] assms(2)
    sum_map2_update [of i traces "lv_phases st" phase_work
      "if sleep_fails speedup (turns (traces ! i) ! k) then Crashed else Active (Suc k)"]
  show ?thesis by (simp add: live_work_def split: if_splits)
next
  case (release i k ms)
  with sum_map2_update [of i traces "lv_phases st" phase_work "Ended ms"] assms(2)
  show ?thesis by (simp add: live_work_def)
qed

definition settled :: "live_phase \<Rightarrow> bool" where
  "settled ph \<longleftrightarrow> (case ph of Ended ms \<Rightarrow> True | Crashed \<Rightarrow> True | _ \<Rightarrow> False)"

lemma live_progress:
  assumes len: "length (lv_phases st) = length traces" and c: "0 < concurrency"
    and i: "i < length traces" "\<not> settled (lv_phases st ! i)"
  shows "\<exists>st'. live_step api url headers concurrency speedup traces st st'"
proof (cases "\<exists>j < length traces. is_active (lv_phases st ! j)")
  case True
  then obtain j where j: "j < length traces" "is_active (lv_phases st ! j)" by blast
  show ?thesis
  proof (cases "lv_phases st ! j")
    case (Active k)
    show ?thesis
    proof (cases "k < length (turns (traces ! j))")
      case True
      obtain rec h where "live_turn api url headers (st_session_id (traces ! j)) k (turns (traces ! j) ! k) 0 (lv_http st) = (rec, h)"
        by fastforce
      from live_step.send [OF j(1) Active True this] show ?thesis by blast
    next
      case False
      with live_step.release [OF j(1) Active] show ?thesis by (meson leI)
    qed
  next
    case (Sent k rec)
    from live_step.answer [OF j(1) this] show ?thesis by blast
  qed (use j in simp_all)
next
  case False
  then have "filter is_active (lv_phases st) = []"
    using len by (auto simp: filter_empty_conv in_set_conv_nth)
  then have "active_sessions st < concurrency" using c by (simp add: active_sessions_def)
  moreover have "lv_phases st ! i = Waiting"
    using i False by (cases "lv_phases st ! i") (auto simp: settled_def)
  ultimately show ?thesis using live_step.acquire i(1) by blast
qed

subsection \<open>What has been recorded\<close>

lemma live_turn_names:
  assumes "live_turn api url headers sid k tn latency h = (rec, h')"
  shows "cr_session_id rec = sid" "cr_turn rec = k"
  using assms
  by (auto simp: live_turn_def failed_record_def read_record_def split: prod.splits sum.splits if_splits)

definition recorded :: "string \<Rightarrow> 'h live_state \<Rightarrow> nat list" where
  \<comment> \<open>the turns of a session in the order their records were appended\<close>
  "recorded sid st = map cr_turn (filter (\<lambda>c. cr_session_id c = sid) (lv_calls st))"

definition live_ok :: "nat \<Rightarrow> session_trace list \<Rightarrow> 'h live_state \<Rightarrow> bool" where
  "live_ok concurrency traces st \<longleftrightarrow>
     length (lv_phases st) = length traces \<and> active_sessions st \<le> concurrency \<and>
     length (lv_calls st) = sum_list (map2 turns_done traces (lv_phases st)) \<and>
     (\<forall>i < length traces. lv_phases st ! i \<noteq> Crashed \<and>
        (\<forall>k rec. lv_phases st ! i = Sent k rec \<longrightarrow> k < length (turns (traces ! i)) \<and>
           cr_session_id rec = st_session_id (traces ! i) \<and> cr_turn rec = k) \<and>
        turns_done (traces ! i) (lv_phases st ! i) \<le> length (turns (traces ! i)) \<and>
        recorded (st_session_id (traces ! i)) st = [0..<turns_done (traces ! i) (lv_phases st ! i)])"

lemma active_update:
  "i < length xs \<Longrightarrow> length (filter P (xs[i := x])) + (if P (xs ! i) then 1 else 0) =
     length (filter P xs) + (if P x then 1 else 0)"
proof (induction xs arbitrary: i)
  case (Cons y ys)
  then show ?case by (cases i) auto
qed simp

lemma live_ok_start: "live_ok concurrency traces (live_start traces h)"
proof -
  have "map2 turns_done traces (replicate (length traces) Waiting) = replicate (length traces) 0"
    by (induction traces) simp_all
  then show ?thesis
    by (simp add: live_ok_def live_start_def active_sessions_def recorded_def sum_list_replicate)
qed

lemma live_ok_step:
  assumes step: "live_step api url headers concurrency speedup traces st st'"
    and ok: "live_ok concurrency traces st"
    and ids: "distinct (map st_session_id traces)" and speed: "speedup \<noteq> 0"
  shows "live_ok concurrency traces st'"
  using step
proof cases
  case (acquire i)
  with ok sum_map2_update [of i traces "lv_phases st" turns_done "Active 0"]
    active_update [of i "lv_phases st" is_active "Active 0"]
  show ?thesis by (auto simp: live_ok_def active_sessions_def recorded_def nth_list_update)
next
  case (send i k latency rec h)
  with ok live_turn_names [OF send(5)] sum_map2_update [of i traces "lv_phases st" turns_done "Sent k rec"]
    active_update [of i "lv_phases st" is_active "Sent k rec"]
  show ?thesis by (auto simp: live_ok_def active_sessions_def recorded_def nth_list_update)
next
  case (answer i k rec)
  have rec: "cr_session_id rec = st_session_id (traces ! i)" "cr_turn rec = k" "k < length (turns (traces ! i))"
    using ok answer(2,3) unfolding live_ok_def by blast+
  have other: "cr_session_id rec = st_session_id (traces ! j) \<longleftrightarrow> j = i" if "j < length traces" for j
    using ids that answer(2) rec(1) by (metis distinct_conv_nth length_map nth_map)
  from answer(1) speed have st': "st' = set_phase i (Active (Suc k)) (st\<lparr>lv_calls := lv_calls st @ [rec]\<rparr>)"
    by (simp add: sleep_fails_def)
  with ok answer(2,3) rec other sum_map2_update [of i traces "lv_phases st" turns_done "Active (Suc k)"]
    active_update [of i "lv_phases st" is_active "Active (Suc k)"]
  show ?thesis by (auto simp: live_ok_def active_sessions_def recorded_def nth_list_update)
next
  case (release i k ms)
  with ok have "k = length (turns (traces ! i))" by (fastforce simp: live_ok_def)
  with release ok sum_map2_update [of i traces "lv_phases st" turns_done "Ended ms"]
    active_update [of i "lv_phases st" is_active "Ended ms"]
  show ?thesis by (auto simp: live_ok_def active_sessions_def recorded_def nth_list_update)
qed

lemma live_ok_reachable:
  assumes "live_reachable api url headers concurrency speedup traces h0 st"
    and "distinct (map st_session_id traces)" "speedup \<noteq> 0"
  shows "live_ok concurrency traces st"
  using assms(1)
proof (induction rule: live_reachable.induct)
  case start
  show ?case by (rule live_ok_start)
next
  case (step st st')
  with live_ok_step assms(2,3) show ?case by blast
qed

lemma session_results_ended:
  "length phs = length trs \<Longrightarrow> (\<And>i. i < length trs \<Longrightarrow> \<exists>ms. phs ! i = Ended ms) \<Longrightarrow>
     \<exists>d'. session_results trs phs d = Some d' \<and>
       set (dict_keys d') = set (dict_keys d) \<union> st_session_id ` set trs"
proof (induction trs arbitrary: phs d)
  case Nil
  then show ?case by simp
next
  case (Cons tr trs)
  then obtain ph phs' where phs: "phs = ph # phs'" by (cases phs) auto
  obtain ms where "ph = Ended ms" using Cons.prems(2) [of 0] phs by auto
  moreover have "\<exists>ms. phs' ! i = Ended ms" if "i < length trs" for i
    using Cons.prems(2) [of "Suc i"] that phs by simp
  with Cons.IH [of phs' "AList.update (st_session_id tr) ms d"] Cons.prems(1) phs
  obtain d' where "session_results trs phs' (AList.update (st_session_id tr) ms d) = Some d'"
    "set (dict_keys d') = set (dict_keys (AList.update (st_session_id tr) ms d)) \<union> st_session_id ` set trs" by auto
  ultimately show ?case by (auto simp: phs keys_update simp del: set_map)
qed

lemma settled_complete:
  assumes ok: "live_ok concurrency traces st"
    and settled: "\<And>i. i < length traces \<Longrightarrow> settled (lv_phases st ! i)"
  shows "\<exists>run. live_result title wall traces st = Some run \<and> length (ar_calls run) = total_turns traces \<and>
    set (dict_keys (ar_session_ms run)) = st_session_id ` set traces \<and>
    (\<forall>i < length traces. map cr_turn (filter (\<lambda>c. cr_session_id c = st_session_id (traces ! i)) (ar_calls run)) =
       [0..<length (turns (traces ! i))])"
proof -
  have ended: "\<exists>ms. lv_phases st ! i = Ended ms" if "i < length traces" for i
    using settled [OF that] ok that by (auto simp: settled_def live_ok_def split: live_phase.splits)
  have len: "length (lv_phases st) = length traces" using ok by (simp add: live_ok_def)
  obtain d where d: "session_results traces (lv_phases st) [] = Some d"
    "set (dict_keys d) = st_session_id ` set traces"
    using session_results_ended [OF len ended, of "[]"] by auto
  have "map2 turns_done traces (lv_phases st) = map (\<lambda>tr. length (turns tr)) traces"
    using len ended by (intro nth_equalityI) force+
  then have "length (lv_calls st) = total_turns traces"
    using ok by (simp add: live_ok_def total_turns_def)
  moreover have "recorded (st_session_id (traces ! i)) st = [0..<length (turns (traces ! i))]" if "i < length traces" for i
    using ok ended [OF that] that by (auto simp: live_ok_def)
  ultimately show ?thesis using d by (auto simp: live_result_def recorded_def simp del: set_map)
qed

subsection \<open>Properties\<close>

text \<open>
  C9: A live replay finishes, and records every turn once. With room for at least one session in
  the semaphore, a speedup that is not zero and distinct session ids, whatever the client answers
  or raises and however the sessions interleave: never more sessions than the limit are active;
  every step makes progress towards the end; and when no step is left the run has its result,
  with one record per turn of every trace, each session's in the order of its turns, and one
  completion time per session.
\<close>

theorem live_replay_records_every_turn:
  assumes reach: "live_reachable api url headers concurrency speedup traces h0 st"
    and "0 < concurrency" "speedup \<noteq> 0" "distinct (map st_session_id traces)"
  shows "active_sessions st \<le> concurrency \<and>
    (\<forall>st'. live_step api url headers concurrency speedup traces st st' \<longrightarrow> live_work traces st' < live_work traces st) \<and>
    ((\<nexists>st'. live_step api url headers concurrency speedup traces st st') \<longrightarrow>
      (\<exists>run. live_result title wall traces st = Some run \<and> length (ar_calls run) = total_turns traces \<and>
        set (dict_keys (ar_session_ms run)) = st_session_id ` set traces \<and>
        (\<forall>i < length traces. map cr_turn (filter (\<lambda>c. cr_session_id c = st_session_id (traces ! i)) (ar_calls run)) =
           [0..<length (turns (traces ! i))])))"
proof -
  have ok: "live_ok concurrency traces st" using live_ok_reachable [OF reach] assms(3,4) by blast
  then have len: "length (lv_phases st) = length traces" and "active_sessions st \<le> concurrency"
    by (simp_all add: live_ok_def)
  moreover have "live_work traces st' < live_work traces st"
    if "live_step api url headers concurrency speedup traces st st'" for st'
    using live_step_work [OF that len] ok unfolding live_ok_def by blast
  moreover have "settled (lv_phases st ! i)"
    if "\<nexists>st'. live_step api url headers concurrency speedup traces st st'" "i < length traces" for i
    using live_progress [OF len assms(2) that(2)] that(1) by blast
  ultimately show ?thesis
    using settled_complete [OF ok] by blast
qed

definition failing_client :: "unit live_client" where
  "failing_client = \<lparr>live_post = (\<lambda>url body headers h. (Inl RuntimeError, h))\<rparr>"

lemma live_replay_records_every_turn_witness:
  "\<exists>run. live_result ''control'' 9 [\<lparr>st_session_id = ''s'', arrival_ms = 0, turns = [\<lparr>prompt_tokens = 50, output_tokens = 9,
      tool_name = None, tool_duration_ms = 0\<rparr>]\<rparr>] \<lparr>lv_phases = [Ended 4], lv_calls = [failed_record ''s'' 0 3], lv_http = ()\<rparr> =
      Some run \<and> length (ar_calls run) = 1"
proof -
  let ?tn = "\<lparr>prompt_tokens = 50, output_tokens = 9, tool_name = None, tool_duration_ms = 0\<rparr>"
  let ?trs = "[\<lparr>st_session_id = ''s'', arrival_ms = 0, turns = [?tn]\<rparr>]"
  let ?step = "live_step failing_client ''u'' [] 1 20 ?trs"
  let ?st = "\<lambda>phs cs. \<lparr>lv_phases = phs, lv_calls = cs, lv_http = ()\<rparr>"
  let ?rec = "failed_record ''s'' 0 3"
  have "?step (?st [Waiting] []) (?st [Active 0] [])"
    using live_step.acquire [of 0 ?trs "?st [Waiting] []" 1 failing_client "''u''" "[]" 20]
    by (simp add: set_phase_def active_sessions_def)
  moreover have "?step (?st [Active 0] []) (?st [Sent 0 ?rec] [])"
    using live_step.send [of 0 ?trs "?st [Active 0] []" 0 failing_client "''u''" "[]" 3 ?rec "()" 1 20]
    by (simp add: set_phase_def live_turn_def failing_client_def)
  moreover have "?step (?st [Sent 0 ?rec] []) (?st [Active 1] [?rec])"
    using live_step.answer [of 0 ?trs "?st [Sent 0 ?rec] []" 0 ?rec failing_client "''u''" "[]" 1 20]
    by (simp add: set_phase_def sleep_fails_def named_def)
  moreover have "?step (?st [Active 1] [?rec]) (?st [Ended 4] [?rec])"
    using live_step.release [of 0 ?trs "?st [Active 1] [?rec]" 1 failing_client "''u''" "[]" 1 20 4]
    by (simp add: set_phase_def)
  moreover have "live_reachable failing_client ''u'' [] 1 20 ?trs () (?st [Waiting] [])"
    using live_reachable.start [of failing_client "''u''" "[]" 1 20 ?trs "()"] by (simp add: live_start_def)
  ultimately have r: "live_reachable failing_client ''u'' [] 1 20 ?trs () (?st [Ended 4] [?rec])"
    by (meson live_reachable.step)
  have "\<not> ?step (?st [Ended 4] [?rec]) st'" for st'
    by (auto elim!: live_step_cases)
  with live_replay_records_every_turn [OF r, of "''control''" 9] show ?thesis
    by (auto simp: total_turns_def)
qed

end
