(* ===== verification/Mock_Worker.thy ===== *)
theory Mock_Worker
  imports Vllm "HOL-Library.Sublist"
begin

section \<open>The mock worker\<close>

text \<open>
  \<open>scripts/mock_vllm.py\<close>, the worker the integration check runs the gateway against: an
  OpenAI-compatible endpoint with a real prefix cache, a dictionary from whole prompts to their
  token counts. A worker answers a request or raises (status 500). \<open>mock_cluster\<close> is the HTTP
  client of a gateway whose workers are such mocks: a POST to an endpoint's chat URL reaches that
  worker, and any other URL fails to connect. Serialising the chunks of a stream is library code,
  the argument \<open>dumps\<close>.
\<close>

type_synonym prefix_cache = "(string, int) dict"

definition mock_tokens :: "string \<Rightarrow> int" where
  "mock_tokens t = max 1 (int (length t div 4))"

fun longest_cached :: "string \<Rightarrow> prefix_cache \<Rightarrow> int \<Rightarrow> int" where
  \<comment> \<open>the loop of \<open>account\<close> with the best value so far\<close>
  "longest_cached t [] best = best"
| "longest_cached t ((k, v) # cache) best = longest_cached t cache (if prefix k t then max best v else best)"

definition account :: "string \<Rightarrow> prefix_cache \<Rightarrow> (int \<times> int) \<times> prefix_cache" where
  "account t cache = ((mock_tokens t, longest_cached t cache 0), AList.update t (mock_tokens t) cache)"

fun get_contents :: "json list \<Rightarrow> py_error + json list" where
  "get_contents [] = Inr []"
| "get_contents (m # ms) =
     (case json_get m ''content'' (JStr []) of Inl e \<Rightarrow> Inl e | Inr v \<Rightarrow>
     (case get_contents ms of Inl e \<Rightarrow> Inl e | Inr vs \<Rightarrow> Inr (v # vs)))"

definition iterate :: "json \<Rightarrow> py_error + json list" where
  \<comment> \<open>what \<open>for m in x\<close> goes through\<close>
  "iterate x =
     (case x of
        JList xs \<Rightarrow> Inr xs
      | JStr s \<Rightarrow> Inr (map (\<lambda>c. JStr [c]) s)
      | JDict d \<Rightarrow> Inr (map (JStr \<circ> fst) d)
      | _ \<Rightarrow> Inl TypeError)"

definition mock_text :: "json \<Rightarrow> py_error + string" where
  "mock_text body =
     (case body of
        JDict d \<Rightarrow>
          (case map_of d ''messages'' of
             None \<Rightarrow> Inl KeyError
           | Some ms \<Rightarrow>
               (case iterate ms of Inl e \<Rightarrow> Inl e | Inr xs \<Rightarrow>
               (case get_contents xs of Inl e \<Rightarrow> Inl e | Inr vs \<Rightarrow> join_text vs)))
      | _ \<Rightarrow> Inl TypeError)"

definition mock_usage :: "int \<Rightarrow> int \<Rightarrow> json" where
  "mock_usage prompt cached = JDict
     [(''prompt_tokens'', JInt prompt), (''completion_tokens'', JInt 5),
      (''prompt_tokens_details'', JDict [(''cached_tokens'', JInt cached)])]"

definition whole_answer :: "json \<Rightarrow> json" where
  "whole_answer usage = JDict
     [(''choices'', JList [JDict [(''message'',
        JDict [(''role'', JStr ''assistant''), (''content'', JStr ''fixed the bug'')])]]),
      (''usage'', usage)]"

datatype mock_answer = Whole json | Chunks "json list"

definition mock_chunks :: "json \<Rightarrow> json list" where
  \<comment> \<open>\<open>gen\<close>, before the end marker\<close>
  "mock_chunks usage =
     map (\<lambda>w. JDict [(''choices'', JList [JDict [(''delta'', JDict [(''content'', JStr w)])]])])
       [''fix'', ''ed '', ''the '', ''bug''] @
     [JDict [(''choices'', JList []), (''usage'', usage)]]"

definition mock_chat :: "json \<Rightarrow> prefix_cache \<Rightarrow> (py_error + mock_answer) \<times> prefix_cache" where
  "mock_chat body cache =
     (case mock_text body of
        Inl e \<Rightarrow> (Inl e, cache)
      | Inr t \<Rightarrow>
          (let ((prompt, cached), cache') = account t cache;
               usage = mock_usage prompt cached
           in (case json_get body ''stream'' JNull of
                 Inl e \<Rightarrow> Inl e
               | Inr st \<Rightarrow>
                   Inr (if json_truth st then Chunks (mock_chunks usage)
                        else Whole (whole_answer usage)), cache')))"

definition mock_lines :: "(json \<Rightarrow> string) \<Rightarrow> json list \<Rightarrow> string list" where
  \<comment> \<open>the lines of the event stream, as the client reads them\<close>
  "mock_lines dumps chunks = concat (map (\<lambda>ch. [''data: '' @ dumps ch, []]) chunks) @ [''data: [DONE]'', []]"

type_synonym mock_cluster = "(string, prefix_cache) dict"

definition mock_post :: "string \<Rightarrow> json \<Rightarrow> mock_cluster \<Rightarrow> (py_error + http_response) \<times> mock_cluster" where
  "mock_post url body ws =
     (case List.find (\<lambda>(e, cache). url = e @ ''/v1/chat/completions'') ws of
        None \<Rightarrow> (Inl RuntimeError, ws)
      | Some (e, cache) \<Rightarrow>
          (case mock_chat body cache of
             (Inl err, cache') \<Rightarrow> (Inr \<lparr>resp_ok = False, resp_json = Inl ValueError\<rparr>, AList.update e cache' ws)
           | (Inr (Whole j), cache') \<Rightarrow> (Inr \<lparr>resp_ok = True, resp_json = Inr j\<rparr>, AList.update e cache' ws)
           | (Inr (Chunks js), cache') \<Rightarrow>
               (Inr \<lparr>resp_ok = True, resp_json = Inl ValueError\<rparr>, AList.update e cache' ws)))"

definition mock_stream ::
  "(json \<Rightarrow> string) \<Rightarrow> string \<Rightarrow> json \<Rightarrow> mock_cluster \<Rightarrow> (string list \<times> py_error option) \<times> mock_cluster" where
  \<comment> \<open>the lines a streaming client reads, and what breaks the stream\<close>
  "mock_stream dumps url body ws =
     (case List.find (\<lambda>(e, cache). url = e @ ''/v1/chat/completions'') ws of
        None \<Rightarrow> (([], Some RuntimeError), ws)
      | Some (e, cache) \<Rightarrow>
          (case mock_chat body cache of
             (Inl err, cache') \<Rightarrow> (([], Some RuntimeError), AList.update e cache' ws)
           | (Inr (Whole j), cache') \<Rightarrow> (([dumps j], None), AList.update e cache' ws)
           | (Inr (Chunks js), cache') \<Rightarrow> ((mock_lines dumps js, None), AList.update e cache' ws)))"

definition mock_get :: "string \<Rightarrow> mock_cluster \<Rightarrow> (py_error + int) \<times> mock_cluster" where
  "mock_get url ws =
     (if \<exists>(e, cache) \<in> set ws. url = e @ ''/health'' then (Inr 200, ws) else (Inl RuntimeError, ws))"

definition mock_http :: "mock_cluster http_client" where
  "mock_http = \<lparr>http_post = mock_post, http_get = mock_get\<rparr>"

subsection \<open>The prefix cache\<close>

definition cache_ok :: "prefix_cache \<Rightarrow> bool" where
  "cache_ok cache \<longleftrightarrow> (\<forall>(k, v) \<in> set cache. v = mock_tokens k)"

lemma mock_tokens_mono: "length s \<le> length t \<Longrightarrow> mock_tokens s \<le> mock_tokens t"
  unfolding mock_tokens_def by (intro max.mono) (simp_all add: div_le_mono)

lemma mock_tokens_pos: "1 \<le> mock_tokens t"
  by (simp add: mock_tokens_def)

lemma longest_cached_ge0: "best \<le> longest_cached t cache best"
proof (induction cache arbitrary: best)
  case (Cons p cache)
  obtain k v where p: "p = (k, v)" by fastforce
  have "best \<le> (if prefix k t then max best v else best)" by simp
  also have "\<dots> \<le> longest_cached t cache (if prefix k t then max best v else best)" by (rule Cons.IH)
  finally show ?case by (simp add: p)
qed simp

lemma longest_cached_ge: "(k, v) \<in> set cache \<Longrightarrow> prefix k t \<Longrightarrow> v \<le> longest_cached t cache best"
proof (induction cache arbitrary: best)
  case (Cons p cache)
  show ?case
  proof (cases "p = (k, v)")
    case True
    have "v \<le> max best v" by simp
    also have "\<dots> \<le> longest_cached t cache (max best v)" by (rule longest_cached_ge0)
    finally show ?thesis using True Cons.prems by simp
  next
    case False
    with Cons.prems have "(k, v) \<in> set cache" by simp
    with Cons.IH Cons.prems(2) show ?thesis by (cases p) simp
  qed
qed simp

lemma longest_cached_cases:
  "longest_cached t cache best = best \<or>
     (\<exists>(k, v) \<in> set cache. prefix k t \<and> longest_cached t cache best = v)"
proof (induction t cache best rule: longest_cached.induct)
  case (2 t k v cache best)
  then show ?case by (cases "prefix k t"; cases "best \<le> v") (auto simp: max_def)
qed simp

lemma longest_cached_le:
  assumes "cache_ok cache"
  shows "longest_cached t cache 0 \<le> mock_tokens t"
  using longest_cached_cases [of t cache 0]
proof (elim disjE bexE)
  fix p assume p: "p \<in> set cache" "case p of (k, v) \<Rightarrow> prefix k t \<and> longest_cached t cache 0 = v"
  then obtain k v where kv: "p = (k, v)" by fastforce
  with p assms have "longest_cached t cache 0 = mock_tokens k" "length k \<le> length t"
    by (auto simp: cache_ok_def dest: prefix_length_le)
  then show ?thesis by (simp add: mock_tokens_mono)
qed (use mock_tokens_pos [of t] in simp)

lemma cache_ok_update: "cache_ok cache \<Longrightarrow> cache_ok (AList.update t (mock_tokens t) cache)"
  using set_update_subset [of t "mock_tokens t" cache] by (fastforce simp: cache_ok_def)

lemma account_simps:
  "account t cache = ((mock_tokens t, longest_cached t cache 0), AList.update t (mock_tokens t) cache)"
  by (simp add: account_def)

lemma account_extends:
  assumes "prefix t t2"
  shows "mock_tokens t \<le> longest_cached t2 (AList.update t (mock_tokens t) cache) 0"
proof -
  have "map_of (AList.update t (mock_tokens t) cache) t = Some (mock_tokens t)" by simp
  then have "(t, mock_tokens t) \<in> set (AList.update t (mock_tokens t) cache)" by (rule map_of_SomeD)
  then show ?thesis using assms by (rule longest_cached_ge)
qed

subsection \<open>What the adapter reads\<close>

lemma mock_usage_counts: "usage_counts (mock_usage prompt cached) p c = Inr (cached, if prompt = 0 then p else prompt, 5)"
  by (simp add: usage_counts_def mock_usage_def int_field_def)

lemma mock_text_payload: "mock_text (payload v ms mt st) = mock_text (payload v ms mt False)"
  by (simp add: mock_text_def payload_def)

lemma payload_stream [simp]: "json_get (payload v ms mt st) ''stream'' JNull = Inr (JBool st)"
  by (simp add: payload_def)

definition mock_words :: "string list" where
  "mock_words = [''fix'', ''ed '', ''the '', ''bug'']"

lemma mock_chunk_facts:
  "\<forall>ch \<in> set (mock_chunks usage). good_chunk ch"
  "filter (\<lambda>t. t \<noteq> []) (map chunk_text (mock_chunks usage)) = mock_words"
  "concat (map chunk_text (mock_chunks usage)) = ''fixed the bug''"
  "json_truth usage \<Longrightarrow> foldl chunk_usage (JDict []) (mock_chunks usage) = usage"
  by (simp_all add: mock_chunks_def mock_words_def good_chunk_def delta_content_def json_first_def chunk_text_def
      chunk_usage_def json_or_def)

definition codec :: "(string \<Rightarrow> json option) \<Rightarrow> (json \<Rightarrow> string) \<Rightarrow> json list \<Rightarrow> bool" where
  \<comment> \<open>\<open>json.loads\<close> reads what \<open>json.dumps\<close> wrote for these values, and it is never the end marker\<close>
  "codec loads dumps js \<longleftrightarrow>
     (\<forall>j \<in> set js. loads (strip (dumps j)) = Some j \<and> strip (dumps j) \<noteq> ''[DONE]'')"

lemma mock_lines_chunks:
  assumes "codec loads dumps js"
  shows "stream_chunks loads (mock_lines dumps js) = js"
    and "''[DONE]'' \<in> set (data_blobs (mock_lines dumps js))"
proof -
  have "strip ''[DONE]'' = ''[DONE]''" by code_simp
  then have blobs: "data_blobs (mock_lines dumps js) = map (strip \<circ> dumps) js @ [''[DONE]'']"
    by (induction js) (simp_all add: mock_lines_def data_blobs_def)
  then show "''[DONE]'' \<in> set (data_blobs (mock_lines dumps js))" by simp
  have "takeWhile (\<lambda>b. b \<noteq> ''[DONE]'') (map (strip \<circ> dumps) js @ [''[DONE]'']) = map (strip \<circ> dumps) js"
    using assms by (induction js) (simp_all add: codec_def)
  moreover have "List.map_filter loads (map (strip \<circ> dumps) js) = js"
    using assms by (induction js) (simp_all add: codec_def map_filter_simps)
  ultimately show "stream_chunks loads (mock_lines dumps js) = js" by (simp add: stream_chunks_def blobs)
qed

lemma mock_stream_read:
  assumes lib: "codec loads dumps (mock_chunks (mock_usage prompt cached))"
  shows "\<exists>ttft. astream loads watch elapsed (mock_lines dumps (mock_chunks (mock_usage prompt cached))) None =
    (map JStr mock_words, Inr \<lparr>wr_usage = mock_usage prompt cached, wr_elapsed_ms = elapsed, wr_ttft_ms = ttft,
       wr_text = JStr ''fixed the bug''\<rparr>)"
proof -
  let ?u = "mock_usage prompt cached"
  have "json_truth ?u" by (simp add: mock_usage_def)
  then show ?thesis
    using astream_good [of loads "mock_lines dumps (mock_chunks ?u)" watch elapsed None] mock_chunk_facts [of ?u]
    by (auto simp: mock_lines_chunks [OF lib])
qed

subsection \<open>Properties\<close>

text \<open>
  The mock worker keeps a real prefix cache. A prompt counts a quarter of its characters, at
  least one token; the cached count is at most that, is the count of some cached prompt that is a
  prefix of this one when it is not zero, and no such prompt has more; the cache stays
  consistent, and a prompt that extends this one reports at least this one's tokens as cached.
\<close>

theorem mock_reports_the_longest_cached_prefix:
  assumes ok: "cache_ok cache" and run: "account t cache = ((prompt, cached), cache')"
  shows "prompt = max 1 (int (length t div 4)) \<and> 0 \<le> cached \<and> cached \<le> prompt \<and>
    (cached \<noteq> 0 \<longrightarrow> (\<exists>k. (k, cached) \<in> set cache \<and> prefix k t)) \<and>
    (\<forall>k v. (k, v) \<in> set cache \<longrightarrow> prefix k t \<longrightarrow> v \<le> cached) \<and> cache_ok cache' \<and>
    (\<forall>t2. prefix t t2 \<longrightarrow> prompt \<le> snd (fst (account t2 cache')))"
proof -
  have vals: "prompt = mock_tokens t" "cached = longest_cached t cache 0" "cache' = AList.update t (mock_tokens t) cache"
    using run by (auto simp: account_def)
  have "cached \<noteq> 0 \<longrightarrow> (\<exists>k. (k, cached) \<in> set cache \<and> prefix k t)"
    using longest_cached_cases [of t cache 0] vals by auto
  then show ?thesis
    using vals longest_cached_ge0 [of 0 t cache] longest_cached_le [OF ok] longest_cached_ge
      cache_ok_update [OF ok] account_extends
    by (auto simp: account_def mock_tokens_def)
qed

lemma mock_reports_the_longest_cached_prefix_witness:
  "\<exists>prompt cached cache'. account ''abcdefghij'' [(''abcdefgh'', 2), (''xyz'', 1)] = ((prompt, cached), cache') \<and>
     prompt = 2 \<and> cached = 2 \<and> cache_ok cache'"
proof -
  have "cache_ok [(''abcdefgh'', 2), (''xyz'', 1)]" by (simp add: cache_ok_def mock_tokens_def)
  moreover have "account ''abcdefghij'' [(''abcdefgh'', 2), (''xyz'', 1)] =
      ((2, 2), [(''abcdefgh'', 2), (''xyz'', 1), (''abcdefghij'', 2)])"
    by (simp add: account_def mock_tokens_def)
  ultimately show ?thesis
    using mock_reports_the_longest_cached_prefix [of "[(''abcdefgh'', 2), (''xyz'', 1)]" "''abcdefghij''" 2 2] by auto
qed

text \<open>
  The adapter reads the same from a streamed and from a whole answer. When the JSON library
  reads back what it writes, a mock worker's event stream read by the streaming adapter gives the
  same text and usage as its whole answer to the same prompt read by the other path, and the
  usage is exactly what the worker accounted: the cached, prompt and completion tokens.
\<close>

theorem streamed_and_whole_answers_agree:
  assumes lib: "codec loads dumps (mock_chunks (mock_usage prompt cached))"
    and prompt: "mock_text (payload v ms mt False) = Inr t" "account t cache = ((prompt, cached), cache')"
  shows "\<exists>j js w chunks w'. mock_chat (payload v ms mt False) cache = (Inr (Whole j), cache') \<and>
    mock_chat (payload v ms mt True) cache = (Inr (Chunks js), cache') \<and>
    read_answer (Inr j) elapsed = Inr w \<and>
    astream loads watch elapsed (mock_lines dumps js) None = (chunks, Inr w') \<and>
    wr_text w = JStr ''fixed the bug'' \<and> wr_text w' = wr_text w \<and> wr_usage w' = wr_usage w \<and>
    usage_counts (wr_usage w) p c = Inr (cached, prompt, 5)"
proof -
  let ?u = "mock_usage prompt cached"
  have u: "json_truth ?u" "prompt \<noteq> 0"
    using prompt(2) mock_tokens_pos [of t] by (simp_all add: mock_usage_def account_def)
  obtain ttft where stream: "astream loads watch elapsed (mock_lines dumps (mock_chunks ?u)) None = (map JStr mock_words,
      Inr \<lparr>wr_usage = ?u, wr_elapsed_ms = elapsed, wr_ttft_ms = ttft, wr_text = JStr ''fixed the bug''\<rparr>)"
    using mock_stream_read [OF lib] by blast
  have "read_answer (Inr (whole_answer ?u)) elapsed = Inr \<lparr>wr_usage = ?u, wr_elapsed_ms = elapsed,
      wr_ttft_ms = elapsed, wr_text = JStr ''fixed the bug''\<rparr>"
    using u by (simp add: whole_answer_def read_answer_def answer_text_def json_first_def json_or_def)
  moreover have "mock_chat (payload v ms mt False) cache = (Inr (Whole (whole_answer ?u)), cache')"
    "mock_chat (payload v ms mt True) cache = (Inr (Chunks (mock_chunks ?u)), cache')"
    using prompt mock_text_payload [of v ms mt True] by (simp_all add: mock_chat_def Let_def)
  ultimately show ?thesis using stream u mock_usage_counts [of prompt cached p c] by auto
qed

lemma streamed_and_whole_answers_agree_witness:
  "\<exists>j w. mock_chat (payload \<lparr>endpoints = [''http://w''], model_name = ''m'', max_retries = 2, failovers = 0, http = ()\<rparr>
      [JDict [(''role'', JStr ''user''), (''content'', JStr ''abcdefghij'')]] 20 False) [(''abcdefgh'', 2)] =
      (Inr (Whole j), [(''abcdefgh'', 2), (''abcdefghij'', 2)]) \<and>
    read_answer (Inr j) 7 = Inr w \<and> usage_counts (wr_usage w) 9 9 = Inr (2, 2, 5)"
proof -
  let ?v = "\<lparr>endpoints = [''http://w''], model_name = ''m'', max_retries = 2, failovers = 0, http = ()\<rparr>"
  let ?ms = "[JDict [(''role'', JStr ''user''), (''content'', JStr ''abcdefghij'')]]"
  let ?cs = "mock_chunks (mock_usage 2 2)"
  let ?dumps = "\<lambda>j. if j = ?cs ! 0 then ''a'' else if j = ?cs ! 1 then ''b'' else if j = ?cs ! 2 then ''c''
      else if j = ?cs ! 3 then ''d'' else ''e''"
  let ?loads = "\<lambda>s. map_of [(''a'', ?cs ! 0), (''b'', ?cs ! 1), (''c'', ?cs ! 2), (''d'', ?cs ! 3), (''e'', ?cs ! 4)] s"
  have strips: "strip ''a'' = ''a''" "strip ''b'' = ''b''" "strip ''c'' = ''c''" "strip ''d'' = ''d''" "strip ''e'' = ''e''"
    by code_simp+
  have lib: "codec ?loads ?dumps ?cs" by (simp add: codec_def mock_chunks_def strips)
  have t: "mock_text (payload ?v ?ms 20 False) = Inr ''abcdefghij''"
    by (simp add: mock_text_def payload_def iterate_def)
  have acc: "account ''abcdefghij'' [(''abcdefgh'', 2)] = ((2, 2), [(''abcdefgh'', 2), (''abcdefghij'', 2)])"
    by (simp add: account_def mock_tokens_def)
  from streamed_and_whole_answers_agree [OF lib t acc, where elapsed = 7 and watch = "\<lambda>k. 1" and p = 9 and c = 9]
  show ?thesis by blast
qed

end
