(* ===== verification/Bench_Run.thy ===== *)
theory Bench_Run
  imports Traces Live_Replay
begin

section \<open>The benchmark command line\<close>

text \<open>
  \<open>bench/run.py\<close>: both arms over the same traces for each seed, the averages over the seeds, and
  the two outputs, a JSON document or the lines of a table. The parsed options are a record;
  \<open>random.Random(seed)\<close> is the argument \<open>seeded\<close>, and the clock readings of the two arms of a seed
  are \<open>wall seed\<close>. \<open>statistics.mean\<close> raises \<open>StatisticsError\<close>, a \<open>ValueError\<close>, on no data.
\<close>

record bench_args =
  ba_sessions :: int
  ba_seeds :: int
  ba_replicas :: int
  ba_window_ms :: real
  ba_gpu_cache_tokens :: int
  ba_json :: bool

definition default_bench_args :: bench_args where
  "default_bench_args =
     \<lparr>ba_sessions = 300, ba_seeds = 8, ba_replicas = 4, ba_window_ms = 2000000,
      ba_gpu_cache_tokens = 150000, ba_json = False\<rparr>"

definition bench_metrics :: "(string \<times> string \<times> metric_kind) list" where
  "bench_metrics =
     [(''gpu_hit_rate'', ''GPU cache hit rate'', Rate),
      (''any_hit_rate'', ''Hit rate incl. DRAM'', Rate),
      (''token_reuse_rate'', ''Prompt tokens reused'', Rate),
      (''tokens_recomputed'', ''Tokens prefilled cold'', Count),
      (''gpu_busy_ms'', ''GPU compute time (ms)'', Count),
      (''p95_ttft_ms'', ''p95 time-to-first-token (ms)'', Count),
      (''p95_jct_ms'', ''p95 job completion (ms)'', Count)]"

definition bench_fmt :: "real \<Rightarrow> metric_kind \<Rightarrow> string" where
  "bench_fmt v kind = (case kind of Rate \<Rightarrow> fmt_percent 1 v | Count \<Rightarrow> fmt_fixed False True 0 v)"

definition stat_mean :: "real list \<Rightarrow> py_error + real" where
  "stat_mean xs = (if xs = [] then Inl ValueError else Inr (sum_list xs / real (length xs)))"

definition stat_pstdev :: "real list \<Rightarrow> py_error + real" where
  "stat_pstdev xs =
     (case stat_mean xs of
        Inl e \<Rightarrow> Inl e
      | Inr m \<Rightarrow> Inr (sqrt (sum_list (map (\<lambda>x. (x - m)\<^sup>2) xs) / real (length xs))))"

definition bench_config :: "bench_args \<Rightarrow> cluster_config" where
  "bench_config a =
     default_cluster_config\<lparr>cc_replicas := ba_replicas a,
       hardware := default_hardware\<lparr>gpu_cache_tokens := ba_gpu_cache_tokens a\<rparr>\<rparr>"

record bench_run =
  br_baseline :: "(string, real) dict"
  br_treatment :: "(string, real) dict"
  br_result :: arm_result

definition bench_trace :: "'g rng \<Rightarrow> (int \<Rightarrow> 'g) \<Rightarrow> bench_args \<Rightarrow> int \<Rightarrow> py_error + session_trace list" where
  "bench_trace api seeded a seed =
     fst (generate_trace api (nat (ba_sessions a)) 25 4200 (ba_window_ms a) (seeded seed))"

definition bench_seed ::
  "'g rng \<Rightarrow> (int \<Rightarrow> 'g) \<Rightarrow> (int \<Rightarrow> (nat \<Rightarrow> real \<times> real) \<times> (nat \<Rightarrow> real \<times> real)) \<Rightarrow> bench_args \<Rightarrow> int
   \<Rightarrow> py_error + bench_run" where
  "bench_seed api seeded wall a seed =
     (case bench_trace api seeded a seed of Inl e \<Rightarrow> Inl e | Inr traces \<Rightarrow>
     (case compare_arms (fst (wall seed)) (snd (wall seed)) traces (bench_config a) of Inl e \<Rightarrow> Inl e | Inr (b, t) \<Rightarrow>
     (case report b of Inl e \<Rightarrow> Inl e | Inr rb \<Rightarrow>
     (case report t of Inl e \<Rightarrow> Inl e | Inr rt \<Rightarrow>
      Inr \<lparr>br_baseline = rb, br_treatment = rt, br_result = t\<rparr>))))"

fun bench_seeds :: "(int \<Rightarrow> py_error + 'r) \<Rightarrow> int list \<Rightarrow> py_error + 'r list" where
  "bench_seeds run [] = Inr []"
| "bench_seeds run (seed # seeds) =
     (case run seed of Inl e \<Rightarrow> Inl e | Inr r \<Rightarrow>
     (case bench_seeds run seeds of Inl e \<Rightarrow> Inl e | Inr rs \<Rightarrow> Inr (r # rs)))"

fun report_column :: "(bench_run \<Rightarrow> (string, real) dict) \<Rightarrow> string \<Rightarrow> bench_run list \<Rightarrow> py_error + real list" where
  "report_column side key [] = Inr []"
| "report_column side key (r # rs) =
     (case report_value (side r) key of Inl e \<Rightarrow> Inl e | Inr v \<Rightarrow>
     (case report_column side key rs of Inl e \<Rightarrow> Inl e | Inr vs \<Rightarrow> Inr (v # vs)))"

definition bench_mean :: "(bench_run \<Rightarrow> (string, real) dict) \<Rightarrow> string \<Rightarrow> bench_run list \<Rightarrow> py_error + real" where
  "bench_mean side key rs =
     (case report_column side key rs of Inl e \<Rightarrow> Inl e | Inr vs \<Rightarrow> stat_mean vs)"

subsection \<open>The JSON document\<close>

definition json_mean :: "string \<Rightarrow> real \<Rightarrow> json" where
  \<comment> \<open>the mean of integers is an integer when it is exact\<close>
  "json_mean key x = (if key = ''tokens_recomputed'' \<and> integral x then JInt \<lfloor>x\<rfloor> else JFloat (Finite x))"

fun json_means ::
  "(bench_run \<Rightarrow> (string, real) dict) \<Rightarrow> bench_run list \<Rightarrow> (string \<times> string \<times> metric_kind) list
   \<Rightarrow> py_error + (string \<times> json) list" where
  "json_means side rs [] = Inr []"
| "json_means side rs ((key, title, kind) # rows) =
     (case bench_mean side key rs of Inl e \<Rightarrow> Inl e | Inr x \<Rightarrow>
     (case json_means side rs rows of Inl e \<Rightarrow> Inl e | Inr d \<Rightarrow> Inr ((key, json_mean key x) # d)))"

definition bench_document :: "bench_args \<Rightarrow> bench_run list \<Rightarrow> py_error + json" where
  "bench_document a rs =
     (case json_means br_baseline rs bench_metrics of Inl e \<Rightarrow> Inl e | Inr b \<Rightarrow>
     (case json_means br_treatment rs bench_metrics of Inl e \<Rightarrow> Inl e | Inr t \<Rightarrow>
      Inr (JDict
        [(''config'', JDict
            [(''sessions'', JInt (ba_sessions a)), (''seeds'', JInt (ba_seeds a)),
             (''replicas'', JInt (ba_replicas a)), (''window_ms'', JFloat (Finite (ba_window_ms a)))]),
         (''baseline'', JDict b),
         (''agentserve'', JDict t)])))"

subsection \<open>The table\<close>

definition bench_delta :: "metric_kind \<Rightarrow> real \<Rightarrow> real \<Rightarrow> string" where
  "bench_delta kind b t =
     (case kind of
        Rate \<Rightarrow> fmt_fixed True False 1 ((t - b) * 100) @ '' pp''
      | Count \<Rightarrow> if b \<noteq> 0 then fmt_fixed True False 1 ((t / b - 1) * 100) @ ''%'' else ''n/a'')"

fun bench_rows :: "bench_run list \<Rightarrow> (string \<times> string \<times> metric_kind) list \<Rightarrow> py_error + string list" where
  "bench_rows rs [] = Inr []"
| "bench_rows rs ((key, title, kind) # rows) =
     (case bench_mean br_baseline key rs of Inl e \<Rightarrow> Inl e | Inr b \<Rightarrow>
     (case bench_mean br_treatment key rs of Inl e \<Rightarrow> Inl e | Inr t \<Rightarrow>
     (case bench_rows rs rows of Inl e \<Rightarrow> Inl e | Inr ls \<Rightarrow>
      Inr ((ljust 30 title @ rjust 16 (bench_fmt b kind) @ rjust 16 (bench_fmt t kind) @
            rjust 12 (bench_delta kind b t)) # ls))))"

definition bench_head :: string where
  "bench_head = ljust 30 ''metric'' @ rjust 16 ''stock vLLM'' @ rjust 16 ''AgentServe'' @ rjust 12 ''delta''"

definition bench_intro :: "bench_args \<Rightarrow> (string, real) dict \<Rightarrow> real \<Rightarrow> py_error + string list" where
  \<comment> \<open>the lines above the table, from the trace summary and the baseline utilization\<close>
  "bench_intro a summary util =
     (case report_value summary ''sessions'' of Inl e \<Rightarrow> Inl e | Inr sessions \<Rightarrow>
     (case report_value summary ''total_calls'' of Inl e \<Rightarrow> Inl e | Inr calls \<Rightarrow>
     (case report_value summary ''mean_prompt_tokens'' of Inl e \<Rightarrow> Inl e | Inr prompt \<Rightarrow>
     (case report_value summary ''median_tool_gap_ms'' of Inl e \<Rightarrow> Inl e | Inr median \<Rightarrow>
     (case report_value summary ''p90_tool_gap_ms'' of Inl e \<Rightarrow> Inl e | Inr p90 \<Rightarrow>
      Inr
        [[], ''Workload: '' @ fmt_fixed False False 0 sessions @ '' agent sessions, '' @
           fmt_fixed False False 0 calls @ '' LLM calls, '' @
           fmt_fixed False True 0 prompt @ '' mean prompt tokens'',
         ''Tool gaps: median '' @ fmt_fixed False True 0 median @ '' ms, p90 '' @
           fmt_fixed False True 0 p90 @ '' ms'',
         ''Cluster: '' @ py_str_int (ba_replicas a) @ '' replicas, '' @ fmt_int (ba_gpu_cache_tokens a) @
           '' token KV budget each, ~'' @ fmt_percent 0 util @ '' baseline utilization'',
         ''Averaged over '' @ py_str_int (ba_seeds a) @ '' seeds'', []])))))"

definition bench_table :: "'g rng \<Rightarrow> (int \<Rightarrow> 'g) \<Rightarrow> bench_args \<Rightarrow> bench_run list \<Rightarrow> py_error + string list" where
  "bench_table api seeded a rs =
     (case bench_trace api seeded a 1 of Inl e \<Rightarrow> Inl e | Inr traces \<Rightarrow>
     (case trace_summary traces of Inl e \<Rightarrow> Inl e | Inr summary \<Rightarrow>
     (case bench_mean br_baseline ''gpu_busy_ms'' rs of Inl e \<Rightarrow> Inl e | Inr busy \<Rightarrow>
     (if real_of_int (ba_replicas a) * ba_window_ms a = 0 then Inl ZeroDivisionError else
     (case bench_intro a summary (busy / (real_of_int (ba_replicas a) * ba_window_ms a)) of Inl e \<Rightarrow> Inl e | Inr intro \<Rightarrow>
     (case bench_rows rs bench_metrics of Inl e \<Rightarrow> Inl e | Inr rows \<Rightarrow>
     (case report_column br_treatment ''gpu_hit_rate'' rs of Inl e \<Rightarrow> Inl e | Inr rates \<Rightarrow>
     (case stat_pstdev rates of Inl e \<Rightarrow> Inl e | Inr sd \<Rightarrow>
     (case stat_mean (map (\<lambda>r. real_of_int (res_affinity_breaks (br_result r))) rs) of Inl e \<Rightarrow> Inl e | Inr breaks \<Rightarrow>
     (case stat_mean (map (\<lambda>r. real_of_int (res_affinity_hits (br_result r))) rs) of Inl e \<Rightarrow> Inl e | Inr hits \<Rightarrow>
      Inr (intro @ [bench_head, replicate (length bench_head) (CHR ''-'')] @ rows @
           [[], ''Hit-rate stability across seeds: sd '' @ fmt_fixed False False 4 sd,
            ''Affinity honored '' @ fmt_fixed False True 0 hits @ '', rebalanced for load '' @ fmt_fixed False True 0 breaks,
            ''Baseline = round-robin routing with LRU eviction, GPU tier only.'', []])))))))))))"

datatype bench_output = Document json | Table "string list"

definition bench_main ::
  "'g rng \<Rightarrow> (int \<Rightarrow> 'g) \<Rightarrow> (int \<Rightarrow> (nat \<Rightarrow> real \<times> real) \<times> (nat \<Rightarrow> real \<times> real)) \<Rightarrow> bench_args
   \<Rightarrow> py_error + bench_output" where
  "bench_main api seeded wall a =
     (case bench_seeds (bench_seed api seeded wall a) [1..ba_seeds a] of Inl e \<Rightarrow> Inl e | Inr rs \<Rightarrow>
      if ba_json a
      then (case bench_document a rs of Inl e \<Rightarrow> Inl e | Inr j \<Rightarrow> Inr (Document j))
      else (case bench_table api seeded a rs of Inl e \<Rightarrow> Inl e | Inr ls \<Rightarrow> Inr (Table ls)))"

subsection \<open>Nothing fails\<close>

definition bench_args_ok :: "bench_args \<Rightarrow> bool" where
  "bench_args_ok a \<longleftrightarrow> 1 \<le> ba_sessions a \<and> 1 \<le> ba_seeds a \<and> 0 < ba_replicas a \<and> 0 < ba_gpu_cache_tokens a \<and>
     0 < ba_window_ms a"

lemma wf_bench_config: "bench_args_ok a \<Longrightarrow> wf_cluster_config (bench_config a)"
  using wf_default_cluster_config
  by (simp add: bench_args_ok_def bench_config_def wf_cluster_config_def wf_hardware_def default_hardware_def
      default_cluster_config_def)

definition rate_keys :: "string list" where
  "rate_keys = [''gpu_hit_rate'', ''any_hit_rate'', ''token_reuse_rate'']"

definition bench_keys :: "string list" where
  "bench_keys = rate_keys @ [''tokens_recomputed'', ''gpu_busy_ms'', ''p95_ttft_ms'', ''p95_jct_ms'']"

definition report_ok :: "(string, real) dict \<Rightarrow> bool" where
  "report_ok d \<longleftrightarrow> (\<forall>key \<in> set bench_keys. \<exists>v. report_value d key = Inr v) \<and>
     (\<forall>key \<in> set rate_keys. \<exists>v. report_value d key = Inr v \<and> 0 \<le> v \<and> v \<le> 1)"

lemma report_is_ok:
  assumes "consistent_stats (res_stats res)"
  shows "\<exists>d. report res = Inr d \<and> report_ok d"
proof -
  have "\<exists>x. percentile vs (50 / 100) = Inr x" "\<exists>x. percentile vs (95 / 100) = Inr x" for vs
    by (rule percentile_total; simp)+
  then obtain p q r s where
    "percentile (ttfts (res_stats res)) (50 / 100) = Inr p" "percentile (ttfts (res_stats res)) (95 / 100) = Inr q"
    "percentile (job_completion_ms (res_stats res)) (50 / 100) = Inr r"
    "percentile (job_completion_ms (res_stats res)) (95 / 100) = Inr s" by metis
  moreover have "gpu_hit_rate (res_stats res) \<le> 1" "0 \<le> any_hit_rate (res_stats res)"
    using rates_proportions [OF assms] by linarith+
  ultimately show ?thesis using rates_proportions [OF assms]
    by (simp add: report_def Let_def report_ok_def bench_keys_def rate_keys_def report_value_def)
qed

definition run_ok :: "bench_run \<Rightarrow> bool" where
  "run_ok r \<longleftrightarrow> report_ok (br_baseline r) \<and> report_ok (br_treatment r)"

lemma bench_seed_total:
  assumes "rng_laws api" "bench_args_ok a"
  shows "\<exists>r. bench_seed api seeded wall a seed = Inr r \<and> run_ok r"
proof -
  obtain trs where trs: "bench_trace api seeded a seed = Inr trs" "\<forall>tr \<in> set trs. wf_trace tr"
    using generate_trace_total [OF assms(1), of 4200 "ba_window_ms a" "nat (ba_sessions a)" 25 "seeded seed"] assms(2)
    by (auto simp: bench_trace_def bench_args_ok_def)
  note c = wf_bench_config [OF assms(2)]
  obtain b t where bt: "compare_arms (fst (wall seed)) (snd (wall seed)) trs (bench_config a) = Inr (b, t)"
    "consistent_stats (res_stats b)" "consistent_stats (res_stats t)"
    using run_arm_total [OF c trs(2), of "fst (wall seed)" False "''stock vLLM (round-robin + LRU)''"]
      run_arm_total [OF c trs(2), of "snd (wall seed)" True "''AgentServe (affinity + adaptive TTL)''"]
    by (auto simp: compare_arms_def)
  obtain rb rt where "report b = Inr rb" "report_ok rb" "report t = Inr rt" "report_ok rt"
    using report_is_ok [OF bt(2)] report_is_ok [OF bt(3)] by blast
  with trs(1) bt(1) show ?thesis by (simp add: bench_seed_def run_ok_def)
qed

lemma bench_seeds_total:
  "(\<And>seed. \<exists>r. run seed = Inr r \<and> P r) \<Longrightarrow>
     \<exists>rs. bench_seeds run seeds = Inr rs \<and> length rs = length seeds \<and> (\<forall>r \<in> set rs. P r)"
proof (induction seeds)
  case (Cons seed seeds)
  then obtain r rs where "run seed = Inr r" "P r" "bench_seeds run seeds = Inr rs" "length rs = length seeds"
    "\<forall>r \<in> set rs. P r" by metis
  then show ?case by simp
qed simp

lemma report_column_total:
  "(\<And>r. r \<in> set rs \<Longrightarrow> \<exists>v. report_value (side r) key = Inr v \<and> Q v) \<Longrightarrow>
     \<exists>vs. report_column side key rs = Inr vs \<and> length vs = length rs \<and> (\<forall>v \<in> set vs. Q v)"
proof (induction rs)
  case (Cons r rs)
  then obtain v vs where "report_value (side r) key = Inr v" "Q v" "report_column side key rs = Inr vs"
    "length vs = length rs" "\<forall>v \<in> set vs. Q v" by (metis list.set_intros)
  then show ?case by simp
qed simp

lemma mean_between:
  assumes "vs \<noteq> []" "\<forall>v \<in> set vs. 0 \<le> v \<and> v \<le> (1 :: real)"
  shows "0 \<le> sum_list vs / real (length vs)" "sum_list vs / real (length vs) \<le> 1"
proof -
  have "0 \<le> sum_list vs \<and> sum_list vs \<le> real (length vs)" using assms(2) by (induction vs) auto
  then show "0 \<le> sum_list vs / real (length vs)" "sum_list vs / real (length vs) \<le> 1"
    using assms(1) by (simp_all add: divide_le_eq)
qed

lemma bench_mean_total:
  assumes "rs \<noteq> []" "\<forall>r \<in> set rs. report_ok (side r)" "key \<in> set bench_keys"
  shows "\<exists>x. bench_mean side key rs = Inr x \<and> (key \<in> set rate_keys \<longrightarrow> 0 \<le> x \<and> x \<le> 1)"
proof -
  let ?Q = "\<lambda>v. key \<in> set rate_keys \<longrightarrow> 0 \<le> v \<and> v \<le> 1"
  have "\<exists>v. report_value (side r) key = Inr v \<and> ?Q v" if "r \<in> set rs" for r
    using assms(2,3) that unfolding report_ok_def by (cases "key \<in> set rate_keys") blast+
  then have "\<And>r. r \<in> set rs \<Longrightarrow> \<exists>v. report_value (side r) key = Inr v \<and> ?Q v" .
  from report_column_total [of rs side key ?Q, OF this] obtain vs where vs: "report_column side key rs = Inr vs" "length vs = length rs"
    "\<forall>v \<in> set vs. ?Q v" by blast
  then have "vs \<noteq> []" using assms(1) by auto
  with vs mean_between [OF this] show ?thesis by (auto simp: bench_mean_def stat_mean_def)
qed

text \<open>What a measurement of an arm averages to over the seeds, and the line of the table that shows it.\<close>

definition seed_average :: "bench_run list \<Rightarrow> (bench_run \<Rightarrow> (string, real) dict) \<Rightarrow> string \<Rightarrow> real" where
  "seed_average rs side key = (\<Sum>r \<leftarrow> rs. the (map_of (side r) key)) / real (length rs)"

definition average_line :: "bench_run list \<Rightarrow> string \<times> string \<times> metric_kind \<Rightarrow> string" where
  "average_line rs row =
     (case row of (key, title, kind) \<Rightarrow>
        let stock = seed_average rs br_baseline key; agent = seed_average rs br_treatment key
        in ljust 30 title @ rjust 16 (bench_fmt stock kind) @ rjust 16 (bench_fmt agent kind) @
           rjust 12 (bench_delta kind stock agent))"

lemma report_column_values:
  "report_column side key rs = Inr vs \<Longrightarrow> vs = map (\<lambda>r. the (map_of (side r) key)) rs"
  by (induction rs arbitrary: vs) (auto simp: report_value_def split: sum.splits option.splits)

lemma bench_mean_average:
  assumes "rs \<noteq> []" "\<forall>r \<in> set rs. report_ok (side r)" "key \<in> set bench_keys"
  shows "bench_mean side key rs = Inr (seed_average rs side key)"
    and "key \<in> set rate_keys \<longrightarrow> 0 \<le> seed_average rs side key \<and> seed_average rs side key \<le> 1"
proof -
  obtain x where x: "bench_mean side key rs = Inr x" "key \<in> set rate_keys \<longrightarrow> 0 \<le> x \<and> x \<le> 1"
    using bench_mean_total [OF assms] by blast
  have "x = seed_average rs side key"
    using x(1) report_column_values [of side key rs]
    by (auto simp: bench_mean_def stat_mean_def seed_average_def split: sum.splits if_splits)
  with x show "bench_mean side key rs = Inr (seed_average rs side key)"
    "key \<in> set rate_keys \<longrightarrow> 0 \<le> seed_average rs side key \<and> seed_average rs side key \<le> 1" by simp_all
qed

lemma bench_keys_rows: "map fst bench_metrics = bench_keys"
  by (simp add: bench_metrics_def bench_keys_def rate_keys_def)

lemma length_bench_metrics: "length bench_metrics = 7"
  by (simp add: bench_metrics_def)

lemma json_means_average:
  assumes "rs \<noteq> []" "\<forall>r \<in> set rs. report_ok (side r)" "set (map fst rows) \<subseteq> set bench_keys"
  shows "json_means side rs rows = Inr (map (\<lambda>row. (fst row, json_mean (fst row) (seed_average rs side (fst row)))) rows)"
  using assms(3) by (induction rows) (auto simp: bench_mean_average [OF assms(1,2)])

lemma bench_rows_average:
  assumes "rs \<noteq> []" "\<forall>r \<in> set rs. run_ok r" "set (map fst rows) \<subseteq> set bench_keys"
  shows "bench_rows rs rows = Inr (map (average_line rs) rows)"
proof -
  have ok: "\<forall>r \<in> set rs. report_ok (br_baseline r)" "\<forall>r \<in> set rs. report_ok (br_treatment r)"
    using assms(2) by (simp_all add: run_ok_def)
  show ?thesis
    using assms(3) by (induction rows)
      (auto simp: average_line_def Let_def bench_mean_average [OF assms(1) ok(1)] bench_mean_average [OF assms(1) ok(2)])
qed

lemma index_total: "0 \<le> i \<Longrightarrow> i < int (length xs) \<Longrightarrow> \<exists>x. py_index xs i = Inr x"
  by (auto simp: py_index_def)

lemma grows_gaps: "grows ts \<Longrightarrow> 2 \<le> length ts \<Longrightarrow> \<exists>tn \<in> set ts. named (tool_name tn) \<noteq> None"
  by (cases ts rule: grows.cases) auto

lemma trace_summary_total:
  assumes "trs \<noteq> []" "\<forall>tr \<in> set trs. 4 \<le> length (turns tr) \<and> grows (turns tr)"
  shows "\<exists>s. trace_summary trs = Inr s \<and>
    (\<forall>key \<in> {''sessions'', ''total_calls'', ''mean_prompt_tokens'', ''median_tool_gap_ms'', ''p90_tool_gap_ms''}.
       \<exists>x. report_value s key = Inr x)"
proof -
  define gaps where "gaps = sort [tool_duration_ms tn. tr \<leftarrow> trs, tn \<leftarrow> turns tr, named (tool_name tn) \<noteq> None]"
  define prompts where "prompts = [prompt_tokens tn. tr \<leftarrow> trs, tn \<leftarrow> turns tr]"
  have tr: "hd trs \<in> set trs" "4 \<le> length (turns (hd trs))" "grows (turns (hd trs))"
    using assms by simp_all
  then obtain tn where "tn \<in> set (turns (hd trs))" "named (tool_name tn) \<noteq> None"
    using grows_gaps [of "turns (hd trs)"] by auto
  with tr(1) have "tool_duration_ms tn \<in> set gaps" "prompt_tokens tn \<in> set prompts"
    by (auto simp: gaps_def prompts_def)
  then have ne: "gaps \<noteq> []" "prompts \<noteq> []" by auto
  obtain median where "py_index gaps (int (length gaps div 2)) = Inr median"
    using index_total [of "int (length gaps div 2)" gaps] ne(1) by auto
  moreover obtain p90 where "py_index gaps (py_trunc (real (length gaps) * (9 / 10))) = Inr p90"
    using index_total [of "py_trunc (real (length gaps) * (9 / 10))" gaps] ne(1)
    by (auto simp: py_trunc_def floor_less_iff)
  ultimately show ?thesis using assms(1) ne
    by (simp only: trace_summary_def Let_def flip: gaps_def prompts_def) (simp add: report_value_def)
qed

lemma pstdev_total: "xs \<noteq> [] \<Longrightarrow> \<exists>x. stat_pstdev xs = Inr x"
  by (simp add: stat_pstdev_def stat_mean_def)

lemma bench_runs:
  assumes "rng_laws api" "bench_args_ok a"
  obtains rs where "bench_seeds (bench_seed api seeded wall a) [1..ba_seeds a] = Inr rs" "rs \<noteq> []"
    "length rs = nat (ba_seeds a)" "\<forall>r \<in> set rs. run_ok r"
proof -
  from bench_seeds_total [of "bench_seed api seeded wall a" run_ok "[1..ba_seeds a]", OF bench_seed_total [OF assms]]
  obtain rs where rs: "bench_seeds (bench_seed api seeded wall a) [1..ba_seeds a] = Inr rs"
    "length rs = length [1..ba_seeds a]" "\<forall>r \<in> set rs. run_ok r" by blast
  have "length rs = nat (ba_seeds a)" using rs(2) by simp
  moreover have "rs \<noteq> []" using calculation assms(2) by (auto simp: bench_args_ok_def)
  ultimately show ?thesis using that rs by blast
qed

lemma bench_table_averages:
  assumes api: "rng_laws api" and a: "bench_args_ok a" and rs: "rs \<noteq> []" "\<forall>r \<in> set rs. run_ok r"
  shows "\<exists>ls. bench_table api seeded a rs = Inr ls \<and> length ls = 20 \<and>
    (\<exists>above below. length above = 8 \<and> ls = above @ map (average_line rs) bench_metrics @ below)"
proof -
  obtain trs where trs: "bench_trace api seeded a 1 = Inr trs" "length trs = nat (ba_sessions a)"
    "\<forall>tr \<in> set trs. 4 \<le> length (turns tr) \<and> grows (turns tr)"
    using generate_trace_total [OF api, of 4200 "ba_window_ms a" "nat (ba_sessions a)" 25 "seeded 1"] a
    by (auto simp: bench_trace_def bench_args_ok_def)
  have "trs \<noteq> []" using trs(2) a by (auto simp: bench_args_ok_def)
  from trace_summary_total [OF this trs(3)] obtain summary where summary: "trace_summary trs = Inr summary"
    "\<forall>key \<in> {''sessions'', ''total_calls'', ''mean_prompt_tokens'', ''median_tool_gap_ms'', ''p90_tool_gap_ms''}.
       \<exists>x. report_value summary key = Inr x" by blast
  have intro: "\<exists>above. bench_intro a summary util = Inr above \<and> length above = 6" for util
    using summary(2) by (auto simp: bench_intro_def)
  have ok: "\<forall>r \<in> set rs. report_ok (br_baseline r)" "\<forall>r \<in> set rs. report_ok (br_treatment r)"
    using rs(2) by (simp_all add: run_ok_def)
  obtain busy where busy: "bench_mean br_baseline ''gpu_busy_ms'' rs = Inr busy"
    using bench_mean_total [OF rs(1) ok(1), of "''gpu_busy_ms''"] by (auto simp: bench_keys_def)
  have rows: "bench_rows rs bench_metrics = Inr (map (average_line rs) bench_metrics)"
    by (rule bench_rows_average [OF rs]) (simp only: bench_keys_rows)
  have "\<exists>v. report_value (br_treatment r) ''gpu_hit_rate'' = Inr v \<and> True" if "r \<in> set rs" for r
    using ok(2) that by (simp add: report_ok_def bench_keys_def rate_keys_def)
  from report_column_total [of rs br_treatment "''gpu_hit_rate''" "\<lambda>v. True", OF this] obtain rates
    where rates: "report_column br_treatment ''gpu_hit_rate'' rs = Inr rates" "length rates = length rs" by blast
  then have "rates \<noteq> []" using rs(1) by auto
  from pstdev_total [OF this] obtain sd where sd: "stat_pstdev rates = Inr sd" ..
  have window: "real_of_int (ba_replicas a) * ba_window_ms a \<noteq> 0" using a by (simp add: bench_args_ok_def)
  obtain above where above: "bench_intro a summary (busy / (real_of_int (ba_replicas a) * ba_window_ms a)) = Inr above"
    "length above = 6" using intro by blast
  have "\<exists>below. bench_table api seeded a rs =
      Inr (above @ [bench_head, replicate (length bench_head) (CHR ''-'')] @ map (average_line rs) bench_metrics @ below) \<and>
      length below = 5"
    using trs(1) summary(1) busy above(1) rows rates(1) rs(1) sd window
    by (simp add: bench_table_def stat_mean_def del: bench_rows.simps)
  then obtain below where table: "bench_table api seeded a rs =
      Inr (above @ [bench_head, replicate (length bench_head) (CHR ''-'')] @ map (average_line rs) bench_metrics @ below)"
      "length below = 5" by blast
  let ?above = "above @ [bench_head, replicate (length bench_head) (CHR ''-'')]"
  have "length ?above = 8" using above(2) by simp
  moreover have "length (?above @ map (average_line rs) bench_metrics @ below) = 20"
    using above(2) table(2) by (simp add: length_bench_metrics)
  ultimately show ?thesis using table(1) by (metis append.assoc)
qed

lemma bench_document_averages:
  assumes rs: "rs \<noteq> []" "\<forall>r \<in> set rs. run_ok r"
  shows "\<exists>j. bench_document a rs = Inr j \<and> (\<forall>(arm, side) \<in> {(''baseline'', br_baseline), (''agentserve'', br_treatment)}.
    json_get j arm JNull = Inr (JDict (map (\<lambda>key. (key, json_mean key (seed_average rs side key))) bench_keys)))"
proof -
  have ok: "\<forall>r \<in> set rs. report_ok (br_baseline r)" "\<forall>r \<in> set rs. report_ok (br_treatment r)"
    using rs(2) by (simp_all add: run_ok_def)
  have keys: "map (\<lambda>row. (fst row, f (fst row))) bench_metrics = map (\<lambda>key. (key, f key)) bench_keys" for f :: "string \<Rightarrow> json"
    by (simp add: comp_def flip: bench_keys_rows)
  have "json_means side rs bench_metrics = Inr (map (\<lambda>key. (key, json_mean key (seed_average rs side key))) bench_keys)"
    if "\<forall>r \<in> set rs. report_ok (side r)" for side
    using json_means_average [OF rs(1) that, of bench_metrics]
      keys [of "\<lambda>key. json_mean key (seed_average rs side key)"] by (simp add: bench_keys_rows)
  from this [OF ok(1)] this [OF ok(2)] show ?thesis by (simp add: bench_document_def)
qed

lemma bench_seeds_nth:
  "bench_seeds run seeds = Inr rs \<Longrightarrow> length rs = length seeds \<and> (\<forall>k < length seeds. run (seeds ! k) = Inr (rs ! k))"
proof (induction seeds arbitrary: rs)
  case (Cons seed seeds)
  then show ?case by (auto simp: nth_Cons split: sum.splits nat.splits)
qed simp

lemma bench_seed_arms:
  assumes "bench_seed api seeded wall a seed = Inr r"
  shows "\<exists>traces b t. bench_trace api seeded a seed = Inr traces \<and>
    run_arm (fst (wall seed)) traces (bench_config a) False ''stock vLLM (round-robin + LRU)'' = Inr b \<and>
    run_arm (snd (wall seed)) traces (bench_config a) True ''AgentServe (affinity + adaptive TTL)'' = Inr t \<and>
    report b = Inr (br_baseline r) \<and> report t = Inr (br_treatment r)"
  using assms by (auto simp: bench_seed_def compare_arms_def split: sum.splits prod.splits)

lemma bench_seed_output [simp]: "bench_seed api seeded wall (a\<lparr>ba_json := j\<rparr>) = bench_seed api seeded wall a"
proof -
  have "bench_config (a\<lparr>ba_json := j\<rparr>) = bench_config a" by (simp add: bench_config_def)
  then show ?thesis unfolding bench_seed_def bench_trace_def fun_eq_iff by (simp cong: sum.case_cong prod.case_cong)
qed

subsection \<open>Properties\<close>

text \<open>
  C35: The benchmark reports the averages of what it measured. For any generator within its documented
  ranges and at least one session, seed, replica, cache token and some window, a run ends without an
  exception. It has replayed, for each seed from 1 on, the trace of that seed through the stock arm
  and the AgentServe arm. The table it prints has twenty lines, of which the ninth to the
  fifteenth show, for each of the seven measurements, its average over the seeds in the stock arm,
  then in the AgentServe arm, then the difference; with \<open>--json\<close> the document holds the same averages, under the
  names of the measurements and of the two arms. The averaged rates of both arms are proportions.
\<close>

theorem benchmark_reports_proportions:
  assumes api: "rng_laws api" and a: "bench_args_ok a"
  shows "\<exists>rs. length rs = nat (ba_seeds a) \<and>
    (\<forall>k < length rs. \<exists>traces b t. bench_trace api seeded a (int k + 1) = Inr traces \<and>
       run_arm (fst (wall (int k + 1))) traces (bench_config a) False ''stock vLLM (round-robin + LRU)'' = Inr b \<and>
       run_arm (snd (wall (int k + 1))) traces (bench_config a) True ''AgentServe (affinity + adaptive TTL)'' = Inr t \<and>
       report b = Inr (br_baseline (rs ! k)) \<and> report t = Inr (br_treatment (rs ! k))) \<and>
    (\<exists>ls. bench_main api seeded wall (a\<lparr>ba_json := False\<rparr>) = Inr (Table ls) \<and> length ls = 20 \<and>
       take 7 (drop 8 ls) = map (average_line rs) bench_metrics) \<and>
    (\<exists>j. bench_main api seeded wall (a\<lparr>ba_json := True\<rparr>) = Inr (Document j) \<and>
       (\<forall>(arm, side) \<in> {(''baseline'', br_baseline), (''agentserve'', br_treatment)}. json_get j arm JNull =
          Inr (JDict (map (\<lambda>key. (key, json_mean key (seed_average rs side key))) bench_keys)))) \<and>
    (\<forall>side \<in> {br_baseline, br_treatment}. \<forall>key \<in> set rate_keys.
       0 \<le> seed_average rs side key \<and> seed_average rs side key \<le> 1)"
proof -
  obtain rs where rs: "bench_seeds (bench_seed api seeded wall a) [1..ba_seeds a] = Inr rs" "rs \<noteq> []"
    "length rs = nat (ba_seeds a)" "\<forall>r \<in> set rs. run_ok r"
    using bench_runs [OF api a, where seeded = seeded and wall = wall] by auto
  have arms: "bench_seed api seeded wall a (int k + 1) = Inr (rs ! k)" if "k < length rs" for k
    using bench_seeds_nth [OF rs(1)] that rs(3) by (auto simp: nth_upto add.commute)
  have "bench_args_ok (a\<lparr>ba_json := False\<rparr>)" using a by (simp add: bench_args_ok_def)
  from bench_table_averages [OF api this rs(2,4), of seeded] obtain ls above below where ls:
    "bench_table api seeded (a\<lparr>ba_json := False\<rparr>) rs = Inr ls" "length ls = 20" "length above = 8"
    "ls = above @ map (average_line rs) bench_metrics @ below" by blast
  then have table: "bench_main api seeded wall (a\<lparr>ba_json := False\<rparr>) = Inr (Table ls)"
    "take 7 (drop 8 ls) = map (average_line rs) bench_metrics"
    using rs(1) by (simp_all add: bench_main_def length_bench_metrics)
  obtain j where j: "bench_document (a\<lparr>ba_json := True\<rparr>) rs = Inr j"
    "\<forall>(arm, side) \<in> {(''baseline'', br_baseline), (''agentserve'', br_treatment)}. json_get j arm JNull =
       Inr (JDict (map (\<lambda>key. (key, json_mean key (seed_average rs side key))) bench_keys))"
    using bench_document_averages [OF rs(2,4)] by blast
  have "0 \<le> seed_average rs side key \<and> seed_average rs side key \<le> 1"
    if "side \<in> {br_baseline, br_treatment}" "key \<in> set rate_keys" for side key
    using bench_mean_average(2) [OF rs(2), of side key] that rs(4) by (auto simp: run_ok_def bench_keys_def)
  moreover have "bench_main api seeded wall (a\<lparr>ba_json := True\<rparr>) = Inr (Document j)"
    using rs(1) j(1) by (simp add: bench_main_def)
  ultimately show ?thesis
    using rs(3) arms [THEN bench_seed_arms] table ls(2) j(2) by (intro exI [of _ rs]) blast
qed

lemma benchmark_reports_proportions_witness:
  "\<exists>ls rs. bench_main fixed_rng (\<lambda>seed. ()) (\<lambda>seed. (\<lambda>n. (0, 0), \<lambda>n. (0, 0))) default_bench_args = Inr (Table ls) \<and>
     length rs = 8 \<and> length ls = 20 \<and> take 7 (drop 8 ls) = map (average_line rs) bench_metrics"
proof -
  have "rng_laws fixed_rng" by (simp add: rng_laws_def fixed_rng_def)
  moreover have "bench_args_ok default_bench_args" by (simp add: bench_args_ok_def default_bench_args_def)
  moreover have "default_bench_args\<lparr>ba_json := False\<rparr> = default_bench_args" "ba_seeds default_bench_args = 8"
    by (simp_all add: default_bench_args_def)
  ultimately show ?thesis
    using benchmark_reports_proportions [of fixed_rng default_bench_args "\<lambda>seed. ()" "\<lambda>seed. (\<lambda>n. (0, 0), \<lambda>n. (0, 0))"]
    by auto
qed

text \<open>
  The cells of the tables can be read back. Without its thousands separators and percent sign,
  a cell is a number Python's \<open>float\<close> reads, within half a unit of the last place printed of the
  value it shows.
\<close>

theorem table_cells_read_back:
  assumes "\<bar>v\<bar> \<le> 10 ^ 298"
  shows "\<exists>y. py_float (filter (\<lambda>c. c \<notin> set '',%'') (bench_fmt v kind)) = Some (Finite y) \<and>
     \<bar>y - (case kind of Rate \<Rightarrow> 100 * v | Count \<Rightarrow> v)\<bar> \<le> (case kind of Rate \<Rightarrow> 1 / 20 | Count \<Rightarrow> 1 / 2) \<and>
     bench_fmt v kind = compare_cell kind v"
proof -
  have plain: "CHR ''%'' \<notin> set (fmt_fixed False comma k x)" for comma k x by (rule fmt_no_percent)
  then have drop: "filter (\<lambda>c. c \<notin> set '',%'') (fmt_fixed False comma k x) =
      filter (\<lambda>c. c \<noteq> CHR '','') (fmt_fixed False comma k x)" for comma k x
    by (intro filter_cong) auto
  show ?thesis
  proof (cases kind)
    case Rate
    have "\<bar>v * 100\<bar> \<le> 10 ^ 300" using assms by (simp add: abs_mult)
    from fmt_fixed_reads_back [OF _ this, of 1 False False] shown_near [of 1 "v * 100"] Rate drop
    show ?thesis by (auto simp: bench_fmt_def compare_cell_def fmt_percent_def mult.commute)
  next
    case Count
    have "(10 :: real) ^ 298 \<le> 10 ^ 300" by simp
    with assms have "\<bar>v\<bar> \<le> 10 ^ 300" by linarith
    from fmt_fixed_reads_back [OF _ this, of 0 False True] shown_near [of 0 v] Count drop
    show ?thesis by (auto simp: bench_fmt_def compare_cell_def)
  qed
qed

lemma table_cells_read_back_witness:
  "\<exists>y. py_float (filter (\<lambda>c. c \<notin> set '',%'') (bench_fmt (123456 / 10) Count)) = Some (Finite y) \<and>
     \<bar>y - 123456 / 10\<bar> \<le> 1 / 2"
  using table_cells_read_back [of "123456 / 10" Count] by auto

end
