(* ===== verification/Polling.thy ===== *)
theory Polling
  imports Prelude
begin

section \<open>Waiting for a server\<close>

text \<open>
  \<open>wait_for\<close> of \<open>scripts/integration_check.py\<close> and \<open>wait_http\<close> of \<open>scripts/gpu_validate.py\<close>: ask
  for a URL until it answers 200 or the deadline has passed. The readings of the clock during the
  wait are a function of their number (reading 0 makes the deadline, reading \<open>Suc n\<close> is the \<open>n\<close>-th
  test of the loop), and so are the answers, an exception or a status. The loop has no bound of
  its own, so \<open>None\<close> is the value of a wait that does not return.
\<close>

type_synonym clock = "nat \<Rightarrow> real"
type_synonym answers = "nat \<Rightarrow> py_error + int"

partial_function (option) poll_until :: "clock \<Rightarrow> answers \<Rightarrow> real \<Rightarrow> nat \<Rightarrow> bool option" where
  "poll_until clk get deadline n =
     (if clk (Suc n) < deadline
      then if get n = Inr 200 then Some True else poll_until clk get deadline (Suc n)
      else Some False)"

definition wait_for :: "clock \<Rightarrow> answers \<Rightarrow> real \<Rightarrow> bool option" where
  "wait_for clk get timeout = poll_until clk get (clk 0 + timeout) 0"

definition wait_http :: "clock \<Rightarrow> answers \<Rightarrow> real \<Rightarrow> bool option" where
  \<comment> \<open>the same loop with a longer sleep; it also logs that it is still waiting\<close>
  "wait_http clk get timeout = poll_until clk get (clk 0 + timeout) 0"

text \<open>
  What the sleep gives: from one test to the next the clock advances by at least \<open>d\<close>.
\<close>

definition advancing :: "real \<Rightarrow> clock \<Rightarrow> bool" where
  "advancing d clk \<longleftrightarrow> clk 0 \<le> clk 1 \<and> (\<forall>n. clk (Suc n) + d \<le> clk (Suc (Suc n)))"

definition up_in_time :: "clock \<Rightarrow> answers \<Rightarrow> real \<Rightarrow> bool" where
  \<comment> \<open>some request before the deadline is answered with 200\<close>
  "up_in_time clk get timeout \<longleftrightarrow> (\<exists>n. get n = Inr 200 \<and> clk (Suc n) < clk 0 + timeout)"

lemma advancing_mono:
  assumes "advancing d clk" "0 \<le> d" "m \<le> n"
  shows "clk (Suc m) \<le> clk (Suc n)"
  using assms(3)
proof (induction rule: dec_induct)
  case (step n)
  moreover have "clk (Suc n) + d \<le> clk (Suc (Suc n))" using assms(1) unfolding advancing_def by blast
  ultimately show ?case using assms(2) by linarith
qed simp

lemma poll_until_answer:
  assumes "advancing d clk" "0 < d"
  shows "\<exists>b. poll_until clk get deadline n = Some b \<and> (b \<longleftrightarrow> (\<exists>m \<ge> n. get m = Inr 200 \<and> clk (Suc m) < deadline))"
proof (induction "nat \<lceil>(deadline - clk (Suc n)) / d\<rceil>" arbitrary: n rule: less_induct)
  case less
  show ?case
  proof (cases "clk (Suc n) < deadline")
    case False
    have "\<not> clk (Suc m) < deadline" if "n \<le> m" for m
      using advancing_mono [OF assms(1) _ that] assms(2) False by linarith
    with False show ?thesis by (subst poll_until.simps) auto
  next
    case True
    have adv: "clk (Suc n) + d \<le> clk (Suc (Suc n))" using assms(1) unfolding advancing_def by blast
    have "(deadline - clk (Suc (Suc n))) / d \<le> (deadline - clk (Suc n) - d) / d"
      using adv assms(2) by (intro divide_right_mono) simp_all
    also have "\<dots> = (deadline - clk (Suc n)) / d - 1" using assms(2) by (simp add: diff_divide_distrib)
    finally have "\<lceil>(deadline - clk (Suc (Suc n))) / d\<rceil> \<le> \<lceil>(deadline - clk (Suc n)) / d\<rceil> - 1"
      by (simp add: ceiling_le_iff) linarith
    moreover have "0 < \<lceil>(deadline - clk (Suc n)) / d\<rceil>" using True assms(2) by (simp add: zero_less_ceiling)
    ultimately have "nat \<lceil>(deadline - clk (Suc (Suc n))) / d\<rceil> < nat \<lceil>(deadline - clk (Suc n)) / d\<rceil>" by linarith
    from less.hyps [OF this] obtain b where b: "poll_until clk get deadline (Suc n) = Some b"
      "b \<longleftrightarrow> (\<exists>m \<ge> Suc n. get m = Inr 200 \<and> clk (Suc m) < deadline)" by blast
    have "(\<exists>m \<ge> n. get m = Inr 200 \<and> clk (Suc m) < deadline) \<longleftrightarrow> get n = Inr 200 \<or> b"
      using True b(2) by (metis Suc_leD le_refl not_less_eq_eq order_antisym)
    with True b(1) show ?thesis by (subst poll_until.simps) auto
  qed
qed

lemma wait_answer:
  assumes "advancing d clk" "0 < d"
  shows "wait_for clk get timeout = Some (up_in_time clk get timeout)"
    and "wait_http clk get timeout = Some (up_in_time clk get timeout)"
  using poll_until_answer [OF assms, of get "clk 0 + timeout" 0]
  by (auto simp: wait_for_def wait_http_def up_in_time_def)

text \<open>The number of requests a wait can make.\<close>

lemma advancing_reaches:
  assumes "advancing d clk" shows "clk 0 + real n * d \<le> clk (Suc n)"
proof (induction n)
  case 0
  with assms show ?case by (simp add: advancing_def)
next
  case (Suc n)
  moreover have "clk (Suc n) + d \<le> clk (Suc (Suc n))" using assms unfolding advancing_def by blast
  ultimately show ?case by (simp add: algebra_simps)
qed

text \<open>
  C24: Waiting for a server ends. When each sleep moves the clock forward by at least \<open>d\<close>, both
  waits return after at most \<open>timeout / d\<close> further requests, and they return true exactly when
  some request made before the deadline is answered with status 200.
\<close>

theorem waits_end_at_their_deadline:
  assumes "advancing d clk" "0 < d"
  shows "wait_http clk get timeout = Some (\<exists>n. get n = Inr 200 \<and> clk (Suc n) < clk 0 + timeout) \<and>
    wait_for clk get timeout = Some (\<exists>n. get n = Inr 200 \<and> clk (Suc n) < clk 0 + timeout) \<and>
    (\<forall>n. clk (Suc n) < clk 0 + timeout \<longrightarrow> real n < timeout / d)"
proof (intro conjI allI impI)
  fix n
  assume "clk (Suc n) < clk 0 + timeout"
  with advancing_reaches [OF assms(1), of n] have "real n * d < timeout" by linarith
  with assms(2) show "real n < timeout / d" by (simp add: pos_less_divide_eq)
qed (use wait_answer [OF assms] in \<open>simp_all add: up_in_time_def\<close>)

lemma waits_end_at_their_deadline_witness:
  "wait_http (\<lambda>n. 2 * real n) (\<lambda>n. if n < 3 then Inl RuntimeError else Inr 200) 90 = Some True \<and>
   wait_for (\<lambda>n. 2 * real n) (\<lambda>n. Inr 503) 25 = Some False"
proof -
  have adv: "advancing 2 (\<lambda>n. 2 * real n)" by (simp add: advancing_def)
  have "(\<exists>n. (if n < 3 then Inl RuntimeError else Inr 200) = (Inr 200 :: py_error + int) \<and> 2 * real (Suc n) < 2 * real 0 + 90)"
    by (intro exI [of _ 3]) simp
  with waits_end_at_their_deadline [OF adv, of "\<lambda>n. if n < 3 then Inl RuntimeError else Inr 200" 90]
    waits_end_at_their_deadline [OF adv, of "\<lambda>n. Inr 503" 25] show ?thesis by simp
qed

end
