(* ===== verification/Gpu_Validate.thy ===== *)
theory Gpu_Validate
  imports Settings Polling Traces Live_Sessions
begin

section \<open>The hardware validation script\<close>

text \<open>
  \<open>scripts/gpu_validate.py\<close>: the plan (which worker runs on which card and how much of it each may
  claim), the processes it starts with their command lines and environments, the two arms, and the
  clean-up. The operating system is a record of what happens: whether \<open>nvidia-smi\<close> answers, whether
  each process can be started, what every health check sees, which processes exit by themselves or
  on an interrupt. The outcome of a replay (\<open>Live_Sessions\<close>) is an argument of the run. A run
  leaves a list of events, the lines it logs among them (without their time stamps; only the
  \<open>still waiting\<close> lines inside a wait are left out). A run whose waits do not return is \<open>None\<close>.
\<close>

subsection \<open>The plan\<close>

definition is_break :: "char \<Rightarrow> bool" where
  "is_break c \<longleftrightarrow> code c \<in> {10, 11, 12, 13, 28, 29, 30, 133}"

fun split_lines :: "string \<Rightarrow> string \<Rightarrow> string list" where
  \<comment> \<open>\<open>str.splitlines\<close>, with the current line reversed\<close>
  "split_lines cur [] = (if cur = [] then [] else [rev cur])"
| "split_lines cur (c # cs) =
     (if is_break c
      then rev cur # split_lines [] (if code c = 13 \<and> cs \<noteq> [] \<and> code (hd cs) = 10 then tl cs else cs)
      else split_lines (c # cur) cs)"

definition detect_gpus :: "(py_error + string) option \<Rightarrow> string list" where
  \<comment> \<open>the output of \<open>nvidia-smi\<close>, or \<open>None\<close> where it is not installed\<close>
  "detect_gpus smi =
     (case smi of
        Some (Inr out) \<Rightarrow> [strip line. line \<leftarrow> split_lines [] out, strip line \<noteq> []]
      | _ \<Rightarrow> [])"

datatype number = IntNum int | FloatNum real

definition str_number :: "number \<Rightarrow> string" where
  \<comment> \<open>a default written as an integer stays one: \<open>argparse\<close> converts only strings\<close>
  "str_number x = (case x of IntNum i \<Rightarrow> py_str_int i | FloatNum r \<Rightarrow> str_float r)"

fun number_value :: "number \<Rightarrow> real" where
  "number_value (IntNum i) = real_of_int i"
| "number_value (FloatNum r) = r"

record gpu_args =
  ga_model :: string
  ga_replicas :: int
  ga_share_gpu :: bool
  ga_gpu_memory_utilization :: "real option"
  ga_max_model_len :: int
  ga_swap_space_gb :: int
  ga_kv_budget_tokens :: int
  ga_pin_threshold_ms :: number
  ga_offload_threshold_ms :: number
  ga_sessions :: int
  ga_turns :: int
  ga_concurrency :: int
  ga_prompt_tokens :: int
  ga_speedup :: real
  ga_seed :: int
  ga_startup_timeout :: real
  ga_out :: string
  ga_dry_run :: bool

definition default_gpu_args :: gpu_args where
  "default_gpu_args =
     \<lparr>ga_model = ''Qwen/Qwen2.5-0.5B-Instruct'', ga_replicas = 2, ga_share_gpu = False,
      ga_gpu_memory_utilization = None, ga_max_model_len = 8192, ga_swap_space_gb = 4,
      ga_kv_budget_tokens = 40000, ga_pin_threshold_ms = IntNum 2000, ga_offload_threshold_ms = IntNum 300000,
      ga_sessions = 24, ga_turns = 10, ga_concurrency = 8, ga_prompt_tokens = 1200, ga_speedup = 20, ga_seed = 7,
      ga_startup_timeout = 900, ga_out = ''gpu_validation.json'', ga_dry_run = False\<rparr>"

definition card_count :: "string list \<Rightarrow> int" where
  "card_count gpus = max 1 (int (length gpus))"

definition shares_card :: "string list \<Rightarrow> gpu_args \<Rightarrow> bool" where
  "shares_card gpus a \<longleftrightarrow> ga_share_gpu a \<or> card_count gpus < ga_replicas a"

definition round3 :: "real \<Rightarrow> real" where
  \<comment> \<open>\<open>round(x, 3)\<close>\<close>
  "round3 x = real_of_int (py_round (x * 1000)) / 1000"

definition memory_utilization :: "string list \<Rightarrow> gpu_args \<Rightarrow> py_error + real" where
  "memory_utilization gpus a =
     (case ga_gpu_memory_utilization a of
        Some u \<Rightarrow> Inr u
      | None \<Rightarrow>
          (let per_gpu = (if shares_card gpus a then real_of_int (ga_replicas a) / real_of_int (card_count gpus) else 1)
           in if per_gpu = 0 then Inl ZeroDivisionError else Inr (round3 (min (85 / 100) (80 / 100 / per_gpu)))))"

definition gpu_placement :: "string list \<Rightarrow> gpu_args \<Rightarrow> (int \<times> int \<times> int) list" where
  \<comment> \<open>index, card and port of every worker\<close>
  "gpu_placement gpus a =
     map (\<lambda>i. (i, if shares_card gpus a then 0 else i mod card_count gpus, 8300 + i)) [0..ga_replicas a - 1]"

definition card_claim :: "string list \<Rightarrow> gpu_args \<Rightarrow> real \<Rightarrow> int \<Rightarrow> real" where
  \<comment> \<open>the share of a card its workers claim together\<close>
  "card_claim gpus a u d = real (length (filter (\<lambda>w. fst (snd w) = d) (gpu_placement gpus a))) * u"

subsection \<open>Commands and environments\<close>

definition vllm_command :: "gpu_args \<Rightarrow> real \<Rightarrow> int \<Rightarrow> string list" where
  \<comment> \<open>after the interpreter\<close>
  "vllm_command a u port =
     [''-m'', ''vllm.entrypoints.openai.api_server'', ''--model'', ga_model a, ''--port'', py_str_int port,
      ''--enable-prefix-caching'', ''--gpu-memory-utilization'', str_float u,
      ''--max-model-len'', py_str_int (ga_max_model_len a), ''--swap-space'', py_str_int (ga_swap_space_gb a),
      ''--disable-log-requests'']"

definition vllm_env :: "env \<Rightarrow> int \<Rightarrow> env" where
  "vllm_env base d = base(''CUDA_VISIBLE_DEVICES'' \<mapsto> py_str_int d)"

fun join_comma :: "string list \<Rightarrow> string" where
  "join_comma [] = []"
| "join_comma [w] = w"
| "join_comma (w # v # ws) = w @ CHR '','' # join_comma (v # ws)"

definition gateway_env :: "string \<Rightarrow> env \<Rightarrow> gpu_args \<Rightarrow> string list \<Rightarrow> string \<Rightarrow> string \<Rightarrow> env" where
  "gateway_env repo base a eps route pol =
     (base(''AGENTSERVE_BACKEND'' \<mapsto> ''vllm'',
           ''AGENTSERVE_VLLM_ENDPOINTS'' \<mapsto> join_comma eps,
           ''AGENTSERVE_VLLM_MODEL'' \<mapsto> ga_model a,
           ''AGENTSERVE_ROUTER'' \<mapsto> route,
           ''AGENTSERVE_POLICY'' \<mapsto> pol,
           ''AGENTSERVE_GPU_CACHE_TOKENS'' \<mapsto> py_str_int (ga_kv_budget_tokens a),
           ''AGENTSERVE_PIN_THRESHOLD_MS'' \<mapsto> str_number (ga_pin_threshold_ms a),
           ''AGENTSERVE_OFFLOAD_THRESHOLD_MS'' \<mapsto> str_number (ga_offload_threshold_ms a),
           ''PYTHONPATH'' \<mapsto> repo))(''AGENTSERVE_API_KEY'' := None)"

definition gateway_command :: "int \<Rightarrow> string list" where
  "gateway_command port =
     [''-m'', ''uvicorn'', ''agentserve.gateway:app'', ''--host'', ''127.0.0.1'', ''--port'', py_str_int port,
      ''--log-level'', ''warning'']"

definition local_url :: "int \<Rightarrow> string" where
  "local_url port = ''http://127.0.0.1:'' @ py_str_int port"

subsection \<open>Processes\<close>

datatype run_event =
    Started nat "string list" env
  | Interrupted nat
  | Killed nat
  | Slept real
  | Printed "string list"
  | Wrote string json
  | Log string

record host =
  h_smi :: "(py_error + string) option"
  h_starts :: "nat \<Rightarrow> bool" \<comment> \<open>the n-th process can be started\<close>
  h_exits :: "nat \<Rightarrow> bool" \<comment> \<open>it has exited by itself when it is first polled\<close>
  h_obeys :: "nat \<Rightarrow> bool" \<comment> \<open>it exits within three seconds of an interrupt\<close>
  h_clock :: "nat \<Rightarrow> clock" \<comment> \<open>of the k-th wait\<close>
  h_get :: "nat \<Rightarrow> string \<Rightarrow> answers"
  h_replay :: "string \<Rightarrow> py_error + arm_run" \<comment> \<open>of the arm with that label\<close>
  h_write :: "py_error + unit"

record run_state =
  rs_events :: "run_event list"
  rs_procs :: nat
  rs_waits :: nat
  rs_workers :: "nat list"
  rs_gateway :: "nat option"

datatype 'a flow = Next 'a | Return int | Raise py_error

definition emit :: "run_event \<Rightarrow> run_state \<Rightarrow> run_state" where
  "emit e st = st\<lparr>rs_events := rs_events st @ [e]\<rparr>"

fun started :: "run_event list \<Rightarrow> (nat \<times> string list \<times> env) list" where
  "started [] = []"
| "started (Started p cmd env # evs) = (p, cmd, env) # started evs"
| "started (_ # evs) = started evs"

fun saved :: "string \<Rightarrow> run_event list \<Rightarrow> json option" where
  \<comment> \<open>what the file holds after the events, as a JSON value\<close>
  "saved path [] = None"
| "saved path (Wrote p j # evs) =
     (case saved path evs of Some k \<Rightarrow> Some k | None \<Rightarrow> if p = path then Some j else None)"
| "saved path (_ # evs) = saved path evs"

fun printed :: "run_event list \<Rightarrow> string list list" where
  \<comment> \<open>the tables that were printed, as lists of lines\<close>
  "printed [] = []"
| "printed (Printed ls # evs) = ls # printed evs"
| "printed (_ # evs) = printed evs"

definition is_running :: "host \<Rightarrow> run_event list \<Rightarrow> nat \<Rightarrow> bool" where
  \<comment> \<open>\<open>p.poll() is None\<close>\<close>
  "is_running host evs p \<longleftrightarrow>
     p \<in> set (map fst (started evs)) \<and> \<not> h_exits host p \<and> \<not> (Interrupted p \<in> set evs \<and> h_obeys host p) \<and>
     Killed p \<notin> set evs"

definition popen :: "host \<Rightarrow> string list \<Rightarrow> env \<Rightarrow> run_state \<Rightarrow> nat flow \<times> run_state" where
  "popen host cmd env st =
     (let p = rs_procs st; st' = st\<lparr>rs_procs := Suc p\<rparr>
      in if h_starts host p then (Next p, emit (Started p cmd env) st') else (Raise OSError, st'))"

definition interrupt_one :: "host \<Rightarrow> nat \<Rightarrow> run_state \<Rightarrow> run_state" where
  "interrupt_one host p st = (if is_running host (rs_events st) p then emit (Interrupted p) st else st)"

definition kill_one :: "host \<Rightarrow> nat \<Rightarrow> run_state \<Rightarrow> run_state" where
  "kill_one host p st = (if is_running host (rs_events st) p then emit (Killed p) st else st)"

definition stop :: "host \<Rightarrow> nat list \<Rightarrow> run_state \<Rightarrow> run_state" where
  "stop host ps st = fold (kill_one host) ps (emit (Slept 3) (fold (interrupt_one host) ps st))"

definition wait_url :: "host \<Rightarrow> string \<Rightarrow> real \<Rightarrow> run_state \<Rightarrow> (bool \<times> run_state) option" where
  "wait_url host url timeout st =
     (let k = rs_waits st
      in case wait_http (h_clock host k) (h_get host k url) timeout of
           None \<Rightarrow> None
         | Some b \<Rightarrow> Some (b, st\<lparr>rs_waits := Suc k\<rparr>))"

definition worker_line :: "int \<Rightarrow> int \<Rightarrow> int \<Rightarrow> string" where
  "worker_line i d port =
     ''  worker '' @ py_str_int i @ '' -> GPU '' @ py_str_int d @ '', port '' @ py_str_int port"

fun start_workers ::
  "host \<Rightarrow> env \<Rightarrow> gpu_args \<Rightarrow> real \<Rightarrow> (int \<times> int \<times> int) list \<Rightarrow> run_state \<Rightarrow> unit flow \<times> run_state" where
  "start_workers host base a u [] st = (Next (), st)"
| "start_workers host base a u ((i, d, port) # ws) st =
     (case popen host (vllm_command a u port) (vllm_env base d) (emit (Log (worker_line i d port)) st) of
        (Next p, st') \<Rightarrow> start_workers host base a u ws (st'\<lparr>rs_workers := rs_workers st' @ [p]\<rparr>)
      | (Return k, st') \<Rightarrow> (Return k, st')
      | (Raise e, st') \<Rightarrow> (Raise e, st'))"

fun wait_workers :: "host \<Rightarrow> gpu_args \<Rightarrow> string list \<Rightarrow> run_state \<Rightarrow> (unit flow \<times> run_state) option" where
  "wait_workers host a [] st = Some (Next (), st)"
| "wait_workers host a (ep # eps) st =
     (case wait_url host (ep @ ''/health'') (ga_startup_timeout a) st of
        None \<Rightarrow> None
      | Some (up, st') \<Rightarrow>
          if up then wait_workers host a eps st'
          else Some (Return 1, emit (Log (''FAILED: '' @ ep @ '' never became healthy'')) st'))"

subsection \<open>The arms\<close>

definition arms :: "(string \<times> string \<times> string) list" where
  "arms = [(''round-robin + LRU'', ''round-robin'', ''lru''), (''AgentServe'', ''affinity'', ''adaptive'')]"

definition arm_head :: "string \<Rightarrow> string" where
  "arm_head title = ''--- arm: '' @ title @ '' ---''"

definition arm_line :: "(string, real) dict \<Rightarrow> py_error + string" where
  \<comment> \<open>what is logged of an arm's report\<close>
  "arm_line r =
     (case report_value r ''cache_hit_rate'' of Inl e \<Rightarrow> Inl e | Inr hit \<Rightarrow>
     (case report_value r ''token_reuse_rate'' of Inl e \<Rightarrow> Inl e | Inr reuse \<Rightarrow>
     (case report_value r ''p95_latency_ms'' of Inl e \<Rightarrow> Inl e | Inr p95 \<Rightarrow>
     (case report_value r ''failed'' of Inl e \<Rightarrow> Inl e | Inr failed \<Rightarrow>
      Inr (''  hit rate '' @ fmt_percent 1 hit @ '' | reuse '' @ fmt_percent 1 reuse @
           '' | p95 '' @ fmt_fixed False True 0 p95 @ '' ms | failed '' @ py_str_int (py_trunc failed))))))"

fun run_arms ::
  "host \<Rightarrow> string \<Rightarrow> env \<Rightarrow> gpu_args \<Rightarrow> string list \<Rightarrow> (string \<times> string \<times> string) list \<Rightarrow> (string, arm_run) dict
   \<Rightarrow> run_state \<Rightarrow> ((string, arm_run) dict flow \<times> run_state) option" where
  "run_arms host repo base a eps [] runs st = Some (Next runs, st)"
| "run_arms host repo base a eps ((title, route, pol) # rest) runs st =
     (case popen host (gateway_command 8299) (gateway_env repo base a eps route pol)
             (emit (Log (arm_head title)) st) of
        (Return k, st1) \<Rightarrow> Some (Return k, st1)
      | (Raise e, st1) \<Rightarrow> Some (Raise e, st1)
      | (Next p, st1) \<Rightarrow>
          (case wait_url host (local_url 8299 @ ''/health'') 90 (st1\<lparr>rs_gateway := Some p\<rparr>) of
             None \<Rightarrow> None
           | Some (up, st2) \<Rightarrow>
               if \<not> up then Some (Return 1, emit (Log ''FAILED: gateway did not start'') st2)
               else (case h_replay host title of Inl e \<Rightarrow> Some (Raise e, st2) | Inr run \<Rightarrow>
                    (case live_report run of Inl e \<Rightarrow> Some (Raise e, st2) | Inr r \<Rightarrow>
                    (case arm_line r of Inl e \<Rightarrow> Some (Raise e, st2) | Inr line \<Rightarrow>
                     run_arms host repo base a eps rest (AList.update title run runs)
                       (emit (Slept 20) (emit (Log ''  cooling down between arms'')
                         ((stop host [p] (emit (Log line) st2))\<lparr>rs_gateway := None\<rparr>))))))))"

definition run_payload ::
  "string list \<Rightarrow> gpu_args \<Rightarrow> real \<Rightarrow> nat \<Rightarrow> (string, real) dict \<Rightarrow> (string, real) dict \<Rightarrow> json" where
  "run_payload gpus a u calls b t = JDict
     [(''hardware'', JList (map JStr gpus)), (''model'', JStr (ga_model a)), (''replicas'', JInt (ga_replicas a)),
      (''share_gpu'', JBool (shares_card gpus a)), (''gpu_memory_utilization'', JFloat (Finite u)),
      (''kv_budget_tokens'', JInt (ga_kv_budget_tokens a)), (''sessions'', JInt (ga_sessions a)),
      (''concurrency'', JInt (ga_concurrency a)), (''calls_per_arm'', JInt (int calls)),
      (''baseline'', report_json b), (''agentserve'', report_json t)]"

definition verdict :: "(string, real) dict \<Rightarrow> (string, real) dict \<Rightarrow> run_state \<Rightarrow> py_error + run_state" where
  "verdict b t st =
     (case report_value t ''failed'' of Inl e \<Rightarrow> Inl e | Inr ft \<Rightarrow>
     (case report_value b ''failed'' of Inl e \<Rightarrow> Inl e | Inr fb \<Rightarrow>
     (case report_value t ''cache_hit_rate'' of Inl e \<Rightarrow> Inl e | Inr ht \<Rightarrow>
     (case report_value b ''cache_hit_rate'' of Inl e \<Rightarrow> Inl e | Inr hb \<Rightarrow>
      Inr (emit (Log (if hb < ht then ''RESULT: AgentServe improved cache hit rate on real hardware''
                      else ''RESULT: no improvement measured. Likely the KV budget is too large for the workload, '' @
                           ''lower --kv-budget-tokens or raise --sessions so the cache actually comes under pressure.''))
             (if ft \<noteq> 0 \<or> fb \<noteq> 0
              then emit (Log ''NOTE: some calls failed; treat the numbers as indicative only'') st else st))))))"

definition conclude ::
  "host \<Rightarrow> gpu_args \<Rightarrow> string list \<Rightarrow> real \<Rightarrow> nat \<Rightarrow> (string, arm_run) dict \<Rightarrow> run_state \<Rightarrow> unit flow \<times> run_state" where
  "conclude host a gpus u calls runs st =
     (case map_of runs ''round-robin + LRU'' of None \<Rightarrow> (Raise KeyError, st) | Some baseline \<Rightarrow>
     (case map_of runs ''AgentServe'' of None \<Rightarrow> (Raise KeyError, st) | Some treatment \<Rightarrow>
     (case compare_table baseline treatment of Inl e \<Rightarrow> (Raise e, st) | Inr table \<Rightarrow>
     (case live_report baseline of Inl e \<Rightarrow> (Raise e, emit (Printed table) st) | Inr b \<Rightarrow>
     (case live_report treatment of Inl e \<Rightarrow> (Raise e, emit (Printed table) st) | Inr t \<Rightarrow>
     (case h_write host of Inl e \<Rightarrow> (Raise e, emit (Printed table) st) | Inr _ \<Rightarrow>
      let written = emit (Log (''wrote '' @ ga_out a))
            (emit (Wrote (ga_out a) (run_payload gpus a u calls b t)) (emit (Printed table) st))
      in case verdict b t written of Inl e \<Rightarrow> (Raise e, written) | Inr st' \<Rightarrow> (Return 0, st')))))))"

definition starting_line :: string where
  "starting_line = ''starting vLLM workers (first run downloads the model, be patient)''"

definition trace_line :: "session_trace list \<Rightarrow> string" where
  "trace_line traces =
     ''trace: '' @ nat_digits (length traces) @ '' sessions, '' @ nat_digits (total_turns traces) @ '' calls per arm''"

definition validate_body ::
  "host \<Rightarrow> 'g rng \<Rightarrow> 'g \<Rightarrow> string \<Rightarrow> env \<Rightarrow> gpu_args \<Rightarrow> string list \<Rightarrow> real \<Rightarrow> run_state
   \<Rightarrow> (unit flow \<times> run_state) option" where
  \<comment> \<open>the \<open>try\<close> block of \<open>main\<close>\<close>
  "validate_body host api g repo base a gpus u st =
     (let eps = map (\<lambda>(i, d, port). local_url port) (gpu_placement gpus a)
      in case start_workers host base a u (gpu_placement gpus a) (emit (Log starting_line) st) of
           (Return k, st1) \<Rightarrow> Some (Return k, st1)
         | (Raise e, st1) \<Rightarrow> Some (Raise e, st1)
         | (Next _, st1) \<Rightarrow>
             (case wait_workers host a eps st1 of
                None \<Rightarrow> None
              | Some (Return k, st2) \<Rightarrow> Some (Return k, st2)
              | Some (Raise e, st2) \<Rightarrow> Some (Raise e, st2)
              | Some (Next _, st2) \<Rightarrow>
                  (case fst (generate_trace api (nat (ga_sessions a)) (ga_turns a) (ga_prompt_tokens a) 1 g) of
                     Inl e \<Rightarrow> Some (Raise e, emit (Log ''all workers healthy'') st2)
                   | Inr traces \<Rightarrow>
                       (case run_arms host repo base a eps arms []
                               (emit (Log (trace_line traces)) (emit (Log ''all workers healthy'') st2)) of
                          None \<Rightarrow> None
                        | Some (Return k, st3) \<Rightarrow> Some (Return k, st3)
                        | Some (Raise e, st3) \<Rightarrow> Some (Raise e, st3)
                        | Some (Next runs, st3) \<Rightarrow>
                            Some (conclude host a gpus u (total_turns traces) runs st3)))))"

definition fresh_run :: run_state where
  "fresh_run = \<lparr>rs_events = [], rs_procs = 0, rs_waits = 0, rs_workers = [], rs_gateway = None\<rparr>"

definition cards_line :: "string list \<Rightarrow> string" where
  "cards_line gpus = ''GPUs detected: '' @ (if gpus = [] then ''none'' else repr_strings gpus)"

definition no_card_line :: string where
  "no_card_line =
     ''No NVIDIA GPU found. This script needs one; use `python -m bench.run` '' @ ''for the simulated benchmark instead.''"

definition plan_lines :: "string list \<Rightarrow> gpu_args \<Rightarrow> real \<Rightarrow> string list" where
  "plan_lines gpus a u =
     [''model='' @ ga_model a @ '' replicas='' @ py_str_int (ga_replicas a) @
        '' share_gpu='' @ str_bool (shares_card gpus a) @ '' gpu_mem_util='' @ str_float u @
        '' kv_budget='' @ fmt_int (ga_kv_budget_tokens a),
      ''workload: '' @ py_str_int (ga_sessions a) @ '' sessions x ~'' @ py_str_int (ga_turns a) @
        '' turns, concurrency '' @ py_str_int (ga_concurrency a) @
        '', prompts ~'' @ py_str_int (ga_prompt_tokens a) @ '' tokens'']"

definition dry_run_lines :: "string list \<Rightarrow> gpu_args \<Rightarrow> string list" where
  "dry_run_lines gpus a =
     map (\<lambda>(i, d, port). ''  would start worker '' @ py_str_int i @ '' on GPU '' @ py_str_int d @ '' port '' @ py_str_int port)
       (gpu_placement gpus a) @ [''dry run complete'']"

definition log_lines :: "string list \<Rightarrow> run_state \<Rightarrow> run_state" where
  "log_lines = fold (\<lambda>s. emit (Log s))"

definition validate_main ::
  "host \<Rightarrow> 'g rng \<Rightarrow> 'g \<Rightarrow> string \<Rightarrow> env \<Rightarrow> gpu_args \<Rightarrow> (unit flow \<times> run_state) option" where
  "validate_main host api g repo base a =
     (let gpus = detect_gpus (h_smi host); st = emit (Log (cards_line gpus)) fresh_run
      in if gpus = [] \<and> \<not> ga_dry_run a then Some (Return 2, emit (Log no_card_line) st)
         else (case memory_utilization gpus a of
                 Inl e \<Rightarrow> Some (Raise e, st)
               | Inr u \<Rightarrow>
                   let st = log_lines (plan_lines gpus a u) st
                   in if ga_dry_run a then Some (Return 0, log_lines (dry_run_lines gpus a) st)
                      else (case validate_body host api g repo base a gpus u st of
                              None \<Rightarrow> None
                            | Some (out, st') \<Rightarrow>
                                Some (out, emit (Log ''stopped all processes'')
                                  (stop host (rs_workers st' @ (case rs_gateway st' of None \<Rightarrow> [] | Some p \<Rightarrow> [p])) st')))))"

subsection \<open>Every process is stopped\<close>

lemma emit_simps [simp]:
  "rs_events (emit e st) = rs_events st @ [e]" "rs_workers (emit e st) = rs_workers st"
  "rs_gateway (emit e st) = rs_gateway st"
  by (simp_all add: emit_def)

lemma started_append [simp]: "started (evs @ evs') = started evs @ started evs'"
  by (induction evs rule: started.induct) simp_all

lemma started_logs [simp]: "started (map Log ss) = []"
  by (induction ss) simp_all

lemma saved_append:
  "saved path (evs @ evs') = (case saved path evs' of Some j \<Rightarrow> Some j | None \<Rightarrow> saved path evs)"
  by (induction path evs rule: saved.induct) (simp_all split: option.split)

lemma saved_emit: "(\<nexists>p j. e = Wrote p j) \<Longrightarrow> saved path (rs_events (emit e st)) = saved path (rs_events st)"
  by (cases e) (simp_all add: saved_append)

lemma is_running_emit:
  "is_running host (evs @ [e]) p \<Longrightarrow> is_running host evs p \<or> (\<exists>cmd env. e = Started p cmd env)"
  by (cases e) (auto simp: is_running_def)

lemma is_running_started: "is_running host (evs @ [Started q cmd env]) p \<Longrightarrow> p = q \<or> is_running host evs p"
  by (auto simp: is_running_def)

definition tracked :: "host \<Rightarrow> run_state \<Rightarrow> bool" where
  \<comment> \<open>whatever runs is on the list the clean-up goes through\<close>
  "tracked host st \<longleftrightarrow>
     (\<forall>p. is_running host (rs_events st) p \<longrightarrow> p \<in> set (rs_workers st) \<or> rs_gateway st = Some p)"

lemma tracked_emit: "tracked host st \<Longrightarrow> (\<nexists>p cmd env. e = Started p cmd env) \<Longrightarrow> tracked host (emit e st)"
  unfolding tracked_def emit_simps by (metis is_running_emit)

lemma tracked_log: "tracked host st \<Longrightarrow> tracked host (emit (Log s) st)"
  by (rule tracked_emit) simp_all

lemma log_lines_emits:
  "rs_events (log_lines ss st) = rs_events st @ map Log ss" "rs_gateway (log_lines ss st) = rs_gateway st"
  "tracked host st \<Longrightarrow> tracked host (log_lines ss st)"
  unfolding log_lines_def by (induction ss arbitrary: st) (simp_all add: tracked_log)

definition calmed :: "host \<Rightarrow> run_state \<Rightarrow> run_state \<Rightarrow> bool" where
  \<comment> \<open>a clean-up step: nothing is started, and nothing that was stopped runs again\<close>
  "calmed host st st' \<longleftrightarrow>
     rs_workers st' = rs_workers st \<and> rs_gateway st' = rs_gateway st \<and>
     started (rs_events st') = started (rs_events st) \<and>
     (\<forall>p. is_running host (rs_events st') p \<longrightarrow> is_running host (rs_events st) p)"

lemma calmed_refl: "calmed host st st"
  by (simp add: calmed_def)

lemma calmed_trans: "calmed host a b \<Longrightarrow> calmed host b c \<Longrightarrow> calmed host a c"
  by (simp add: calmed_def)

lemma calmed_emit: "(\<nexists>p cmd env. e = Started p cmd env) \<Longrightarrow> calmed host st (emit e st)"
  unfolding calmed_def emit_simps by (cases e) (auto simp: is_running_def)

lemma calmed_fold:
  "(\<And>p st. calmed host st (f p st)) \<Longrightarrow> calmed host st (fold f ps st)"
  by (induction ps arbitrary: st) (auto simp: calmed_refl intro: calmed_trans)

lemma calmed_stop: "calmed host st (stop host ps st)"
proof -
  have "calmed host st (interrupt_one host p st)" "calmed host st (kill_one host p st)" for p st
    by (auto simp: interrupt_one_def kill_one_def intro: calmed_emit calmed_refl)
  then have "calmed host st (fold (interrupt_one host) ps st)" "calmed host st' (fold (kill_one host) ps st')" for st st'
    by (auto intro: calmed_fold)
  then show ?thesis unfolding stop_def by (meson calmed_emit calmed_trans run_event.distinct)
qed

lemma fold_kill: "p \<in> set ps \<Longrightarrow> \<not> is_running host (rs_events (fold (kill_one host) ps st)) p"
proof (induction ps arbitrary: st)
  case (Cons q ps)
  have step: "calmed host st' (kill_one host p st')" for st' p
    by (auto simp: kill_one_def intro: calmed_emit calmed_refl)
  show ?case
  proof (cases "p = q")
    case True
    have "\<not> is_running host (rs_events (kill_one host q st)) q" by (auto simp: kill_one_def is_running_def)
    with True calmed_fold [of host "kill_one host", OF step, of "kill_one host q st" ps] show ?thesis
      by (auto simp: calmed_def)
  next
    case False
    with Cons show ?thesis by simp
  qed
qed simp

lemma stop_stops: "p \<in> set ps \<Longrightarrow> \<not> is_running host (rs_events (stop host ps st)) p"
  unfolding stop_def by (rule fold_kill)

lemma tracked_calmed: "tracked host st \<Longrightarrow> calmed host st st' \<Longrightarrow> tracked host st'"
  by (simp add: tracked_def calmed_def)

lemma tracked_popen:
  assumes "tracked host st" "popen host cmd env st = (r, st')"
  shows "case r of Next p \<Rightarrow> tracked host (st'\<lparr>rs_workers := rs_workers st' @ [p]\<rparr>) \<and>
      (rs_gateway st = None \<longrightarrow> tracked host (st'\<lparr>rs_gateway := Some p\<rparr>)) | _ \<Rightarrow> tracked host st'"
  using assms
  by (auto simp: popen_def Let_def tracked_def emit_def split: if_splits dest!: is_running_started)

lemma tracked_start:
  "tracked host st \<Longrightarrow> start_workers host base a u ws st = (r, st') \<Longrightarrow>
     tracked host st' \<and> rs_gateway st' = rs_gateway st"
proof (induction ws arbitrary: st)
  case (Cons w ws)
  obtain i d port where w: "w = (i, d, port)" by (cases w)
  let ?st = "emit (Log (worker_line i d port)) st"
  obtain q st1 where q: "popen host (vllm_command a u port) (vllm_env base d) ?st = (q, st1)" by fastforce
  have "rs_gateway st1 = rs_gateway st" using q by (auto simp: popen_def Let_def emit_def split: if_splits)
  moreover note tracked_popen [OF tracked_log [OF Cons.prems(1)] q]
  ultimately show ?case
    using Cons.IH [of "st1\<lparr>rs_workers := rs_workers st1 @ [THE p. q = Next p]\<rparr>"] Cons.prems(2)
    by (cases q) (auto simp: w q)
qed simp

lemma wait_url_state: "wait_url host url timeout st = Some (b, st') \<Longrightarrow> st' = st\<lparr>rs_waits := Suc (rs_waits st)\<rparr>"
  by (auto simp: wait_url_def Let_def split: option.splits)

lemma tracked_waits [simp]: "tracked host (st\<lparr>rs_waits := k\<rparr>) = tracked host st"
  by (simp add: tracked_def)

lemma tracked_wait:
  "tracked host st \<Longrightarrow> wait_workers host a eps st = Some (r, st') \<Longrightarrow> tracked host st' \<and> rs_gateway st' = rs_gateway st"
proof (induction eps arbitrary: st)
  case (Cons ep eps)
  then obtain up st1 where w: "wait_url host (ep @ ''/health'') (ga_startup_timeout a) st = Some (up, st1)"
    by (auto split: option.splits)
  note st1 = wait_url_state [OF w]
  show ?case
    using Cons.IH [of st1] Cons.prems w st1 by (cases up) (auto intro!: tracked_emit)
qed simp

lemma popen_gateway: "popen host cmd env st = (r, st') \<Longrightarrow> rs_gateway st' = rs_gateway st"
  by (auto simp: popen_def Let_def emit_def split: if_splits)

lemma tracked_run_arms:
  "tracked host st \<Longrightarrow> rs_gateway st = None \<Longrightarrow> run_arms host repo base a eps plan runs st = Some (r, st') \<Longrightarrow>
     tracked host st'"
proof (induction plan arbitrary: runs st)
  case (Cons arm plan)
  obtain title route pol where arm: "arm = (title, route, pol)" by (cases arm)
  obtain q st1 where q: "popen host (gateway_command 8299) (gateway_env repo base a eps route pol)
      (emit (Log (arm_head title)) st) = (q, st1)"
    by fastforce
  note t = tracked_popen [OF tracked_log [OF Cons.prems(1)] q]
  show ?case
  proof (cases q)
    case (Next p)
    let ?st1 = "st1\<lparr>rs_gateway := Some p\<rparr>"
    from Next t Cons.prems(2) have t1: "tracked host ?st1" by simp
    obtain up st2 where w: "wait_url host (local_url 8299 @ ''/health'') 90 ?st1 = Some (up, st2)"
      using Cons.prems(3) Next by (auto simp: arm q split: option.splits)
    note st2 = wait_url_state [OF w]
    have t2: "tracked host st2" using t1 by (simp add: st2)
    show ?thesis
    proof (cases "up \<and> (\<exists>run d line. h_replay host title = Inr run \<and> live_report run = Inr d \<and> arm_line d = Inr line)")
      case False
      with Cons.prems(3) Next w t2 show ?thesis
        by (auto simp: arm q intro!: tracked_emit split: sum.splits if_splits)
    next
      case True
      then obtain run d line where run: "h_replay host title = Inr run" "live_report run = Inr d" "arm_line d = Inr line"
        by blast
      let ?st2 = "emit (Log line) st2"
      let ?st3 = "emit (Slept 20) (emit (Log ''  cooling down between arms'') ((stop host [p] ?st2)\<lparr>rs_gateway := None\<rparr>))"
      have c: "calmed host ?st2 (stop host [p] ?st2)" by (rule calmed_stop)
      have "\<not> is_running host (rs_events (stop host [p] ?st2)) p" by (rule stop_stops) simp
      with tracked_log [OF t2, of line] c have "tracked host ((stop host [p] ?st2)\<lparr>rs_gateway := None\<rparr>)"
        by (auto simp: tracked_def calmed_def st2)
      then have t3: "tracked host ?st3" by (intro tracked_emit tracked_log) simp_all
      have "run_arms host repo base a eps plan (AList.update title run runs) ?st3 = Some (r, st')"
        using True Cons.prems(3) Next w run by (simp add: arm q)
      from Cons.IH [OF t3 _ this] show ?thesis by simp
    qed
  qed (use t Cons.prems(3) in \<open>auto simp: arm q\<close>)
qed simp

lemma tracked_verdict: "tracked host st \<Longrightarrow> verdict b t st = Inr st' \<Longrightarrow> tracked host st'"
  unfolding verdict_def by (auto split: sum.splits intro!: tracked_emit)

lemma tracked_conclude:
  assumes "tracked host st" "conclude host a gpus u calls runs st = (r, st')"
  shows "tracked host st'"
proof -
  have "tracked host (emit (Printed table) st)" "tracked host (emit (Log s) (emit (Wrote path j) (emit (Printed table) st)))"
    for table path j s using assms(1) by (auto intro!: tracked_emit)
  with assms show ?thesis
    unfolding conclude_def Let_def by (auto split: option.splits sum.splits elim!: tracked_verdict [rotated])
qed

lemma tracked_body:
  assumes "validate_body host api g repo base a gpus u st0 = Some (r, st)" "tracked host st0" "rs_gateway st0 = None"
  shows "tracked host st"
proof -
  let ?eps = "map (\<lambda>(i, d, port). local_url port) (gpu_placement gpus a)"
  obtain q st1 where s: "start_workers host base a u (gpu_placement gpus a) (emit (Log starting_line) st0) = (q, st1)"
    by fastforce
  from tracked_start [OF tracked_log [OF assms(2)] s] have t1: "tracked host st1" "rs_gateway st1 = None"
    using assms(3) by simp_all
  show ?thesis
  proof (cases q)
    case (Next x)
    obtain w st2 where w: "wait_workers host a ?eps st1 = Some (w, st2)"
      using assms(1) Next s by (auto simp: validate_body_def Let_def split: option.splits)
    from tracked_wait [OF t1(1) w] have t2: "tracked host st2" "rs_gateway st2 = None" using t1(2) by simp_all
    then have t3: "tracked host (emit (Log s) (emit (Log s') st2))" "rs_gateway (emit (Log s) (emit (Log s') st2)) = None"
      for s s' by (simp_all add: tracked_log)
    show ?thesis using assms(1) Next s w t2 tracked_log [OF t2(1)]
      by (auto simp: validate_body_def Let_def split: flow.splits sum.splits option.splits
          intro: tracked_run_arms [OF t3] elim!: tracked_conclude [rotated])
  qed (use assms s t1 in \<open>auto simp: validate_body_def Let_def\<close>)
qed

text \<open>The run returns as long as the clock moves during every wait.\<close>

definition clocks_advance :: "host \<Rightarrow> bool" where
  "clocks_advance host \<longleftrightarrow> (\<forall>k. \<exists>d > 0. advancing d (h_clock host k))"

lemma wait_url_total:
  assumes "clocks_advance host"
  shows "wait_url host url timeout st =
    Some (up_in_time (h_clock host (rs_waits st)) (h_get host (rs_waits st) url) timeout, st\<lparr>rs_waits := Suc (rs_waits st)\<rparr>)"
proof -
  obtain d where "0 < d" "advancing d (h_clock host (rs_waits st))" using assms unfolding clocks_advance_def by blast
  with wait_answer(2) show ?thesis by (simp add: wait_url_def Let_def)
qed

lemma wait_workers_total: "clocks_advance host \<Longrightarrow> \<exists>r st'. wait_workers host a eps st = Some (r, st')"
  by (induction eps arbitrary: st) (auto simp: wait_url_total)

lemma run_arms_total: "clocks_advance host \<Longrightarrow> \<exists>r st'. run_arms host repo base a eps plan runs st = Some (r, st')"
proof (induction plan arbitrary: runs st)
  case (Cons arm plan)
  obtain title route pol where arm: "arm = (title, route, pol)" by (cases arm)
  from Cons show ?case by (auto simp: arm wait_url_total split: flow.split sum.split prod.split)
qed simp

lemma validate_body_total:
  assumes "clocks_advance host"
  shows "\<exists>r st'. validate_body host api g repo base a gpus u st = Some (r, st')"
proof -
  let ?eps = "map (\<lambda>(i, d, port). local_url port) (gpu_placement gpus a)"
  obtain q st1 where s: "start_workers host base a u (gpu_placement gpus a) (emit (Log starting_line) st) = (q, st1)"
    by fastforce
  obtain w st2 where w: "wait_workers host a ?eps st1 = Some (w, st2)" using wait_workers_total [OF assms] by blast
  note run_arms_total [OF assms, of repo base a ?eps arms "[]"]
  moreover have "\<exists>r st'. conclude host a gpus u calls runs st3 = (r, st')" for calls runs st3 by (rule surj_pair)
  ultimately show ?thesis using s w
    by (auto simp: validate_body_def Let_def split: flow.split sum.split option.split) (metis option.distinct(1))
qed

subsection \<open>What a run starts\<close>

abbreviation launched :: "run_state \<Rightarrow> (string list \<times> env) list" where
  "launched st \<equiv> map snd (started (rs_events st))"

definition worker_launches :: "env \<Rightarrow> gpu_args \<Rightarrow> real \<Rightarrow> (int \<times> int \<times> int) list \<Rightarrow> (string list \<times> env) list" where
  "worker_launches base a u ws = map (\<lambda>(i, d, port). (vllm_command a u port, vllm_env base d)) ws"

definition gateway_launches ::
  "string \<Rightarrow> env \<Rightarrow> gpu_args \<Rightarrow> string list \<Rightarrow> (string \<times> string \<times> string) list \<Rightarrow> (string list \<times> env) list" where
  "gateway_launches repo base a eps plan =
     map (\<lambda>(title, route, pol). (gateway_command 8299, gateway_env repo base a eps route pol)) plan"

abbreviation tables :: "run_state \<Rightarrow> string list list" where
  "tables st \<equiv> printed (rs_events st)"

lemma printed_append: "printed (evs @ evs') = printed evs @ printed evs'"
  by (induction evs rule: printed.induct) simp_all

lemma tables_emit: "(\<nexists>ls. e = Printed ls) \<Longrightarrow> tables (emit e st) = tables st"
  by (cases e) (simp_all add: printed_append)

lemma printed_logs: "printed (map Log ss) = []"
  by (induction ss) simp_all

lemma tables_log: "tables (emit (Log s) st) = tables st" "tables (log_lines ss st) = tables st"
  by (simp_all add: log_lines_emits printed_append printed_logs)

lemma tables_popen: "popen host cmd env st = (r, st') \<Longrightarrow> tables st' = tables st"
  by (auto simp: popen_def Let_def emit_def printed_append split: if_splits)

lemma tables_start: "start_workers host base a u ws st = (r, st') \<Longrightarrow> tables st' = tables st"
proof (induction ws arbitrary: st)
  case (Cons w ws)
  obtain i d port where w: "w = (i, d, port)" by (cases w)
  obtain q st1 where q: "popen host (vllm_command a u port) (vllm_env base d) (emit (Log (worker_line i d port)) st) = (q, st1)"
    by fastforce
  have "tables st1 = tables st" using tables_popen [OF q] tables_log(1) by simp
  with Cons.prems Cons.IH [of "st1\<lparr>rs_workers := rs_workers st1 @ [THE p. q = Next p]\<rparr>"] q show ?case
    by (cases q) (auto simp: w)
qed simp

lemma tables_wait: "wait_workers host a eps st = Some (r, st') \<Longrightarrow> tables st' = tables st"
proof (induction eps arbitrary: st)
  case (Cons ep eps)
  then obtain up st1 where w: "wait_url host (ep @ ''/health'') (ga_startup_timeout a) st = Some (up, st1)"
    by (auto split: option.splits)
  with Cons.IH [of st1] Cons.prems wait_url_state [OF w] show ?case by (cases up) (auto simp: printed_append)
qed simp

lemma tables_stop: "tables (stop host ps st) = tables st"
proof -
  have keep: "(\<And>p st. tables (f p st) = tables st) \<Longrightarrow> tables (fold f ps st) = tables st" for f and ps :: "nat list" and st
    by (induction ps arbitrary: st) simp_all
  have "tables (interrupt_one host p st) = tables st" "tables (kill_one host p st) = tables st" for p st
    by (simp_all add: interrupt_one_def kill_one_def printed_append)
  from keep [OF this(1)] keep [OF this(2)] show ?thesis unfolding stop_def by (simp add: printed_append)
qed

lemma launched_popen:
  "popen host cmd env st = (Next p, st') \<Longrightarrow> launched st' = launched st @ [(cmd, env)]"
  by (auto simp: popen_def Let_def emit_def split: if_splits)

lemma launched_log: "launched (emit (Log s) st) = launched st" "launched (log_lines ss st) = launched st"
  by (simp_all add: log_lines_emits)

lemma launched_start:
  "start_workers host base a u ws st = (Next (), st') \<Longrightarrow> launched st' = launched st @ worker_launches base a u ws"
proof (induction ws arbitrary: st)
  case (Cons w ws)
  obtain i d port where w: "w = (i, d, port)" by (cases w)
  with Cons.prems obtain p st1 where p: "popen host (vllm_command a u port) (vllm_env base d)
      (emit (Log (worker_line i d port)) st) = (Next p, st1)"
    "start_workers host base a u ws (st1\<lparr>rs_workers := rs_workers st1 @ [p]\<rparr>) = (Next (), st')"
    by (auto split: prod.splits flow.splits)
  with Cons.IH [OF p(2)] launched_popen [OF p(1)] launched_log show ?case by (simp add: w worker_launches_def)
qed (simp add: worker_launches_def)

lemma launched_wait: "wait_workers host a eps st = Some (r, st') \<Longrightarrow> launched st' = launched st"
proof (induction eps arbitrary: st)
  case (Cons ep eps)
  then obtain up st1 where w: "wait_url host (ep @ ''/health'') (ga_startup_timeout a) st = Some (up, st1)"
    by (auto split: option.splits)
  with Cons.IH [of st1] Cons.prems wait_url_state [OF w] show ?case by (cases up) auto
qed simp

lemma launched_run_arms:
  "run_arms host repo base a eps plan runs st = Some (Next runs', st') \<Longrightarrow>
     launched st' = launched st @ gateway_launches repo base a eps plan \<and> tables st' = tables st \<and>
     (\<exists>rs. (\<forall>(title, run) \<in> set rs. h_replay host title = Inr run) \<and> map fst rs = map fst plan \<and>
        runs' = fold (\<lambda>(title, run). AList.update title run) rs runs)"
proof (induction plan arbitrary: runs st)
  case Nil
  then show ?case by (auto simp: gateway_launches_def intro: exI [of _ "[]"])
next
  case (Cons arm plan)
  obtain title route pol where arm: "arm = (title, route, pol)" by (cases arm)
  obtain p st1 where p: "popen host (gateway_command 8299) (gateway_env repo base a eps route pol)
      (emit (Log (arm_head title)) st) = (Next p, st1)"
    using Cons.prems by (auto simp: arm split: prod.splits flow.splits)
  obtain st2 where w: "wait_url host (local_url 8299 @ ''/health'') 90 (st1\<lparr>rs_gateway := Some p\<rparr>) = Some (True, st2)"
    using Cons.prems by (auto simp: arm p split: option.splits if_splits)
  obtain run d line where run: "h_replay host title = Inr run" "live_report run = Inr d" "arm_line d = Inr line"
    using Cons.prems by (auto simp: arm p w split: sum.splits)
  define st3 where "st3 = emit (Slept 20) (emit (Log ''  cooling down between arms'')
      ((stop host [p] (emit (Log line) st2))\<lparr>rs_gateway := None\<rparr>))"
  have rest: "run_arms host repo base a eps plan (AList.update title run runs) st3 = Some (Next runs', st')"
    using Cons.prems by (simp add: arm p w run st3_def)
  have "launched st3 = launched st2"
    using calmed_stop [of host "emit (Log line) st2" "[p]"] by (simp add: st3_def calmed_def)
  also have "\<dots> = launched st @ [(gateway_command 8299, gateway_env repo base a eps route pol)]"
    using wait_url_state [OF w] launched_popen [OF p] launched_log(1) by simp
  finally have st3: "launched st3 = \<dots>" .
  have "tables st3 = tables st2" by (simp add: st3_def printed_append tables_stop)
  then have "tables st3 = tables st" using wait_url_state [OF w] tables_popen [OF p] tables_log(1) by simp
  note st3 = st3 this
  from Cons.IH [OF rest] obtain rs where rs: "\<forall>(title, run) \<in> set rs. h_replay host title = Inr run"
    "map fst rs = map fst plan" "runs' = fold (\<lambda>(title, run). AList.update title run) rs (AList.update title run runs)" by blast
  have "\<exists>rs. (\<forall>(title, run) \<in> set rs. h_replay host title = Inr run) \<and> map fst rs = map fst (arm # plan) \<and>
      runs' = fold (\<lambda>(title, run). AList.update title run) rs runs"
    by (rule exI [of _ "(title, run) # rs"]) (use rs run in \<open>simp add: arm\<close>)
  with Cons.IH [OF rest] st3 show ?case by (simp add: gateway_launches_def arm)
qed

lemma launched_conclude:
  assumes "conclude host a gpus u calls runs st = (r, st')"
  shows "launched st' = launched st \<and> r \<noteq> Return 1 \<and> r \<noteq> Return 2 \<and>
    (r = Return 0 \<longrightarrow> (\<exists>baseline treatment b t table.
       map_of runs ''round-robin + LRU'' = Some baseline \<and> map_of runs ''AgentServe'' = Some treatment \<and>
       live_report baseline = Inr b \<and> live_report treatment = Inr t \<and>
       compare_table baseline treatment = Inr table \<and> tables st' = tables st @ [table] \<and>
       saved (ga_out a) (rs_events st') = Some (run_payload gpus a u calls b t)))"
proof -
  have v: "verdict b t st = Inr st' \<Longrightarrow>
      launched st' = launched st \<and> saved path (rs_events st') = saved path (rs_events st) \<and> tables st' = tables st"
    for b t st st' path
    unfolding verdict_def by (auto split: sum.splits simp: saved_append printed_append)
  from assms show ?thesis
    unfolding conclude_def Let_def
    by (auto split: option.splits sum.splits dest!: v [where path = "ga_out a"] simp: saved_append printed_append)
qed

lemma arms_runs:
  assumes "run_arms host repo base a eps arms [] st = Some (Next runs, st')"
  obtains baseline treatment where "runs = [(''round-robin + LRU'', baseline), (''AgentServe'', treatment)]"
    "h_replay host ''round-robin + LRU'' = Inr baseline" "h_replay host ''AgentServe'' = Inr treatment"
proof -
  obtain rs where rs: "\<forall>(title, run) \<in> set rs. h_replay host title = Inr run" "map fst rs = map fst arms"
    "runs = fold (\<lambda>(title, run). AList.update title run) rs []" using launched_run_arms [OF assms(1)] by blast
  then obtain r1 r2 where r: "rs = [(''round-robin + LRU'', r1), (''AgentServe'', r2)]"
    by (auto simp: arms_def)
  then have "runs = [(''round-robin + LRU'', r1), (''AgentServe'', r2)]" using rs(3) by simp
  with rs(1) r that show thesis by simp
qed

lemma launched_stop: "launched (stop host ps st) = launched st"
  using calmed_stop [of host st ps] by (simp add: calmed_def)

lemma saved_stop: "saved path (rs_events (stop host ps st)) = saved path (rs_events st)"
proof -
  have keep: "(\<And>p st. saved path (rs_events (f p st)) = saved path (rs_events st)) \<Longrightarrow>
      saved path (rs_events (fold f ps st)) = saved path (rs_events st)" for f :: "nat \<Rightarrow> run_state \<Rightarrow> run_state" and ps st
    by (induction ps arbitrary: st) simp_all
  have "saved path (rs_events (interrupt_one host p st)) = saved path (rs_events st)"
    "saved path (rs_events (kill_one host p st)) = saved path (rs_events st)" for p st
    by (simp_all add: interrupt_one_def kill_one_def saved_emit del: emit_simps)
  from keep [OF this(1)] keep [OF this(2)] show ?thesis unfolding stop_def by (simp add: saved_emit del: emit_simps)
qed

lemma start_workers_return: "start_workers host base a u ws st \<noteq> (Return k, st')"
  by (induction ws arbitrary: st) (auto simp: popen_def Let_def split: prod.splits if_splits flow.splits)

lemma wait_workers_return: "wait_workers host a eps st = Some (Return k, st') \<Longrightarrow> k = 1"
  by (induction eps arbitrary: st) (auto split: option.splits if_splits)

lemma run_arms_return: "run_arms host repo base a eps plan runs st = Some (Return k, st') \<Longrightarrow> k = 1"
proof (induction plan arbitrary: runs st)
  case (Cons arm plan)
  obtain title route pol where "arm = (title, route, pol)" by (cases arm)
  with Cons show ?case
    by (auto simp: popen_def Let_def split: prod.splits if_splits flow.splits option.splits sum.splits)
qed simp

lemmas early_returns = start_workers_return [THEN notE] wait_workers_return run_arms_return

lemma body_not_2: "validate_body host api g repo base a gpus u st \<noteq> Some (Return 2, st')"
proof
  assume "validate_body host api g repo base a gpus u st = Some (Return 2, st')"
  then show False
    by (auto simp: validate_body_def Let_def split: prod.splits flow.splits option.splits sum.splits
        dest!: early_returns dest: launched_conclude)
qed

lemma body_success:
  assumes "validate_body host api g repo base a gpus u st0 = Some (Return 0, st)" "launched st0 = []" "tables st0 = []"
  shows "launched st = worker_launches base a u (gpu_placement gpus a) @
      gateway_launches repo base a (map (\<lambda>(i, d, port). local_url port) (gpu_placement gpus a)) arms \<and>
    (\<exists>baseline treatment b t traces table.
       fst (generate_trace api (nat (ga_sessions a)) (ga_turns a) (ga_prompt_tokens a) 1 g) = Inr traces \<and>
       h_replay host ''round-robin + LRU'' = Inr baseline \<and> h_replay host ''AgentServe'' = Inr treatment \<and>
       live_report baseline = Inr b \<and> live_report treatment = Inr t \<and>
       compare_table baseline treatment = Inr table \<and> tables st = [table] \<and>
       saved (ga_out a) (rs_events st) = Some (run_payload gpus a u (total_turns traces) b t))"
proof -
  let ?eps = "map (\<lambda>(i, d, port). local_url port) (gpu_placement gpus a)"
  obtain q st1 where s: "start_workers host base a u (gpu_placement gpus a) (emit (Log starting_line) st0) = (q, st1)"
    by fastforce
  obtain traces st2 runs st3 where st: "q = Next ()" "wait_workers host a ?eps st1 = Some (Next (), st2)"
    "fst (generate_trace api (nat (ga_sessions a)) (ga_turns a) (ga_prompt_tokens a) 1 g) = Inr traces"
    "run_arms host repo base a ?eps arms [] (emit (Log (trace_line traces)) (emit (Log ''all workers healthy'') st2)) =
       Some (Next runs, st3)"
    "conclude host a gpus u (total_turns traces) runs st3 = (Return 0, st)"
    using assms(1) s by (auto simp: validate_body_def Let_def split: flow.splits option.splits sum.splits dest!: early_returns)
  have "launched st1 = worker_launches base a u (gpu_placement gpus a)"
    using launched_start [of host base a u "gpu_placement gpus a" "emit (Log starting_line) st0" st1] s st(1) assms(2)
    by (simp add: launched_log)
  then have "launched st3 = worker_launches base a u (gpu_placement gpus a) @ gateway_launches repo base a ?eps arms"
    using launched_wait [OF st(2)] launched_run_arms [OF st(4)] launched_log(1) by simp
  moreover have "tables st3 = []"
    using tables_start [OF s] tables_wait [OF st(2)] launched_run_arms [OF st(4)] tables_log(1) assms(3)
    by (simp add: printed_append)
  ultimately show ?thesis using launched_conclude [OF st(5)] st(3) by (rule_tac arms_runs [OF st(4)]) auto
qed

subsection \<open>The gateway reads what the script wrote\<close>

lemma split_join_comma:
  "ws \<noteq> [] \<Longrightarrow> \<forall>w \<in> set ws. CHR '','' \<notin> set w \<Longrightarrow> split_comma (join_comma ws) = ws"
  by (induction ws rule: join_comma.induct) (simp_all add: split_comma_plain split_comma_first)

lemma letter_h: "\<not> is_space (CHR ''h'')"
  by (simp add: is_space_def code_def)

lemma local_url_facts:
  "local_url port \<noteq> []" "CHR '','' \<notin> set (local_url port)" "strip (local_url port) = local_url port"
proof -
  have digits: "\<forall>c \<in> set (py_str_int port). c = CHR ''-'' \<or> is_digit c"
    using nat_digits_digits by (auto simp: py_str_int_def)
  have ne: "py_str_int port \<noteq> []" using nat_digits_ends(1) by (auto simp: py_str_int_def)
  show "local_url port \<noteq> []" by (simp add: local_url_def)
  show "CHR '','' \<notin> set (local_url port)"
    using digits is_digit_facts(5) by (auto simp: local_url_def)
  have "last (py_str_int port) \<in> set (py_str_int port)" using ne by simp
  with digits have "last (py_str_int port) = CHR ''-'' \<or> is_digit (last (py_str_int port))" by blast
  moreover have "\<not> is_space (CHR ''-'')" by (simp add: is_space_def code_def)
  ultimately have "\<not> is_space (last (py_str_int port))" using is_digit_facts(1) by metis
  then show "strip (local_url port) = local_url port"
    using ne by (intro strip_id) (simp_all add: local_url_def letter_h)
qed

lemma csv_local_urls:
  assumes "env name = Some (join_comma (map local_url ports))" "ports \<noteq> []"
  shows "csv env name = map local_url ports"
proof -
  have "split_comma (join_comma (map local_url ports)) = map local_url ports"
    using assms(2) local_url_facts(2) by (intro split_join_comma) auto
  then show ?thesis
    using local_url_facts by (simp add: csv_def assms(1) rstrip_comma_id map_concat [symmetric] concat_map_singleton o_def)
qed

definition plain_number :: "number \<Rightarrow> bool" where
  \<comment> \<open>an integer, or a float that is written without an exponent\<close>
  "plain_number x =
     (case x of
        IntNum i \<Rightarrow> \<bar>i\<bar> \<le> 10 ^ 16
      | FloatNum r \<Rightarrow> (\<exists>k \<in> {1..17}. integral (r * 10 ^ k)) \<and> 1 / 10000 \<le> r \<and> r < 10 ^ 16)"

lemma py_float_str_int: "\<bar>i\<bar> \<le> 10 ^ 16 \<Longrightarrow> py_float (py_str_int i) = Some (Finite (real_of_int i))"
proof -
  assume i: "\<bar>i\<bar> \<le> 10 ^ 16"
  let ?s = "if i < 0 then ''-'' else []"
  have "py_str_int i = ?s @ point_digits False 0 (nat \<bar>i\<bar>)" by (simp add: py_str_int_def point_digits_def)
  moreover have "py_float (?s @ point_digits False 0 (nat \<bar>i\<bar>)) =
      Some ((if ?s = ''-'' then float_neg else id) (to_double_range (real (nat \<bar>i\<bar>) / 10 ^ 0)))"
    by (rule py_float_point) simp
  moreover have "to_double_range (real (nat \<bar>i\<bar>) / 10 ^ 0) = Finite (real (nat \<bar>i\<bar>) / 10 ^ 0)"
  proof (rule to_double_range_shown)
    have "real_of_int \<bar>i\<bar> \<le> real_of_int (10 ^ 16)" using i by (simp only: of_int_le_iff)
    then have "real (nat \<bar>i\<bar>) \<le> 10 ^ 16" by simp
    also have "\<dots> \<le> 10 ^ 300 + (1 :: real)" by simp
    finally show "real (nat \<bar>i\<bar>) / 10 ^ 0 \<le> 10 ^ 300 + 1" by simp
  qed simp
  ultimately show ?thesis by (simp add: float_neg_def)
qed

lemma py_float_str_number: "plain_number x \<Longrightarrow> py_float (str_number x) = Some (Finite (number_value x))"
proof (cases x)
  case (FloatNum r)
  assume "plain_number x"
  with FloatNum obtain k where "integral (r * 10 ^ k)" "1 \<le> k" "k \<le> 17" and r: "1 / 10000 \<le> r" "r < 10 ^ 16"
    by (auto simp: plain_number_def)
  moreover have "(10 :: real) ^ 16 \<le> 10 ^ 300" by simp
  with r have "\<bar>r\<bar> \<le> 10 ^ 300" by linarith
  ultimately show ?thesis using str_float_reads_back FloatNum by (simp add: str_number_def)
qed (simp add: str_number_def plain_number_def py_float_str_int)

lemma parsed_not_blank: "py_float s = Some v \<Longrightarrow> \<not> blank (Some s)" "py_int s = Some i \<Longrightarrow> \<not> blank (Some s)"
proof -
  have "py_decimal [] = None" by (simp add: py_decimal_def digit_run_def optional_digits_def digit_count_def)
  then show "py_float s = Some v \<Longrightarrow> \<not> blank (Some s)" by (auto simp: blank_def py_float_def lower_def)
  show "py_int s = Some i \<Longrightarrow> \<not> blank (Some s)" by (auto simp: blank_def py_int_def)
qed

subsection \<open>Properties\<close>

text \<open>
  C10: The validation script leaves nothing running. If the clock moves during its waits the script
  ends, and whichever way it ends (a card is missing, a process cannot be started, a worker or
  the gateway never becomes healthy, a replay or the file fails, or all is well) every process
  it has started has exited: by itself, on its interrupt, or killed.
\<close>

theorem validation_leaves_nothing_running:
  assumes "clocks_advance host"
  shows "\<exists>out st. validate_main host api g repo base a = Some (out, st) \<and> (\<forall>p. \<not> is_running host (rs_events st) p)"
proof -
  let ?gpus = "detect_gpus (h_smi host)"
  show ?thesis
  proof (cases "(?gpus = [] \<and> \<not> ga_dry_run a) \<or> ga_dry_run a \<or> (\<exists>e. memory_utilization ?gpus a = Inl e)")
    case True
    then obtain out st where "validate_main host api g repo base a = Some (out, st)" "started (rs_events st) = []"
      by (cases "?gpus = [] \<and> \<not> ga_dry_run a"; cases "memory_utilization ?gpus a")
        (auto simp: validate_main_def Let_def log_lines_emits fresh_run_def)
    then show ?thesis by (auto simp: is_running_def)
  next
    case False
    then obtain u where u: "memory_utilization ?gpus a = Inr u" by (cases "memory_utilization ?gpus a") auto
    let ?st = "log_lines (plan_lines ?gpus a u) (emit (Log (cards_line ?gpus)) fresh_run)"
    have fresh: "tracked host ?st" "rs_gateway ?st = None"
      by (simp_all add: tracked_def log_lines_emits is_running_def fresh_run_def)
    obtain r st where b: "validate_body host api g repo base a ?gpus u ?st = Some (r, st)"
      using validate_body_total [OF assms, of api g repo base a ?gpus u ?st] by blast
    let ?all = "rs_workers st @ (case rs_gateway st of None \<Rightarrow> [] | Some p \<Rightarrow> [p])"
    let ?final = "emit (Log ''stopped all processes'') (stop host ?all st)"
    have "\<not> is_running host (rs_events ?final) p" for p
    proof
      assume "is_running host (rs_events ?final) p"
      then have p: "is_running host (rs_events (stop host ?all st)) p" using is_running_emit by fastforce
      with calmed_stop [of host st ?all] have "is_running host (rs_events st) p" by (simp add: calmed_def)
      with tracked_body [OF b fresh] have "p \<in> set ?all" by (auto simp: tracked_def)
      with p stop_stops show False by blast
    qed
    with False u b show ?thesis by (auto simp: validate_main_def Let_def)
  qed
qed

definition quiet_run :: arm_run where
  "quiet_run = \<lparr>ar_label = ''arm'', ar_calls = [], ar_session_ms = [], ar_wall_ms = 1000\<rparr>"

definition demo_host :: host where
  \<comment> \<open>everything comes up at once and ignores its interrupt\<close>
  "demo_host =
     \<lparr>h_smi = Some (Inr ''Tesla T4, 15360 MiB''), h_starts = (\<lambda>p. True), h_exits = (\<lambda>p. False), h_obeys = (\<lambda>p. False),
      h_clock = (\<lambda>k n. 2 * real n), h_get = (\<lambda>k url n. Inr 200), h_replay = (\<lambda>title. Inr quiet_run), h_write = Inr ()\<rparr>"

lemma demo_clocks: "clocks_advance demo_host"
  unfolding clocks_advance_def by (intro allI exI [of _ 2]) (simp add: demo_host_def advancing_def)

lemma validation_leaves_nothing_running_witness:
  "\<exists>out st. validate_main demo_host fixed_rng () ''/repo'' (\<lambda>name. None) default_gpu_args = Some (out, st) \<and>
     (\<forall>p. \<not> is_running demo_host (rs_events st) p)"
  by (rule validation_leaves_nothing_running [OF demo_clocks])

text \<open>
  C33: The script's exit status and its experiment. Status 2 means that there is no card and no dry
  run; a dry run, and a machine without cards, start no process, and a dry run prints the plan a real
  run would follow, worker by worker, and no table. When a real run, one that is not a dry run, succeeds it has
  started exactly the planned workers and then one gateway for each arm, on the same endpoints,
  the first with round-robin routing and LRU eviction and the second with affinity and the
  adaptive policy; it has printed one table, the comparison of the first replay as the baseline with the second
  as the treatment, and the file it wrote holds the reports of those two replays.
\<close>

theorem validation_runs_the_two_arms:
  assumes "validate_main host api g repo base a = Some (out, st)"
  shows "(out = Return 2 \<longleftrightarrow> detect_gpus (h_smi host) = [] \<and> \<not> ga_dry_run a) \<and>
    (ga_dry_run a \<or> detect_gpus (h_smi host) = [] \<longrightarrow> started (rs_events st) = [] \<and> printed (rs_events st) = []) \<and>
    (out = Return 0 \<and> ga_dry_run a \<longrightarrow>
      (\<exists>before. rs_events st =
         before @ map Log (map (\<lambda>(i, d, port). ''  would start worker '' @ py_str_int i @ '' on GPU '' @ py_str_int d @
             '' port '' @ py_str_int port) (gpu_placement (detect_gpus (h_smi host)) a) @ [''dry run complete'']))) \<and>
    (out = Return 0 \<and> \<not> ga_dry_run a \<longrightarrow>
      (\<exists>u. memory_utilization (detect_gpus (h_smi host)) a = Inr u \<and>
         map snd (started (rs_events st)) =
           map (\<lambda>(i, d, port). (vllm_command a u port, vllm_env base d)) (gpu_placement (detect_gpus (h_smi host)) a) @
           map (\<lambda>(route, pol). (gateway_command 8299, gateway_env repo base a
                (map (\<lambda>(i, d, port). local_url port) (gpu_placement (detect_gpus (h_smi host)) a)) route pol))
             [(''round-robin'', ''lru''), (''affinity'', ''adaptive'')] \<and>
         (\<exists>baseline treatment b t traces table.
            fst (generate_trace api (nat (ga_sessions a)) (ga_turns a) (ga_prompt_tokens a) 1 g) = Inr traces \<and>
            h_replay host ''round-robin + LRU'' = Inr baseline \<and> h_replay host ''AgentServe'' = Inr treatment \<and>
            live_report baseline = Inr b \<and> live_report treatment = Inr t \<and>
            compare_table baseline treatment = Inr table \<and> printed (rs_events st) = [table] \<and>
            saved (ga_out a) (rs_events st) =
              Some (run_payload (detect_gpus (h_smi host)) a u (total_turns traces) b t))))"
proof -
  let ?gpus = "detect_gpus (h_smi host)"
  show ?thesis
  proof (cases "(?gpus = [] \<and> \<not> ga_dry_run a) \<or> ga_dry_run a \<or> (\<exists>e. memory_utilization ?gpus a = Inl e)")
    case True
    with assms have "(out = Return 2 \<longleftrightarrow> ?gpus = [] \<and> \<not> ga_dry_run a) \<and> started (rs_events st) = [] \<and>
        tables st = [] \<and>
        (out = Return 0 \<longrightarrow> ga_dry_run a \<and> (\<exists>before. rs_events st = before @ map Log (dry_run_lines ?gpus a)))"
      by (cases "?gpus = [] \<and> \<not> ga_dry_run a"; cases "memory_utilization ?gpus a")
        (auto simp: validate_main_def Let_def tables_log log_lines_emits fresh_run_def printed_append printed_logs)
    then show ?thesis unfolding dry_run_lines_def by blast
  next
    case False
    then obtain u where u: "memory_utilization ?gpus a = Inr u" by (cases "memory_utilization ?gpus a") auto
    let ?st = "log_lines (plan_lines ?gpus a u) (emit (Log (cards_line ?gpus)) fresh_run)"
    have fresh: "launched ?st = []" "tables ?st = []" by (simp_all add: log_lines_emits fresh_run_def printed_append printed_logs)
    obtain st' where b: "validate_body host api g repo base a ?gpus u ?st = Some (out, st')"
      and st: "st = emit (Log ''stopped all processes'')
        (stop host (rs_workers st' @ (case rs_gateway st' of None \<Rightarrow> [] | Some p \<Rightarrow> [p])) st')"
      using assms False u by (auto simp: validate_main_def Let_def split: option.splits)
    have "out \<noteq> Return 2" using b body_not_2 [of host api g repo base a ?gpus u ?st st'] by blast
    moreover have "launched st = launched st'" "saved (ga_out a) (rs_events st) = saved (ga_out a) (rs_events st')"
      "tables st = tables st'"
      unfolding st by (simp_all add: launched_log launched_stop saved_append saved_stop tables_stop printed_append)
    ultimately show ?thesis
      using False u body_success [OF _ fresh, of host api g repo base a ?gpus u st'] b
      by (fastforce simp: worker_launches_def gateway_launches_def arms_def)
  qed
qed

lemma demo_wait: "2 < timeout \<Longrightarrow> wait_url demo_host url timeout st = Some (True, st\<lparr>rs_waits := Suc (rs_waits st)\<rparr>)"
  by (simp add: wait_url_total [OF demo_clocks] up_in_time_def) (auto simp: demo_host_def intro!: exI [of _ 0])

lemma quiet_report: "live_report quiet_run = Inr (report_entries quiet_run 0 0 0 0)"
  by (simp add: live_report_def quiet_run_def ok_calls_def distinct_replicas_def set_size_def percentile_def)

lemma validation_runs_the_two_arms_witness:
  "\<exists>st. validate_main demo_host fixed_rng () ''/repo'' (\<lambda>name. None)
       (default_gpu_args\<lparr>ga_replicas := 1, ga_sessions := 0\<rparr>) = Some (Return 0, st) \<and>
     length (started (rs_events st)) = 3 \<and> (\<exists>table. compare_table quiet_run quiet_run = Inr table \<and> printed (rs_events st) = [table])"
proof -
  define a where "a = default_gpu_args\<lparr>ga_replicas := 1, ga_sessions := 0\<rparr>"
  have smi: "detect_gpus (h_smi demo_host) = [''Tesla T4, 15360 MiB'']"
    by (simp only: demo_host_def host.simps) code_simp
  have plan: "gpu_placement [''Tesla T4, 15360 MiB''] a = [(0, 0, 8300)]"
    by (simp add: a_def default_gpu_args_def gpu_placement_def shares_card_def card_count_def)
  have util: "\<exists>u. memory_utilization [''Tesla T4, 15360 MiB''] a = Inr u"
    by (simp add: a_def default_gpu_args_def memory_utilization_def shares_card_def card_count_def)
  then obtain u where u: "memory_utilization [''Tesla T4, 15360 MiB''] a = Inr u" ..
  obtain table where table: "compare_table quiet_run quiet_run = Inr table"
    using compare_table_total [OF quiet_report quiet_report] by blast
  have starts: "popen demo_host cmd env st = (Next (rs_procs st), emit (Started (rs_procs st) cmd env) (st\<lparr>rs_procs := Suc (rs_procs st)\<rparr>))"
    for cmd env st by (simp add: popen_def demo_host_def Let_def)
  have replay: "h_replay demo_host title = Inr quiet_run" "h_write demo_host = Inr ()" for title by (simp_all add: demo_host_def)
  have trace: "fst (generate_trace fixed_rng (nat (ga_sessions a)) (ga_turns a) (ga_prompt_tokens a) 1 ()) = Inr []"
    by (simp add: a_def generate_trace_def)
  have line: "arm_line (report_entries quiet_run 0 0 0 0) \<noteq> Inl e" for e
    by (simp add: arm_line_def report_entries_def report_value_def Let_def)
  have verdict: "verdict (report_entries quiet_run 0 0 0 0) (report_entries quiet_run 0 0 0 0) st \<noteq> Inl e" for st e
    by (simp add: verdict_def report_entries_def report_value_def Let_def)
  have "ga_startup_timeout a = 900" "\<not> ga_dry_run a" by (simp_all add: a_def default_gpu_args_def)
  then have "\<exists>st. validate_main demo_host fixed_rng () ''/repo'' (\<lambda>name. None) a = Some (Return 0, st)"
    by (auto simp: line verdict validate_main_def validate_body_def smi plan u trace starts demo_wait arms_def replay quiet_report
        conclude_def table Let_def split: sum.split)
  then obtain st where st: "validate_main demo_host fixed_rng () ''/repo'' (\<lambda>name. None) a = Some (Return 0, st)" ..
  from validation_runs_the_two_arms [OF st] \<open>\<not> ga_dry_run a\<close> have "length (map snd (started (rs_events st))) = 3"
    "\<exists>table. compare_table quiet_run quiet_run = Inr table \<and> printed (rs_events st) = [table]"
    by (auto simp: smi plan replay)
  with st show ?thesis by (auto simp: a_def)
qed

text \<open>
  C21: The gateway reads exactly what the script wrote. In an environment without gateway variables
  of its own, with positive budgets and thresholds in order, the settings the gateway loads from
  the environment it is started with are the defaults except for the vLLM backend, one replica
  per worker at the worker's address, the model, the token budget, the thresholds, and the
  routing and eviction of the arm: the arms differ in nothing else.
\<close>

theorem gateway_reads_what_the_script_wrote:
  assumes unset: "\<forall>suffix. base (''AGENTSERVE_'' @ suffix) = None"
    and ports: "ports \<noteq> []" and budget: "0 < ga_kv_budget_tokens a"
    and plain: "plain_number (ga_pin_threshold_ms a)" "plain_number (ga_offload_threshold_ms a)"
    and order: "0 < number_value (ga_pin_threshold_ms a)"
      "number_value (ga_pin_threshold_ms a) < number_value (ga_offload_threshold_ms a)"
    and arm: "(route, pol) \<in> {(''round-robin'', ''lru''), (''affinity'', ''adaptive'')}"
  shows "load_settings (gateway_env repo base a (map local_url ports) route pol) =
    Inr (default_settings\<lparr>set_backend := ''vllm'', set_router := route, set_policy := pol,
      vllm_endpoints := map local_url ports, vllm_model := ga_model a,
      set_cluster :=
        \<lparr>ec_replicas = int (length ports),
         ec_hardware = default_hardware\<lparr>gpu_cache_tokens := ga_kv_budget_tokens a\<rparr>,
         ec_policy = \<lparr>ep_pin = Finite (number_value (ga_pin_threshold_ms a)),
                      ep_offload = Finite (number_value (ga_offload_threshold_ms a)),
                      ep_dead = Finite 600000, ep_queue_limit = 6\<rparr>,
         ec_predictor = \<lparr>en_alpha = Finite (3 / 10), en_prior = Finite 5000, en_min_obs = 2\<rparr>\<rparr>\<rparr>)"
proof -
  define env where "env = gateway_env repo base a (map local_url ports) route pol"
  have set: "env ''AGENTSERVE_BACKEND'' = Some ''vllm''"
    "env ''AGENTSERVE_VLLM_ENDPOINTS'' = Some (join_comma (map local_url ports))"
    "env ''AGENTSERVE_VLLM_MODEL'' = Some (ga_model a)"
    "env ''AGENTSERVE_ROUTER'' = Some route" "env ''AGENTSERVE_POLICY'' = Some pol"
    "env ''AGENTSERVE_GPU_CACHE_TOKENS'' = Some (py_str_int (ga_kv_budget_tokens a))"
    "env ''AGENTSERVE_PIN_THRESHOLD_MS'' = Some (str_number (ga_pin_threshold_ms a))"
    "env ''AGENTSERVE_OFFLOAD_THRESHOLD_MS'' = Some (str_number (ga_offload_threshold_ms a))"
    "env ''AGENTSERVE_API_KEY'' = None"
    by (simp_all add: env_def gateway_env_def)
  have none: "base name = None" if "name \<in> {''AGENTSERVE_DRAM_CACHE_TOKENS'', ''AGENTSERVE_DEAD_SESSION_MS'',
      ''AGENTSERVE_AFFINITY_QUEUE_LIMIT'', ''AGENTSERVE_EWMA_ALPHA'', ''AGENTSERVE_PREDICTOR_PRIOR_MS'',
      ''AGENTSERVE_PREDICTOR_MIN_OBS'', ''AGENTSERVE_VLLM_TIMEOUT_S'', ''AGENTSERVE_VLLM_MAX_RETRIES'',
      ''AGENTSERVE_SESSION_TTL_S'', ''AGENTSERVE_MAX_SESSIONS'', ''AGENTSERVE_REDIS_URL'', ''AGENTSERVE_TOKENIZER''}" for name
    using unset that by (elim insertE emptyE) (metis append_Cons append_Nil)+
  have unset': "env ''AGENTSERVE_DRAM_CACHE_TOKENS'' = None" "env ''AGENTSERVE_DEAD_SESSION_MS'' = None"
    "env ''AGENTSERVE_AFFINITY_QUEUE_LIMIT'' = None" "env ''AGENTSERVE_EWMA_ALPHA'' = None"
    "env ''AGENTSERVE_PREDICTOR_PRIOR_MS'' = None" "env ''AGENTSERVE_PREDICTOR_MIN_OBS'' = None"
    "env ''AGENTSERVE_VLLM_TIMEOUT_S'' = None" "env ''AGENTSERVE_VLLM_MAX_RETRIES'' = None"
    "env ''AGENTSERVE_SESSION_TTL_S'' = None" "env ''AGENTSERVE_MAX_SESSIONS'' = None"
    "env ''AGENTSERVE_REDIS_URL'' = None" "env ''AGENTSERVE_TOKENIZER'' = None"
    by (simp_all add: env_def gateway_env_def none)
  have words: "lower (strip ''vllm'') = ''vllm''" "lower (strip ''round-robin'') = ''round-robin''"
    "lower (strip ''lru'') = ''lru''" "lower (strip ''affinity'') = ''affinity''" "lower (strip ''adaptive'') = ''adaptive''"
    by code_simp+
  have choices: "env_choice env ''AGENTSERVE_BACKEND'' ''simulated'' = ''vllm''"
    "env_choice env ''AGENTSERVE_ROUTER'' ''affinity'' = route" "env_choice env ''AGENTSERVE_POLICY'' ''adaptive'' = pol"
    using arm words by (auto simp: env_choice_def set)
  note csv = csv_local_urls [of env, OF set(2) ports]
  note floats = py_float_str_number [OF plain(1)] py_float_str_number [OF plain(2)]
  note filled = parsed_not_blank(1) [OF floats(1)] parsed_not_blank(1) [OF floats(2)]
    parsed_not_blank(2) [OF py_int_str [of "ga_kv_budget_tokens a"]]
  have "load_hardware env = Inr (default_hardware\<lparr>gpu_cache_tokens := ga_kv_budget_tokens a\<rparr>)"
    using budget filled(3) by (simp add: load_hardware_Inr read_int_def set unset' py_int_str blank_def default_hardware_def)
  moreover have "load_policy env = Inr \<lparr>ep_pin = Finite (number_value (ga_pin_threshold_ms a)),
      ep_offload = Finite (number_value (ga_offload_threshold_ms a)), ep_dead = Finite 600000, ep_queue_limit = 6\<rparr>"
    using order filled(1,2) floats
    by (simp add: load_policy_Inr read_float_def read_int_def set unset' blank_def)
  moreover have "load_predictor env = Inr \<lparr>en_alpha = Finite (3 / 10), en_prior = Finite 5000, en_min_obs = 2\<rparr>"
    by (simp add: load_predictor_Inr read_float_def read_int_def unset' blank_def)
  ultimately show ?thesis
    using arm ports order(2)
    by (simp add: env_def [symmetric] load_settings_Inr load_cluster_Inr choices csv default_settings_def
        env_text_def env_optional_def set unset' read_float_def read_int_def blank_def) auto
qed

lemma gateway_reads_what_the_script_wrote_witness:
  "\<exists>s. load_settings (gateway_env ''/repo'' (\<lambda>name. None) default_gpu_args (map local_url [8300, 8301]) ''affinity'' ''adaptive'') =
     Inr s \<and> set_router s = ''affinity'' \<and> length (vllm_endpoints s) = 2 \<and> ec_replicas (set_cluster s) = 2"
  using gateway_reads_what_the_script_wrote [of "\<lambda>name. None" "[8300, 8301]" default_gpu_args "''affinity''" "''adaptive''" "''/repo''"]
  by (simp add: default_gpu_args_def plain_number_def)

text \<open>
  C34: What up to a thousand workers claim of a card with the default plan, in every case. When every worker has a card
  of its own, no card is claimed beyond four fifths. When all the workers share the only card they claim
  four fifths of it together, give or take 1/2000 of the card for each worker: the share of a
  worker is rounded to three decimals, so that for instance three workers claim 0.801. On a machine with
  several cards the packed workers all go to card 0, but each claims as if they were spread over all the
  cards: two or more of them claim more than the whole card together, and a single one claims 0.85 of it.
  No other card is claimed at all by packed workers.
\<close>

theorem packed_workers_overcommit_the_first_card:
  assumes default_plan: "ga_gpu_memory_utilization a = None" "memory_utilization gpus a = Inr u"
    and replicas: "1 \<le> ga_replicas a" "ga_replicas a \<le> 1000"
  shows "(\<not> shares_card gpus a \<longrightarrow> (\<forall>d. card_claim gpus a u d \<le> 80 / 100)) \<and>
    (shares_card gpus a \<and> card_count gpus = 1 \<longrightarrow>
       \<bar>card_claim gpus a u 0 - 80 / 100\<bar> \<le> real_of_int (ga_replicas a) / 2000) \<and>
    (shares_card gpus a \<and> 2 \<le> card_count gpus \<longrightarrow>
       (if ga_replicas a = 1 then card_claim gpus a u 0 = 85 / 100 else 1 < card_claim gpus a u 0)) \<and>
    (shares_card gpus a \<longrightarrow> (\<forall>d. d \<noteq> 0 \<longrightarrow> card_claim gpus a u d = 0))"
proof -
  let ?r = "real_of_int (ga_replicas a)" and ?n = "real_of_int (card_count gpus)"
  have r: "1 \<le> ?r" "?r \<le> 1000" using replicas by simp_all
  have n: "1 \<le> card_count gpus" by (simp add: card_count_def)
  have near: "\<bar>round3 x - x\<bar> \<le> 1 / 2000" for x
    using py_round_near [of "x * 1000"] by (simp add: round3_def abs_le_iff field_simps)
  have packed: "u = round3 (min (85 / 100) (80 / 100 * ?n / ?r))" if "shares_card gpus a"
    using default_plan that r n by (auto simp: memory_utilization_def Let_def field_simps split: if_splits)
  have count: "length (filter (\<lambda>w. fst (snd w) = d) (gpu_placement gpus a)) = (if d = 0 then nat (ga_replicas a) else 0)"
    if "shares_card gpus a" for d using that by (simp add: gpu_placement_def filter_map o_def)
  have "card_claim gpus a u d \<le> 80 / 100" if "\<not> shares_card gpus a" for d
  proof -
    have few: "ga_replicas a \<le> card_count gpus" using that by (simp add: shares_card_def)
    have "filter (\<lambda>i. i mod card_count gpus = d) [0..ga_replicas a - 1] = filter (\<lambda>i. i = d) [0..ga_replicas a - 1]"
      using few by (intro filter_cong) auto
    moreover have "length (filter (\<lambda>i. i = d) [0..ga_replicas a - 1]) \<le> 1"
      using distinct_card [of "filter (\<lambda>i. i = d) [0..ga_replicas a - 1]"] card_mono [of "{d}" "set (filter (\<lambda>i. i = d) [0..ga_replicas a - 1])"]
      by (auto simp: distinct_filter)
    ultimately have few: "real (length (filter (\<lambda>w. fst (snd w) = d) (gpu_placement gpus a))) \<le> 1"
      using that by (simp add: gpu_placement_def filter_map o_def)
    have u: "u = 80 / 100"
    proof -
      have "u = round3 (80 / 100)" using default_plan that by (auto simp: memory_utilization_def Let_def)
      moreover have "py_round (real_of_int 800) = 800" by (rule py_round_of_int)
      ultimately show ?thesis by (simp add: round3_def)
    qed
    have "real (length (filter (\<lambda>w. fst (snd w) = d) (gpu_placement gpus a))) * (80 / 100) \<le> 1 * (80 / 100)"
      using few by (rule mult_right_mono) simp
    then show ?thesis by (simp only: card_claim_def u mult_1)
  qed
  moreover have "\<bar>card_claim gpus a u 0 - 80 / 100\<bar> \<le> ?r / 2000" if "shares_card gpus a" "card_count gpus = 1"
  proof -
    have "card_claim gpus a u 0 = ?r * u" using r count [OF that(1), of 0] replicas by (simp add: card_claim_def)
    moreover have "\<bar>?r * u - 80 / 100\<bar> \<le> ?r / 2000"
    proof -
      have "80 / 100 * ?n / ?r = 80 / 100 / ?r" using that(2) by simp
      moreover have "80 / 100 / ?r \<le> 85 / 100" using r by (simp add: divide_le_eq)
      ultimately have "min (85 / 100) (80 / 100 * ?n / ?r) = 80 / 100 / ?r" by (simp only: min_absorb2)
      then have "\<bar>u - 80 / 100 / ?r\<bar> \<le> 1 / 2000"
        using packed [OF that(1)] near [of "80 / 100 / ?r"] by simp
      then have "?r * \<bar>u - 80 / 100 / ?r\<bar> \<le> ?r * (1 / 2000)" using r by (intro mult_left_mono) simp_all
      moreover have "?r * u - 80 / 100 = ?r * (u - 80 / 100 / ?r)" using r by (simp add: right_diff_distrib)
      ultimately show ?thesis using r by (simp add: abs_mult)
    qed
    ultimately show ?thesis by simp
  qed
  moreover have "card_claim gpus a u 0 = 85 / 100" if "shares_card gpus a" "2 \<le> card_count gpus" "ga_replicas a = 1"
  proof -
    have "py_round (real_of_int 850) = 850" by (rule py_round_of_int)
    moreover have "min (85 / 100) (80 / 100 * ?n / ?r) = 85 / 100" using that by simp
    ultimately have "u = 85 / 100" using packed [OF that(1)] by (simp add: round3_def)
    then show ?thesis using count [OF that(1), of 0] that(3) by (simp add: card_claim_def)
  qed
  moreover have "card_claim gpus a u d = 0" if "shares_card gpus a" "d \<noteq> 0" for d
    using count [OF that(1), of d] that(2) by (simp add: card_claim_def)
  moreover have "1 < card_claim gpus a u 0" if "shares_card gpus a" "2 \<le> card_count gpus" "2 \<le> ga_replicas a"
  proof -
    have r2: "2 \<le> ?r" and n2: "2 \<le> ?n" using that by simp_all
    have "min (85 / 100) (80 / 100 * ?n / ?r) - 1 / 2000 \<le> u"
      using packed [OF that(1)] near [of "min (85 / 100) (80 / 100 * ?n / ?r)"] by linarith
    then have "?r * (min (85 / 100) (80 / 100 * ?n / ?r) - 1 / 2000) \<le> ?r * u" using r by (intro mult_left_mono) simp_all
    moreover have "1 < ?r * (min (85 / 100) (80 / 100 * ?n / ?r) - 1 / 2000)"
      using r r2 n2 by (simp add: min_def field_simps)
    ultimately have "1 < ?r * u" by (rule less_le_trans [rotated])
    then show ?thesis using count [OF that(1), of 0] replicas by (simp add: card_claim_def)
  qed
  moreover have "ga_replicas a = 1 \<or> 2 \<le> ga_replicas a" using replicas by linarith
  ultimately show ?thesis by auto
qed

lemma packed_workers_overcommit_the_first_card_witness:
  "1 < card_claim [''Tesla T4'', ''Tesla T4''] (default_gpu_args\<lparr>ga_replicas := 4\<rparr>) (4 / 10) 0"
proof -
  have "py_round (real_of_int 400) = 400" by (rule py_round_of_int)
  then have "memory_utilization [''Tesla T4'', ''Tesla T4''] (default_gpu_args\<lparr>ga_replicas := 4\<rparr>) = Inr (4 / 10)"
    by (simp add: memory_utilization_def shares_card_def card_count_def default_gpu_args_def round3_def)
  with packed_workers_overcommit_the_first_card [of "default_gpu_args\<lparr>ga_replicas := 4\<rparr>" "[''Tesla T4'', ''Tesla T4'']" "4 / 10"]
  show ?thesis by (simp add: shares_card_def card_count_def default_gpu_args_def)
qed

end
