(* ===== verification/Notebook.thy ===== *)
theory Notebook
  imports Gpu_Validate
begin

section \<open>The notebook\<close>

text \<open>
  \<open>notebooks/gpu_validation.ipynb\<close>: the command lines of its cells, as the options the validation
  script parses from them, and the cell that reads the result, with the f-strings it prints. The
  set-up cells (\<open>pip\<close>, \<open>git\<close>, \<open>nvidia-smi\<close>, \<open>pytest\<close>) run other programs and are not modelled. The file is
  the JSON value the script wrote to it; \<open>json.load\<close> gives that value back.
\<close>

subsection \<open>The command cells\<close>

definition dry_run_cell :: gpu_args where
  "dry_run_cell = default_gpu_args\<lparr>ga_dry_run := True, ga_replicas := 2\<rparr>"

definition kaggle_cell :: gpu_args where
  "kaggle_cell = default_gpu_args
     \<lparr>ga_model := ''Qwen/Qwen2.5-0.5B-Instruct'', ga_replicas := 2, ga_sessions := 24, ga_turns := 10,
      ga_concurrency := 8, ga_prompt_tokens := 1200, ga_kv_budget_tokens := 30000, ga_out := ''gpu_validation.json''\<rparr>"

definition colab_cell :: gpu_args where
  "colab_cell = default_gpu_args
     \<lparr>ga_model := ''Qwen/Qwen2.5-0.5B-Instruct'', ga_replicas := 2, ga_share_gpu := True, ga_max_model_len := 4096,
      ga_sessions := 16, ga_turns := 8, ga_concurrency := 6, ga_prompt_tokens := 900, ga_kv_budget_tokens := 20000,
      ga_out := ''gpu_validation.json''\<rparr>"

subsection \<open>Formatting a JSON value\<close>

fun float_text :: "(real \<Rightarrow> string) \<Rightarrow> pyfloat \<Rightarrow> string" where
  "float_text show (Finite x) = show x"
| "float_text show NaN = ''nan''"
| "float_text show PosInf = ''inf''"
| "float_text show NegInf = ''-inf''"

fun json_repr :: "json \<Rightarrow> string" where
  "json_repr JNull = ''None''"
| "json_repr (JBool b) = str_bool b"
| "json_repr (JInt i) = py_str_int i"
| "json_repr (JFloat x) = float_text str_float x"
| "json_repr (JStr s) = py_repr s"
| "json_repr (JList xs) = ''['' @ comma_separated (map json_repr xs) @ '']''"
| "json_repr (JDict d) = ''{'' @ comma_separated (map (\<lambda>(k, v). py_repr k @ '': '' @ json_repr v) d) @ ''}''"

definition json_str :: "json \<Rightarrow> string" where
  \<comment> \<open>an empty format specification: \<open>str(x)\<close>\<close>
  "json_str v = (case v of JStr s \<Rightarrow> s | _ \<Rightarrow> json_repr v)"

definition json_number :: "json \<Rightarrow> py_error + pyfloat" where
  \<comment> \<open>the number a float format shows\<close>
  "json_number v =
     (case v of
        JBool b \<Rightarrow> Inr (Finite (if b then 1 else 0))
      | JInt i \<Rightarrow> (case to_double_range (real_of_int i) of Finite x \<Rightarrow> Inr (Finite x) | _ \<Rightarrow> Inl OverflowError)
      | JFloat x \<Rightarrow> Inr x
      | JStr s \<Rightarrow> Inl ValueError
      | _ \<Rightarrow> Inl TypeError)"

definition as_text :: "json \<Rightarrow> py_error + string" where
  "as_text v = Inr (json_str v)"

definition as_percent :: "json \<Rightarrow> py_error + string" where
  \<comment> \<open>\<open>{v:.1%}\<close>\<close>
  "as_percent v =
     (case json_number v of
        Inl e \<Rightarrow> Inl e
      | Inr (Finite x) \<Rightarrow> Inr (fmt_percent 1 x)
      | Inr x \<Rightarrow> Inr (float_text (fmt_percent 1) x @ ''%''))"

definition as_whole :: "json \<Rightarrow> py_error + string" where
  \<comment> \<open>\<open>{v:,.0f}\<close>\<close>
  "as_whole v = (case json_number v of Inl e \<Rightarrow> Inl e | Inr x \<Rightarrow> Inr (float_text (fmt_fixed False True 0) x))"

datatype piece = Text string | Field json string "json \<Rightarrow> py_error + string"

fun f_string :: "piece list \<Rightarrow> py_error + string" where
  "f_string [] = Inr []"
| "f_string (Text s # ps) = (case f_string ps of Inl e \<Rightarrow> Inl e | Inr t \<Rightarrow> Inr (s @ t))"
| "f_string (Field d key show # ps) =
     (case json_item d key of Inl e \<Rightarrow> Inl e | Inr v \<Rightarrow>
     (case show v of Inl e \<Rightarrow> Inl e | Inr s \<Rightarrow>
     (case f_string ps of Inl e \<Rightarrow> Inl e | Inr t \<Rightarrow> Inr (s @ t))))"

subsection \<open>The cell that reads the result\<close>

fun print_all :: "piece list list \<Rightarrow> string list \<times> py_error option" where
  \<comment> \<open>one \<open>print\<close> after the other, up to the first that raises\<close>
  "print_all [] = ([], None)"
| "print_all (ps # rest) =
     (case f_string ps of
        Inl e \<Rightarrow> ([], Some e)
      | Inr s \<Rightarrow> (let (ls, out) = print_all rest in (s # ls, out)))"

definition result_prints :: "json \<Rightarrow> json \<Rightarrow> json \<Rightarrow> piece list list" where
  "result_prints d b a =
     [[Text ''hardware : '', Field d ''hardware'' as_text],
      [Text ''model    : '', Field d ''model'' as_text, Text ''  replicas='', Field d ''replicas'' as_text,
       Text ''  share_gpu='', Field d ''share_gpu'' as_text],
      [Text ''workload : '', Field d ''sessions'' as_text, Text '' sessions, '', Field d ''calls_per_arm'' as_text,
       Text ('' calls per arm'' @ [CHR 0x0A])],
      [Text ''cache hit rate   '', Field b ''cache_hit_rate'' as_percent, Text ''  ->  '',
       Field a ''cache_hit_rate'' as_percent],
      [Text ''token reuse      '', Field b ''token_reuse_rate'' as_percent, Text ''  ->  '',
       Field a ''token_reuse_rate'' as_percent],
      [Text ''p95 latency      '', Field b ''p95_latency_ms'' as_whole, Text '' ms  ->  '',
       Field a ''p95_latency_ms'' as_whole, Text '' ms''],
      [Text ''p95 job time     '', Field b ''p95_jct_ms'' as_whole, Text '' ms  ->  '',
       Field a ''p95_jct_ms'' as_whole, Text '' ms'']]"

definition read_cell :: "json option \<Rightarrow> string list \<times> py_error option" where
  \<comment> \<open>on what \<open>gpu_validation.json\<close> holds\<close>
  "read_cell file =
     (case file of
        None \<Rightarrow> ([], Some OSError)
      | Some d \<Rightarrow>
          (case json_item d ''baseline'' of Inl e \<Rightarrow> ([], Some e) | Inr b \<Rightarrow>
          (case json_item d ''agentserve'' of Inl e \<Rightarrow> ([], Some e) | Inr a \<Rightarrow> print_all (result_prints d b a))))"

subsection \<open>A run on a machine where everything comes up\<close>

definition comes_up :: "host \<Rightarrow> gpu_args \<Rightarrow> bool" where
  "comes_up host a \<longleftrightarrow>
     detect_gpus (h_smi host) \<noteq> [] \<and> clocks_advance host \<and> (\<forall>p. h_starts host p) \<and> h_write host = Inr () \<and>
     (\<forall>k url. up_in_time (h_clock host k) (h_get host k url) (ga_startup_timeout a) \<and>
        up_in_time (h_clock host k) (h_get host k url) 90)"

lemma start_workers_up: "\<forall>p. h_starts host p \<Longrightarrow> \<exists>st'. start_workers host base a u ws st = (Next (), st')"
proof (induction ws arbitrary: st)
  case (Cons w ws)
  obtain i d port where "w = (i, d, port)" by (cases w)
  with Cons show ?case by (auto simp: popen_def Let_def)
qed simp

lemma wait_workers_up: "comes_up host a \<Longrightarrow> \<exists>st'. wait_workers host a eps st = Some (Next (), st')"
  by (induction eps arbitrary: st) (auto simp: comes_up_def wait_url_total)

lemma run_arms_up:
  assumes "comes_up host a"
    and runs: "\<forall>(title, route, pol) \<in> set plan. \<exists>run d line. h_replay host title = Inr run \<and> live_report run = Inr d \<and> arm_line d = Inr line"
  shows "\<exists>runs' st'. run_arms host repo base a eps plan runs st = Some (Next runs', st')"
  using runs
proof (induction plan arbitrary: runs st)
  case (Cons arm plan)
  obtain title route pol where arm: "arm = (title, route, pol)" by (cases arm)
  with Cons.prems obtain run d line where "h_replay host title = Inr run" "live_report run = Inr d" "arm_line d = Inr line"
    by auto
  with Cons assms(1) show ?case by (auto simp: arm comes_up_def popen_def Let_def wait_url_total)
qed simp

lemma arm_line_entries: "\<exists>line. arm_line (report_entries run n p q r) = Inr line"
  by (simp add: arm_line_def report_entries_def report_value_def Let_def)

lemma conclude_up:
  assumes "h_write host = Inr ()"
    and runs: "map_of runs ''round-robin + LRU'' = Some baseline" "map_of runs ''AgentServe'' = Some treatment"
    and reports: "live_report baseline = Inr (report_entries baseline n p q r)"
      "live_report treatment = Inr (report_entries treatment n' p' q' r')"
  shows "\<exists>st'. conclude host a gpus u calls runs st = (Return 0, st')"
proof -
  obtain table where "compare_table baseline treatment = Inr table" using compare_table_total [OF reports] by blast
  moreover have "verdict (report_entries baseline n p q r) (report_entries treatment n' p' q' r') st \<noteq> Inl e" for st e
    by (simp add: verdict_def report_entries_def report_value_def Let_def)
  ultimately show ?thesis using assms by (auto simp: conclude_def Let_def split: sum.split)
qed

lemma validation_succeeds:
  assumes up: "comes_up host a" "\<not> ga_dry_run a" "memory_utilization (detect_gpus (h_smi host)) a = Inr u"
    and trace: "fst (generate_trace api (nat (ga_sessions a)) (ga_turns a) (ga_prompt_tokens a) 1 g) = Inr traces"
    and replays: "h_replay host ''round-robin + LRU'' = Inr baseline" "h_replay host ''AgentServe'' = Inr treatment"
    and reports: "live_report baseline = Inr (report_entries baseline n p q r)"
      "live_report treatment = Inr (report_entries treatment n' p' q' r')"
  shows "\<exists>st. validate_main host api g repo base a = Some (Return 0, st) \<and>
    launched st = worker_launches base a u (gpu_placement (detect_gpus (h_smi host)) a) @
      gateway_launches repo base a (map (\<lambda>(i, d, port). local_url port) (gpu_placement (detect_gpus (h_smi host)) a)) arms \<and>
    saved (ga_out a) (rs_events st) =
      Some (run_payload (detect_gpus (h_smi host)) a u (total_turns traces)
        (report_entries baseline n p q r) (report_entries treatment n' p' q' r'))"
proof -
  let ?gpus = "detect_gpus (h_smi host)"
  let ?st = "log_lines (plan_lines ?gpus a u) (emit (Log (cards_line ?gpus)) fresh_run)"
  let ?eps = "map (\<lambda>(i, d, port). local_url port) (gpu_placement ?gpus a)"
  have fresh: "launched ?st = []" "tables ?st = []" by (simp_all add: log_lines_emits fresh_run_def printed_append printed_logs)
  obtain st1 where s: "start_workers host base a u (gpu_placement ?gpus a) (emit (Log starting_line) ?st) = (Next (), st1)"
    using start_workers_up [of host] up(1) unfolding comes_up_def by blast
  obtain st2 where w: "wait_workers host a ?eps st1 = Some (Next (), st2)" using wait_workers_up [OF up(1)] by blast
  let ?st2 = "emit (Log (trace_line traces)) (emit (Log ''all workers healthy'') st2)"
  have "\<forall>(title, route, pol) \<in> set arms. \<exists>run d line. h_replay host title = Inr run \<and> live_report run = Inr d \<and> arm_line d = Inr line"
    using replays reports arm_line_entries by (simp add: arms_def)
  from run_arms_up [OF up(1) this] obtain runs st3 where r: "run_arms host repo base a ?eps arms [] ?st2 = Some (Next runs, st3)"
    by blast
  have "map_of runs ''round-robin + LRU'' = Some baseline" "map_of runs ''AgentServe'' = Some treatment"
    by (rule arms_runs [OF r]; use replays in simp)+
  from conclude_up [OF _ this reports] up(1) obtain st4
    where c: "conclude host a ?gpus u (total_turns traces) runs st3 = (Return 0, st4)"
    unfolding comes_up_def by blast
  have body: "validate_body host api g repo base a ?gpus u ?st = Some (Return 0, st4)"
    by (simp add: validate_body_def Let_def s w trace r c)
  then obtain st where st: "validate_main host api g repo base a = Some (Return 0, st)"
    using up by (simp add: validate_main_def Let_def comes_up_def)
  from body_success [OF body fresh] replays reports trace have "launched st4 = worker_launches base a u (gpu_placement ?gpus a) @
      gateway_launches repo base a ?eps arms" "saved (ga_out a) (rs_events st4) =
      Some (run_payload ?gpus a u (total_turns traces) (report_entries baseline n p q r) (report_entries treatment n' p' q' r'))"
    by auto
  with st body up show ?thesis
    by (auto simp: validate_main_def Let_def comes_up_def saved_append saved_stop launched_log launched_stop)
qed

subsection \<open>What the cells plan and print\<close>

definition hit_share :: "arm_run \<Rightarrow> real" where
  "hit_share run =
     real (length (filter (\<lambda>c. 0 < cr_cached_tokens c) (ok_calls run))) / real (max 1 (length (ok_calls run)))"

definition reuse_share :: "arm_run \<Rightarrow> real" where
  "reuse_share run =
     real_of_int (sum_list (map cr_cached_tokens (ok_calls run))) /
     real_of_int (max 1 (sum_list (map cr_prompt_tokens (ok_calls run))))"

definition p95_of :: "real list \<Rightarrow> real" where
  "p95_of xs = (case percentile xs (95 / 100) of Inl e \<Rightarrow> 0 | Inr x \<Rightarrow> x)"

lemma sound_report:
  assumes "\<forall>c \<in> set (ok_calls run). sound_call c"
  obtains touched p50 where "live_report run = Inr (report_entries run touched p50
    (p95_of (map cr_latency_ms (ok_calls run))) (p95_of (dict_values (ar_session_ms run))))"
proof -
  obtain touched where "distinct_replicas (map cr_replica (ok_calls run)) = Inr touched"
    using assms by (auto simp: distinct_replicas_def set_size_def sound_call_def)
  moreover obtain p50 where "percentile (map cr_latency_ms (ok_calls run)) (50 / 100) = Inr p50"
    using percentile_total [of "50 / 100" "map cr_latency_ms (ok_calls run)"] by auto
  moreover have "percentile xs (95 / 100) = Inr (p95_of xs)" for xs
    using percentile_total [of "95 / 100" xs] by (auto simp: p95_of_def)
  ultimately show thesis using that by (simp add: live_report_def)
qed

lemma payload_items:
  "json_item (run_payload gpus a u calls b t) ''hardware'' = Inr (JList (map JStr gpus))"
  "json_item (run_payload gpus a u calls b t) ''model'' = Inr (JStr (ga_model a))"
  "json_item (run_payload gpus a u calls b t) ''replicas'' = Inr (JInt (ga_replicas a))"
  "json_item (run_payload gpus a u calls b t) ''share_gpu'' = Inr (JBool (shares_card gpus a))"
  "json_item (run_payload gpus a u calls b t) ''sessions'' = Inr (JInt (ga_sessions a))"
  "json_item (run_payload gpus a u calls b t) ''calls_per_arm'' = Inr (JInt (int calls))"
  "json_item (run_payload gpus a u calls b t) ''baseline'' = Inr (report_json b)"
  "json_item (run_payload gpus a u calls b t) ''agentserve'' = Inr (report_json t)"
  by (simp_all add: json_item_def run_payload_def)

lemma report_items:
  "json_item (report_json (report_entries run n p q r)) ''cache_hit_rate'' = Inr (JFloat (Finite (hit_share run)))"
  "json_item (report_json (report_entries run n p q r)) ''token_reuse_rate'' = Inr (JFloat (Finite (reuse_share run)))"
  "json_item (report_json (report_entries run n p q r)) ''p95_latency_ms'' = Inr (JFloat (Finite q))"
  "json_item (report_json (report_entries run n p q r)) ''p95_jct_ms'' = Inr (JFloat (Finite r))"
  by (simp_all add: json_item_def report_json_def report_entries_def Let_def integer_keys_def hit_share_def reuse_share_def
      del: of_int_max of_nat_max)

lemma shown_values:
  "as_text (JList (map JStr ss)) = Inr (repr_strings ss)" "as_text (JStr s) = Inr s" "as_text (JInt i) = Inr (py_str_int i)"
  "as_text (JBool b) = Inr (str_bool b)" "as_percent (JFloat (Finite x)) = Inr (fmt_percent 1 x)"
  "as_whole (JFloat (Finite x)) = Inr (fmt_fixed False True 0 x)"
  by (simp_all add: as_text_def json_str_def repr_strings_def as_percent_def as_whole_def json_number_def o_def)

lemma read_cell_payload:
  "read_cell (Some (run_payload gpus a u calls (report_entries b n p q r) (report_entries t n' p' q' r'))) =
    ([''hardware : '' @ repr_strings gpus,
      ''model    : '' @ ga_model a @ ''  replicas='' @ py_str_int (ga_replicas a) @ ''  share_gpu='' @ str_bool (shares_card gpus a),
      ''workload : '' @ py_str_int (ga_sessions a) @ '' sessions, '' @ py_str_int (int calls) @ '' calls per arm'' @ [CHR 0x0A],
      ''cache hit rate   '' @ fmt_percent 1 (hit_share b) @ ''  ->  '' @ fmt_percent 1 (hit_share t),
      ''token reuse      '' @ fmt_percent 1 (reuse_share b) @ ''  ->  '' @ fmt_percent 1 (reuse_share t),
      ''p95 latency      '' @ fmt_fixed False True 0 q @ '' ms  ->  '' @ fmt_fixed False True 0 q' @ '' ms'',
      ''p95 job time     '' @ fmt_fixed False True 0 r @ '' ms  ->  '' @ fmt_fixed False True 0 r' @ '' ms''], None)"
  unfolding read_cell_def option.case payload_items sum.case print_all.simps result_prints_def f_string.simps report_items
    shown_values
  by (simp only: sum.case Let_def prod.case append_Nil2 append_assoc)

lemma cells:
  "a \<in> {kaggle_cell, colab_cell} \<Longrightarrow> \<not> ga_dry_run a \<and> ga_model a = ''Qwen/Qwen2.5-0.5B-Instruct'' \<and> ga_replicas a = 2 \<and>
     ga_gpu_memory_utilization a = None \<and> ga_out a = ''gpu_validation.json'' \<and> 900 \<le> ga_prompt_tokens a \<and>
     ga_share_gpu a = (a = colab_cell) \<and> ga_sessions a = (if a = colab_cell then 16 else 24)"
  "ga_dry_run dry_run_cell" "ga_replicas dry_run_cell = 2" "ga_gpu_memory_utilization dry_run_cell = None"
  by (auto simp: kaggle_cell_def colab_cell_def dry_run_cell_def default_gpu_args_def)

lemma cells_utilization:
  assumes "ga_replicas a = 2" "ga_gpu_memory_utilization a = None"
  obtains u where "memory_utilization gpus a = Inr u"
    "length gpus = 2 \<Longrightarrow> \<not> ga_share_gpu a \<Longrightarrow> u = 8 / 10" "length gpus = 1 \<Longrightarrow> u = 4 / 10"
proof -
  have "py_round (real_of_int 800) = 800" "py_round (real_of_int 400) = 400" by (rule py_round_of_int)+
  then have "round3 (4 / 5) = 8 / 10" "round3 (2 / 5) = 4 / 10" by (simp_all add: round3_def)
  note rounded = this
  have "1 \<le> card_count gpus" by (simp add: card_count_def)
  then obtain u where "memory_utilization gpus a = Inr u"
    using assms by (cases "shares_card gpus a") (simp_all add: memory_utilization_def Let_def)
  moreover from this have "length gpus = 2 \<Longrightarrow> \<not> ga_share_gpu a \<Longrightarrow> u = 8 / 10" "length gpus = 1 \<Longrightarrow> u = 4 / 10"
    using assms rounded by (auto simp: memory_utilization_def Let_def shares_card_def card_count_def)
  ultimately show thesis by (rule that)
qed

lemma cells_placement:
  assumes "ga_replicas a = 2"
  shows "length gpus = 2 \<Longrightarrow> \<not> ga_share_gpu a \<Longrightarrow> gpu_placement gpus a = [(0, 0, 8300), (1, 1, 8301)]"
    and "length gpus = 1 \<Longrightarrow> gpu_placement gpus a = [(0, 0, 8300), (1, 0, 8301)]"
proof -
  have "[0..1] = [0, 1 :: int]" by (simp add: upto.simps)
  with assms show "length gpus = 2 \<Longrightarrow> \<not> ga_share_gpu a \<Longrightarrow> gpu_placement gpus a = [(0, 0, 8300), (1, 1, 8301)]"
    "length gpus = 1 \<Longrightarrow> gpu_placement gpus a = [(0, 0, 8300), (1, 0, 8301)]"
    by (auto simp: gpu_placement_def shares_card_def card_count_def)
qed

subsection \<open>Properties\<close>

text \<open>
  C23: The notebook shows what was measured, on either of its machines. If every process comes up and
  both replays end, the command cell succeeds, and the cell that reads the file raises nothing and
  prints the cards, the size of the trace both arms replayed, and for each arm the share of calls
  that found their prefix cached, the share of prompt tokens reused and the two 95th percentiles,
  all taken from the calls of that arm. On two cards the Kaggle cell gives each worker a card of its
  own, on one card the Colab cell packs both workers onto it with two fifths of its memory each, and the
  dry run cell starts nothing.
\<close>

theorem notebook_shows_what_was_measured:
  assumes cell: "a \<in> {kaggle_cell, colab_cell}" and up: "comes_up host a" and rng: "rng_laws api"
    and replays: "h_replay host ''round-robin + LRU'' = Inr baseline" "h_replay host ''AgentServe'' = Inr treatment"
    and sound: "\<forall>c \<in> set (ok_calls baseline) \<union> set (ok_calls treatment). sound_call c"
  shows "\<exists>st traces. validate_main host api g repo base a = Some (Return 0, st) \<and>
    fst (generate_trace api (nat (ga_sessions a)) (ga_turns a) (ga_prompt_tokens a) 1 g) = Inr traces \<and>
    length traces = (if a = colab_cell then 16 else 24) \<and>
    read_cell (saved ''gpu_validation.json'' (rs_events st)) =
      ([''hardware : '' @ repr_strings (detect_gpus (h_smi host)),
        ''model    : '' @ ''Qwen/Qwen2.5-0.5B-Instruct'' @ ''  replicas='' @ py_str_int 2 @ ''  share_gpu='' @
          str_bool (a = colab_cell \<or> length (detect_gpus (h_smi host)) = 1),
        ''workload : '' @ py_str_int (int (length traces)) @ '' sessions, '' @
          py_str_int (int (total_turns traces)) @ '' calls per arm'' @ [CHR 0x0A],
        ''cache hit rate   '' @ fmt_percent 1 (hit_share baseline) @ ''  ->  '' @ fmt_percent 1 (hit_share treatment),
        ''token reuse      '' @ fmt_percent 1 (reuse_share baseline) @ ''  ->  '' @ fmt_percent 1 (reuse_share treatment),
        ''p95 latency      '' @ fmt_fixed False True 0 (p95_of (map cr_latency_ms (ok_calls baseline))) @ '' ms  ->  '' @
          fmt_fixed False True 0 (p95_of (map cr_latency_ms (ok_calls treatment))) @ '' ms'',
        ''p95 job time     '' @ fmt_fixed False True 0 (p95_of (dict_values (ar_session_ms baseline))) @ '' ms  ->  '' @
          fmt_fixed False True 0 (p95_of (dict_values (ar_session_ms treatment))) @ '' ms''], None) \<and>
    (length (detect_gpus (h_smi host)) = 2 \<and> a = kaggle_cell \<longrightarrow>
       take 2 (launched st) = [(vllm_command a (8 / 10) 8300, vllm_env base 0), (vllm_command a (8 / 10) 8301, vllm_env base 1)]) \<and>
    (length (detect_gpus (h_smi host)) = 1 \<and> a = colab_cell \<longrightarrow>
       take 2 (launched st) = [(vllm_command a (4 / 10) 8300, vllm_env base 0), (vllm_command a (4 / 10) 8301, vllm_env base 0)]) \<and>
    (\<exists>dry. validate_main host api g repo base dry_run_cell = Some (Return 0, dry) \<and> launched dry = [])"
proof -
  let ?gpus = "detect_gpus (h_smi host)"
  note a = cells(1) [OF cell]
  obtain u where u: "memory_utilization ?gpus a = Inr u" "length ?gpus = 2 \<Longrightarrow> \<not> ga_share_gpu a \<Longrightarrow> u = 8 / 10"
    "length ?gpus = 1 \<Longrightarrow> u = 4 / 10" by (rule cells_utilization [of a ?gpus]) (use a in auto)
  obtain traces where traces: "fst (generate_trace api (nat (ga_sessions a)) (ga_turns a) (ga_prompt_tokens a) 1 g) = Inr traces"
    "length traces = nat (ga_sessions a)"
    using generate_trace_total [OF rng, of "ga_prompt_tokens a" 1 "nat (ga_sessions a)" "ga_turns a" g] a by auto
  obtain n p where b: "live_report baseline = Inr (report_entries baseline n p
      (p95_of (map cr_latency_ms (ok_calls baseline))) (p95_of (dict_values (ar_session_ms baseline))))"
    by (rule sound_report [of baseline]) (use sound in auto)
  obtain n' p' where t: "live_report treatment = Inr (report_entries treatment n' p'
      (p95_of (map cr_latency_ms (ok_calls treatment))) (p95_of (dict_values (ar_session_ms treatment))))"
    by (rule sound_report [of treatment]) (use sound in auto)
  obtain st where st: "validate_main host api g repo base a = Some (Return 0, st)"
    "launched st = worker_launches base a u (gpu_placement ?gpus a) @
       gateway_launches repo base a (map (\<lambda>(i, d, port). local_url port) (gpu_placement ?gpus a)) arms"
    and written: "saved (ga_out a) (rs_events st) = Some (run_payload ?gpus a u (total_turns traces)
      (report_entries baseline n p (p95_of (map cr_latency_ms (ok_calls baseline))) (p95_of (dict_values (ar_session_ms baseline))))
      (report_entries treatment n' p' (p95_of (map cr_latency_ms (ok_calls treatment))) (p95_of (dict_values (ar_session_ms treatment)))))"
    using validation_succeeds [OF up _ u(1) traces(1) replays b t] a by blast
  have one: "shares_card ?gpus a = (a = colab_cell \<or> length ?gpus = 1)"
    using a up by (cases "?gpus") (auto simp: shares_card_def card_count_def comes_up_def)
  have out: "ga_out a = ''gpu_validation.json''" "ga_model a = ''Qwen/Qwen2.5-0.5B-Instruct''" "ga_replicas a = 2"
    "ga_sessions a = int (length traces)" using a traces(2) by (simp_all split: if_splits)
  have len: "length traces = (if a = colab_cell then 16 else 24)" using a traces(2) by simp
  have dry: "\<exists>dry. validate_main host api g repo base dry_run_cell = Some (Return 0, dry) \<and> launched dry = []"
    by (rule cells_utilization [OF cells(3,4), of ?gpus])
      (simp add: validate_main_def Let_def cells(2) log_lines_emits fresh_run_def)
  have "kaggle_cell \<noteq> colab_cell" by (simp add: kaggle_cell_def colab_cell_def default_gpu_args_def)
  then have kaggle: "take 2 (launched st) = [(vllm_command a (8 / 10) 8300, vllm_env base 0), (vllm_command a (8 / 10) 8301, vllm_env base 1)]"
    if "length ?gpus = 2 \<and> a = kaggle_cell"
    unfolding st(2) using that a u(2) cells_placement(1) [of a ?gpus]
    by (auto simp: worker_launches_def simp del: eq_divide_eq_numeral1)
  have colab: "take 2 (launched st) = [(vllm_command a (4 / 10) 8300, vllm_env base 0), (vllm_command a (4 / 10) 8301, vllm_env base 0)]"
    if "length ?gpus = 1 \<and> a = colab_cell"
    unfolding st(2) using that a u(3) cells_placement(2) [of a ?gpus]
    by (auto simp: worker_launches_def simp del: eq_divide_eq_numeral1)
  show ?thesis
    unfolding one [symmetric]
    by (intro exI [of _ st] exI [of _ traces] conjI impI st(1) traces(1) len kaggle colab dry)
      (simp_all only: written [unfolded out] read_cell_payload out)
qed

lemma demo_comes_up: "comes_up demo_host colab_cell" "detect_gpus (h_smi demo_host) = [''Tesla T4, 15360 MiB'']"
proof -
  show cards: "detect_gpus (h_smi demo_host) = [''Tesla T4, 15360 MiB'']"
    by (simp only: demo_host_def host.simps) code_simp
  have "up_in_time (h_clock demo_host k) (h_get demo_host k url) T" if "2 < T" for k url T
    using that by (auto simp: up_in_time_def demo_host_def intro!: exI [of _ 0])
  moreover have "ga_startup_timeout colab_cell = 900" by (simp add: colab_cell_def default_gpu_args_def)
  moreover have "h_starts demo_host p" "h_write demo_host = Inr ()" for p by (simp_all add: demo_host_def)
  ultimately show "comes_up demo_host colab_cell" using demo_clocks by (simp add: comes_up_def cards)
qed

lemma notebook_shows_what_was_measured_witness:
  "\<exists>st. validate_main demo_host fixed_rng () ''/repo'' (\<lambda>name. None) colab_cell = Some (Return 0, st) \<and>
     hd (fst (read_cell (saved ''gpu_validation.json'' (rs_events st)))) = ''hardware : ['' @ [CHR 0x27] @ ''Tesla T4, 15360 MiB'' @ [CHR 0x27] @ '']'' \<and>
     fst (read_cell (saved ''gpu_validation.json'' (rs_events st))) ! 3 = ''cache hit rate   0.0%  ->  0.0%'' \<and>
     map (\<lambda>(cmd, env). env ''CUDA_VISIBLE_DEVICES'') (take 2 (launched st)) = [Some (py_str_int 0), Some (py_str_int 0)]"
proof -
  have "rng_laws fixed_rng" by (simp add: rng_laws_def fixed_rng_def)
  moreover have "h_replay demo_host title = Inr quiet_run" for title by (simp add: demo_host_def)
  moreover have "ok_calls quiet_run = []" by (simp add: ok_calls_def quiet_run_def)
  moreover note notebook_shows_what_was_measured [of colab_cell demo_host fixed_rng quiet_run quiet_run "()" "''/repo''" "\<lambda>name. None"]
  moreover have "repr_strings [''Tesla T4, 15360 MiB''] = ''['' @ [CHR 0x27] @ ''Tesla T4, 15360 MiB'' @ [CHR 0x27] @ '']''"
    by code_simp
  moreover have "hit_share quiet_run = 0" by (simp add: hit_share_def ok_calls_def quiet_run_def)
  moreover have digits: "nat_digits 0 = ''0''" by code_simp
  have "fmt_percent 1 0 = ''0.0%''" 
    using py_round_of_int [of 0] digits
    by (simp add: fmt_percent_def fmt_fixed_def units_def point_digits_def Let_def pad_zeros_def)
  ultimately show ?thesis using demo_comes_up by (auto simp: vllm_env_def)
qed

end
