(* ===== verification/Integration_Check.thy ===== *)
theory Integration_Check
  imports PyJson
begin

section \<open>The integration check\<close>

text \<open>
  The checks of \<open>scripts/integration_check.py\<close> on what the gateway answers. What the script sees is a
  record, and the list of failures is a function of it. The lines it prints are not modelled, but an
  answer in which a value that is printed is missing or cannot be printed with its width raises, as
  in the script. \<open>Check_Processes\<close> has the workers it starts, \<open>Check_Run\<close> the requests it sends.
\<close>

record observation_log =
  ol_health :: json
  ol_ready :: int
  ol_unauthorized :: "(string \<times> int) list" \<comment> \<open>label and status of the calls without a valid token\<close>
  ol_turns :: "json list" \<comment> \<open>the answers of the session, in order\<close>
  ol_stream :: "string list" \<comment> \<open>the lines of the stream that are not blank\<close>

datatype check_failure =
    WrongBackend
  | WrongStore
  | NotReady
  | AuthNotEnforced string
  | Scattered
  | FewHits nat
  | StreamNotTerminated
  | StreamWithoutTokens

definition health_failures :: "json \<Rightarrow> py_error + check_failure list" where
  "health_failures h =
     (case json_item h ''backend'' of Inl e \<Rightarrow> Inl e | Inr b \<Rightarrow>
     (case json_item h ''session_store'' of Inl e \<Rightarrow> Inl e | Inr s \<Rightarrow>
     (case json_item h ''replicas'' of Inl e \<Rightarrow> Inl e | Inr n \<Rightarrow>
     (case json_item h ''multi_pod_safe'' of Inl e \<Rightarrow> Inl e | Inr m \<Rightarrow>
      Inr ((if b \<noteq> JStr ''vllm'' then [WrongBackend] else []) @
           (if s \<noteq> JStr ''redis'' then [WrongStore] else []))))))"

definition auth_failures :: "(string \<times> int) list \<Rightarrow> check_failure list" where
  "auth_failures codes = map (AuthNotEnforced \<circ> fst) (filter (\<lambda>(label, code). code \<noteq> 401) codes)"

definition printable :: "json \<Rightarrow> bool" where
  \<comment> \<open>the value has a format with a width\<close>
  "printable v \<longleftrightarrow> (case v of JNull \<Rightarrow> False | JList xs \<Rightarrow> False | JDict d \<Rightarrow> False | _ \<Rightarrow> True)"

record turn_view =
  tv_replica :: json
  tv_tier :: json

definition read_turn :: "json \<Rightarrow> py_error + turn_view" where
  "read_turn d =
     (case json_item d ''agentserve'' of Inl e \<Rightarrow> Inl e | Inr a \<Rightarrow>
     (case json_item d ''usage'' of Inl e \<Rightarrow> Inl e | Inr u \<Rightarrow>
     (case json_item u ''prompt_tokens_details'' of Inl e \<Rightarrow> Inl e | Inr details \<Rightarrow>
     (case json_item details ''cached_tokens'' of Inl e \<Rightarrow> Inl e | Inr cached \<Rightarrow>
     (case json_item a ''replica'' of Inl e \<Rightarrow> Inl e | Inr rep \<Rightarrow>
     if unhashable rep then Inl TypeError else
     (case json_item a ''cache_tier'' of Inl e \<Rightarrow> Inl e | Inr tier \<Rightarrow>
     if \<not> printable tier \<or> \<not> printable cached then Inl TypeError else
     (case json_item u ''prompt_tokens'' of Inl e \<Rightarrow> Inl e | Inr prompt \<Rightarrow>
     if \<not> printable prompt then Inl TypeError else
     (case json_item d ''choices'' of Inl e \<Rightarrow> Inl e | Inr cs \<Rightarrow>
     (case json_first cs of Inl e \<Rightarrow> Inl e | Inr choice \<Rightarrow>
     (case json_item choice ''message'' of Inl e \<Rightarrow> Inl e | Inr message \<Rightarrow>
     (case json_item message ''content'' of Inl e \<Rightarrow> Inl e | Inr content \<Rightarrow>
      Inr \<lparr>tv_replica = rep, tv_tier = tier\<rparr>)))))))))))"

fun read_turns :: "json list \<Rightarrow> py_error + turn_view list" where
  "read_turns [] = Inr []"
| "read_turns (d # ds) =
     (case read_turn d of Inl e \<Rightarrow> Inl e | Inr v \<Rightarrow>
     (case read_turns ds of Inl e \<Rightarrow> Inl e | Inr vs \<Rightarrow> Inr (v # vs)))"

definition session_failures :: "json list \<Rightarrow> py_error + check_failure list" where
  "session_failures ds =
     (case read_turns ds of Inl e \<Rightarrow> Inl e | Inr vs \<Rightarrow>
     (case set_size (map tv_replica vs) of Inl e \<Rightarrow> Inl e | Inr n \<Rightarrow>
      let hits = length (filter (\<lambda>v. tv_tier v \<noteq> JStr ''miss'') vs)
      in Inr ((if n \<noteq> 1 then [Scattered] else []) @ (if hits < 3 then [FewHits hits] else []))))"

definition contains :: "string \<Rightarrow> string \<Rightarrow> bool" where
  "contains w s \<longleftrightarrow> (\<exists>k \<in> {0..length s}. take (length w) (drop k s) = w)"

definition stream_failures :: "string list \<Rightarrow> check_failure list" where
  "stream_failures lines =
     (if lines = [] \<or> drop (length (last lines) - 6) (last lines) \<noteq> ''[DONE]'' then [StreamNotTerminated] else []) @
     (if \<exists>ln \<in> set lines. contains ''fix'' ln then [] else [StreamWithoutTokens])"

definition all_failures :: "observation_log \<Rightarrow> py_error + check_failure list" where
  "all_failures ob =
     (case health_failures (ol_health ob) of Inl e \<Rightarrow> Inl e | Inr hf \<Rightarrow>
     (case session_failures (ol_turns ob) of Inl e \<Rightarrow> Inl e | Inr sf \<Rightarrow>
      Inr (hf @ (if ol_ready ob \<noteq> 200 then [NotReady] else []) @ auth_failures (ol_unauthorized ob) @ sf @
           stream_failures (ol_stream ob))))"

end
