(* ===== verification/Shared_Replica.thy ===== *)
theory Shared_Replica
  imports Replica
begin

section \<open>A replica shared by a set of sessions\<close>

text \<open>
  A replica with room for every entry of a set \<open>P\<close> of sessions: \<open>quota\<close> bounds the tokens of each, and
  the sum fits in either tier. Storing an entry of one of them then costs no other session anything,
  and with a policy that does not drop the entry the session is found again.
\<close>

definition keeps_within :: "real \<Rightarrow> cache_policy \<Rightarrow> bool" where
  \<comment> \<open>an entry whose session is expected back within \<open>B\<close> is not dropped\<close>
  "keeps_within B pol \<longleftrightarrow> pol = lru_policy \<or> (\<exists>c. pol = adaptive_policy c \<and> 0 \<le> B \<and> B \<le> offload_threshold_ms c)"

lemma keeps_within_entry: "keeps_within B pol \<Longrightarrow> predicted_idle_ms e \<le> B \<Longrightarrow> on_release pol e now \<noteq> DROP"
  by (auto simp: keeps_within_def lru_on_release_def adaptive_on_release_def Let_def split: if_splits)

lemma keeps_within_code: "keeps_within B pol \<Longrightarrow> code_policy pol"
  by (auto simp: keeps_within_def)

definition fitting :: "(string \<Rightarrow> int) \<Rightarrow> string set \<Rightarrow> hardware_profile \<Rightarrow> bool" where
  \<comment> \<open>the quotas of all the sessions together fit in either tier\<close>
  "fitting quota P h \<longleftrightarrow> finite P \<and> (\<forall>k \<in> P. 0 \<le> quota k) \<and>
     sum quota P \<le> gpu_cache_tokens h \<and> sum quota P \<le> dram_cache_tokens h"

definition kept :: "(string \<Rightarrow> int) \<Rightarrow> string set \<Rightarrow> (string, cache_entry) dict \<Rightarrow> bool" where
  "kept quota P d \<longleftrightarrow> wf_dict d \<and> (\<forall>(k, e) \<in> set d. k \<in> P \<and> ce_tokens e \<le> quota k)"

definition room :: "(string \<Rightarrow> int) \<Rightarrow> string set \<Rightarrow> replica \<Rightarrow> bool" where
  "room quota P r \<longleftrightarrow> wf_replica r \<and> fitting quota P (hw r) \<and> kept quota P (gpu r) \<and> kept quota P (dram r)"

lemma kept_Nil [simp]: "kept quota P []"
  by (simp add: kept_def)

lemma kept_delete: "kept quota P d \<Longrightarrow> kept quota P (AList.delete k d)"
  by (auto simp: kept_def set_delete)

lemma kept_update: "kept quota P d \<Longrightarrow> k \<in> P \<Longrightarrow> ce_tokens e \<le> quota k \<Longrightarrow> kept quota P (AList.update k e d)"
  by (auto simp: kept_def set_update)

lemma kept_sum:
  assumes d: "kept quota P d" and P: "fitting quota P h"
  shows "dict_sum ce_tokens d \<le> gpu_cache_tokens h" "dict_sum ce_tokens d \<le> dram_cache_tokens h"
proof -
  have "dict_sum ce_tokens d = sum_list (map (\<lambda>p. ce_tokens (snd p)) d)" by (simp add: dict_sum_def o_def)
  also have "\<dots> \<le> sum_list (map (\<lambda>p. quota (fst p)) d)" using d by (intro sum_list_mono) (auto simp: kept_def)
  also have "\<dots> = sum quota (set (dict_keys d))"
    using d sum_list_distinct_conv_sum_set [of "dict_keys d" quota] by (simp add: kept_def o_def)
  also have "\<dots> \<le> sum quota P" using d P by (intro sum_mono2) (auto simp: kept_def fitting_def)
  finally show "dict_sum ce_tokens d \<le> gpu_cache_tokens h" "dict_sum ce_tokens d \<le> dram_cache_tokens h"
    using P by (auto simp: fitting_def)
qed

lemma place_room:
  assumes r: "room quota P r" "on_release (policy r) (store_entry sid n now ret) now \<noteq> DROP"
    and n: "sid \<in> P" "n \<le> quota sid"
  shows "kept quota P (gpu (place sid n now ret r))" "kept quota P (dram (place sid n now ret r))"
    "fst (lookup sid (place sid n now ret r)) \<noteq> MISS"
proof -
  let ?e = "store_entry sid n now ret"
  have r': "wf_replica r" "fitting quota P (hw r)" "kept quota P (gpu r)" "kept quota P (dram r)"
    using r(1) by (simp_all add: room_def)
  have gpu: "kept quota P (AList.update sid ?e (gpu r))" and dram: "kept quota P (AList.delete sid (dram r))"
    using kept_update [OF r'(3) n(1), of ?e] kept_delete [OF r'(4)] n(2) by simp_all
  have low: "kept quota P (AList.update sid (?e\<lparr>ce_tier := DRAM\<rparr>) (AList.delete sid (dram r)))"
    using kept_update [OF dram n(1), of "?e\<lparr>ce_tier := DRAM\<rparr>"] n(2) by simp
  have wf: "wf_dict (AList.delete sid (dram r))" using dram by (simp add: kept_def)
  have "dict_sum ce_tokens (AList.delete sid (dram r)) + n \<le> dram_cache_tokens (hw r)"
    using kept_sum(2) [OF low r'(2)] dict_sum_update [OF wf, of ce_tokens sid] by simp
  with r(2) show "fst (lookup sid (place sid n now ret r)) \<noteq> MISS"
    by (simp add: lookup_place [OF r'(1)] split: placement.split)
  show "kept quota P (gpu (place sid n now ret r))" "kept quota P (dram (place sid n now ret r))"
    using gpu dram low kept_delete [OF gpu, of sid]
    by (auto simp: place_def demote_def Let_def AList.delete_update_same split: placement.split)
qed

lemma store_room:
  assumes r: "room quota P r" "keeps_within B (policy r)" and n: "sid \<in> P" "0 \<le> n" "n \<le> quota sid"
    and gap: "ret - now \<le> B" "0 \<le> B"
  shows "\<exists>r'. store sid n now ret r = Inr r' \<and> room quota P r' \<and> fst (lookup sid r') \<noteq> MISS \<and>
    (\<forall>k. k \<noteq> sid \<longrightarrow> lookup k r' = lookup k r) \<and> frame_of r' = frame_of r"
proof -
  let ?r = "place sid n now ret r"
  have wf: "wf_replica r" "fitting quota P (hw r)" using r(1) by (simp_all add: room_def)
  have keep: "on_release (policy r) (store_entry sid n now ret) now \<noteq> DROP"
    using keeps_within_entry [OF r(2)] gap by (simp add: predicted_idle_ms_def)
  note placed = place_room [OF r(1) keep n(1,3)]
  have "gpu_tokens ?r \<le> gpu_cache_tokens (hw ?r)"
    using kept_sum(1) [OF placed(1) wf(2)] by (simp add: gpu_tokens_def)
  then have st: "store sid n now ret r = Inr ?r" by (simp add: store_place enforce_capacity_def)
  have "room quota P ?r" using placed wf wf_place [OF wf(1) n(2), of sid now ret] by (simp add: room_def)
  with st placed(3) frame_of_store [OF st] show ?thesis by (simp add: lookup_place [OF wf(1)])
qed

lemma lookup_slot [simp]: "lookup sid (slot_exit r) = lookup sid r" "lookup sid (slot_enter r) = lookup sid r"
  by (simp_all add: slot_exit_def slot_enter_def lookup_def Let_def cong: option.case_cong)

lemma room_enter: "room quota P r \<Longrightarrow> room quota P (slot_enter r)"
  using wf_slot_enter [of r] by (simp add: room_def slot_enter_def Let_def)

lemma room_exit: "room quota P r \<Longrightarrow> room quota P (slot_exit r)"
  using wf_slot_exit [of r] by (simp add: room_def slot_exit_def)

end
