(* ===== verification/End_To_End.thy ===== *)
theory End_To_End
  imports Requests Shared_Replica Live_Sessions Mock_Worker Integration_Check
begin

section \<open>Sessions through the whole system\<close>

text \<open>
  The composition of the application (affinity routing, vLLM backend, any session store that keeps its
  laws) with mock workers behind it and clients in front. This theory has what the operations of the
  gateway, the store, the replicas and the workers do to a session and to the others, as long as the
  replicas and the store have room for the sessions they share, and the streamed call. The lemmas about
  the gateway are proved over \<open>roomy_store\<close>; \<open>Concurrent_Sessions\<close> puts them together.
\<close>

definition mock_upstream :: "(string \<Rightarrow> json option) \<Rightarrow> (json \<Rightarrow> string) \<Rightarrow> mock_cluster upstream" where
  \<comment> \<open>mock workers, with the JSON library's \<open>loads\<close> and \<open>dumps\<close>\<close>
  "mock_upstream loads dumps = \<lparr>up_client = mock_http, up_stream = mock_stream dumps, up_loads = loads\<rparr>"

lemma mock_upstream_simps [simp]:
  "up_client (mock_upstream loads dumps) = mock_http" "up_stream (mock_upstream loads dumps) = mock_stream dumps"
  "up_loads (mock_upstream loads dumps) = loads"
  by (simp_all add: mock_upstream_def)

subsection \<open>Quiet replicas and short gaps\<close>

lemma prune_idle: "\<forall>r \<in> set rs. pending r = [] \<Longrightarrow> map (prune now) rs = rs"
  by (induction rs) (simp_all add: prune_def)

lemma learn_return_short:
  assumes p: "predictor_after pc h p" "\<forall>x \<in> set (gaps h). 0 \<le> x \<and> x \<le> B"
    and seen: "\<And>x. last_seen = Some x \<Longrightarrow> now - x \<le> B" and B: "0 \<le> B"
  shows "\<exists>p' h'. learn_return sid tool now last_seen p = Inr p' \<and> predictor_after pc h' p' \<and>
    (\<forall>x \<in> set (gaps h'). 0 \<le> x \<and> x \<le> B)"
proof (cases last_seen)
  case None
  with p show ?thesis by (auto simp: learn_return_def)
next
  case (Some t)
  obtain p' where p': "observe sid tool (max 0 (now - t)) p = Inr p'"
    using observe_total [of "max 0 (now - t)" sid tool p] by auto
  have g: "\<forall>x \<in> set (gaps (h @ [(sid, tool, max 0 (now - t))])). 0 \<le> x \<and> x \<le> B"
    using p(2) seen [OF Some] B by (auto simp: gaps_def)
  have "learn_return sid tool now last_seen p = Inr p'" using p' Some by (simp add: learn_return_def)
  with observe_after [OF p(1) p'] g show ?thesis by blast
qed

subsection \<open>The mock workers behind the adapter\<close>

definition mocked :: "nat \<Rightarrow> mock_cluster app_backend \<Rightarrow> bool" where
  \<comment> \<open>one mock worker per endpoint\<close>
  "mocked n b \<longleftrightarrow>
     (\<exists>v. b = VllmBackend v \<and> length (endpoints v) = n \<and> distinct (endpoints v) \<and> map fst (http v) = endpoints v \<and>
        0 \<le> max_retries v)"

fun worker_cache :: "nat \<Rightarrow> mock_cluster app_backend \<Rightarrow> prefix_cache" where
  "worker_cache i (VllmBackend v) = (case map_of (http v) (endpoints v ! i) of None \<Rightarrow> [] | Some cache \<Rightarrow> cache)"
| "worker_cache i (SimulatedBackend h) = []"

definition message_text :: "json list \<Rightarrow> py_error + string" where
  "message_text ms = (case get_contents ms of Inl e \<Rightarrow> Inl e | Inr vs \<Rightarrow> join_text vs)"

lemma mock_text_messages: "mock_text (payload v ms mt st) = message_text ms"
  by (simp add: mock_text_def payload_def iterate_def message_text_def)

lemma prompt_kept: "(k, f k) \<in> set d \<Longrightarrow> (k, f k) \<in> set (AList.update t (f t) d)"
  by (induction d) auto

lemma find_worker:
  "map_of ws e = Some cache \<Longrightarrow> List.find (\<lambda>(e', cache). e @ path = e' @ path) ws = Some (e, cache)"
  by (induction ws) (auto split: if_splits)

lemma mocked_worker:
  assumes "mocked n (VllmBackend v)" "i < n"
  shows "map_of (http v) (endpoints v ! i) = Some (worker_cache i (VllmBackend v))"
    and "endpoints v ! i \<in> set (map fst (http v))"
    and "worker_url v (int i) = endpoints v ! i @ ''/v1/chat/completions''"
proof -
  have n: "length (endpoints v) = n" "map fst (http v) = endpoints v" using assms(1) by (auto simp: mocked_def)
  show e: "endpoints v ! i \<in> set (map fst (http v))" unfolding n(2) using n(1) assms(2) by simp
  then have "map_of (http v) (endpoints v ! i) \<noteq> None" by (simp add: map_of_eq_None_keys del: set_map)
  then show "map_of (http v) (endpoints v ! i) = Some (worker_cache i (VllmBackend v))" by auto
  show "worker_url v (int i) = endpoints v ! i @ ''/v1/chat/completions''" using n(1) assms(2) by (simp add: worker_url_def)
qed

lemma mock_aexecute:
  assumes v: "mocked n (VllmBackend v)" "i < n" and t: "message_text ms = Inr t"
  defines "cache \<equiv> worker_cache i (VllmBackend v)"
  shows "\<exists>v'. aexecute mock_http (\<lambda>k. el) ms mt (int i) v =
      (Inr \<lparr>wr_usage = mock_usage (mock_tokens t) (longest_cached t cache 0), wr_elapsed_ms = el, wr_ttft_ms = el,
            wr_text = JStr ''fixed the bug''\<rparr>, v') \<and>
    mocked n (VllmBackend v') \<and> worker_cache i (VllmBackend v') = AList.update t (mock_tokens t) cache \<and>
    (\<forall>j < n. j \<noteq> i \<longrightarrow> worker_cache j (VllmBackend v') = worker_cache j (VllmBackend v))"
proof -
  have n: "length (endpoints v) = n" "distinct (endpoints v)" "map fst (http v) = endpoints v" "0 \<le> max_retries v"
    using v(1) by (auto simp: mocked_def)
  let ?e = "endpoints v ! i"
  note worker = mocked_worker [OF v, folded cache_def]
  have "nat (1 + max_retries v) = Suc (nat (max_retries v))" using n(4) by linarith
  then obtain rest where fb: "fallbacks v (int i) = int i # rest"
    using n(4) by (simp add: fallbacks_def take_slice_def)
  let ?u = "mock_usage (mock_tokens t) (longest_cached t cache 0)"
  have chat: "mock_chat (payload v ms mt False) cache = (Inr (Whole (whole_answer ?u)), AList.update t (mock_tokens t) cache)"
    using t by (simp add: mock_chat_def mock_text_messages account_def)
  let ?ws = "AList.update ?e (AList.update t (mock_tokens t) cache) (http v)"
  have post: "http_post mock_http (worker_url v (int i)) (payload v ms mt False) (http v) =
      (Inr \<lparr>resp_ok = True, resp_json = Inr (whole_answer ?u)\<rparr>, ?ws)"
    using find_worker [OF worker(1), of "''/v1/chat/completions''"] chat
    by (simp add: mock_http_def mock_post_def worker(3))
  have answer: "read_answer (Inr (whole_answer ?u)) el = Inr \<lparr>wr_usage = ?u, wr_elapsed_ms = el, wr_ttft_ms = el,
      wr_text = JStr ''fixed the bug''\<rparr>"
    by (simp add: whole_answer_def read_answer_def answer_text_def json_first_def json_or_def mock_usage_def)
  have keys: "map fst ?ws = endpoints v" using n(3) worker(2) by (simp add: AList.update_keys del: set_map)
  have "endpoints v ! j \<noteq> ?e" if "j < n" "j \<noteq> i" for j
    using that n(1,2) v(2) by (simp add: nth_eq_iff_index_eq)
  with n keys show ?thesis
    by (intro exI [of _ "v\<lparr>http := ?ws\<rparr>"]) (simp add: aexecute_def fb post answer mocked_def)
qed

lemma mock_streamed:
  assumes v: "mocked n (VllmBackend v)" "i < n" and t: "message_text ms = Inr t"
    and lib: "\<forall>cached. codec loads dumps (mock_chunks (mock_usage (mock_tokens t) cached))"
  shows "\<exists>lines broken h ttft cached. 0 \<le> cached \<and>
    up_stream (mock_upstream loads dumps) (worker_url v (int i)) (payload v ms mt True) (http v) = ((lines, broken), h) \<and>
    astream loads watch elapsed lines broken =
      (map JStr mock_words, Inr \<lparr>wr_usage = mock_usage (mock_tokens t) cached, wr_elapsed_ms = elapsed, wr_ttft_ms = ttft,
         wr_text = JStr ''fixed the bug''\<rparr>)"
proof -
  let ?cache = "worker_cache i (VllmBackend v)" and ?e = "endpoints v ! i"
  note worker = mocked_worker [OF v]
  define cached where "cached = longest_cached t ?cache 0"
  have "mock_chat (payload v ms mt True) ?cache = (Inr (Chunks (mock_chunks (mock_usage (mock_tokens t) cached))),
      AList.update t (mock_tokens t) ?cache)"
    using t by (simp add: mock_chat_def mock_text_messages account_def cached_def)
  then have "up_stream (mock_upstream loads dumps) (worker_url v (int i)) (payload v ms mt True) (http v) =
      ((mock_lines dumps (mock_chunks (mock_usage (mock_tokens t) cached)), None),
       AList.update ?e (AList.update t (mock_tokens t) ?cache) (http v))"
    using find_worker [OF worker(1), of "''/v1/chat/completions''"] by (simp add: mock_stream_def worker(3))
  moreover have "0 \<le> cached" unfolding cached_def by (rule longest_cached_ge0)
  ultimately show ?thesis using mock_stream_read lib by blast
qed

subsection \<open>Results and answers\<close>

definition answered :: "string \<Rightarrow> nat \<Rightarrow> int \<Rightarrow> json \<Rightarrow> bool" where
  \<comment> \<open>the answer as the live replay and the integration check read it: replica \<open>i\<close>, \<open>cached\<close> tokens reused\<close>
  "answered sid i cached j \<longleftrightarrow>
     (\<forall>k lat. \<exists>prompt. read_record sid k j lat = Inr \<lparr>cr_session_id = sid, cr_turn = k, cr_prompt_tokens = prompt,
        cr_cached_tokens = cached, cr_latency_ms = lat, cr_replica = JInt (int i), cr_ok = True\<rparr>) \<and>
     read_turn j = Inr \<lparr>tv_replica = JInt (int i), tv_tier = JStr (if 0 < cached then ''gpu'' else ''miss'')\<rparr>"

lemma response_answered:
  assumes "c_body cl = JDict d" "c_sid cl = sid"
    and res: "rr_replica_id res = int i" "reused_tokens res = cached" "rr_tier res = (if 0 < cached then GPU else MISS)"
  shows "\<exists>j. chat_response m cl now gap res = Inr j \<and> answered sid i cached j"
  using assms
  by (auto simp: chat_response_def answered_def read_record_def read_turn_def Let_def json_or_def int_field_def
      json_item_def printable_def json_first_def)

lemma vllm_result_room:
  assumes r: "room quota P r" "keeps_within B (policy r)" "rep_id r = int i" and el: "0 \<le> el" and B: "0 \<le> B" "gap \<le> B"
    and n: "sid \<in> P" "mock_tokens t + 5 \<le> quota sid"
    and w: "w = \<lparr>wr_usage = mock_usage (mock_tokens t) cached, wr_elapsed_ms = el, wr_ttft_ms = el, wr_text = answer\<rparr>"
  shows "\<exists>res r'. vllm_result w r sid pt ot now (now + gap) = Inr (res, r') \<and> room quota P r' \<and>
    fst (lookup sid r') \<noteq> MISS \<and> (\<forall>k. k \<noteq> sid \<longrightarrow> lookup k r' = lookup k r) \<and> frame_of r' = frame_of r \<and>
    rr_replica_id res = int i \<and> reused_tokens res = cached \<and> 0 \<le> computed_tokens res \<and> rr_tier res = (if 0 < cached then GPU else MISS) \<and>
    latency_ms res = el"
proof -
  have usage: "usage_counts (wr_usage w) pt ot = Inr (cached, mock_tokens t, 5)"
    using mock_usage_counts [of "mock_tokens t" cached pt ot] mock_tokens_pos [of t] by (simp add: w)
  have "now + gap - (now + el) \<le> B" using el B by simp
  from store_room [OF r(1,2) n(1) _ n(2) this B(1)] mock_tokens_pos [of t] obtain r' where
    "store sid (mock_tokens t + 5) (now + el) (now + gap) r = Inr r'" "room quota P r'" "fst (lookup sid r') \<noteq> MISS"
    "\<forall>k. k \<noteq> sid \<longrightarrow> lookup k r' = lookup k r" "frame_of r' = frame_of r" by auto
  with usage r(3) show ?thesis
    by (simp add: vllm_result_def w latency_ms_def)
qed

lemma vllm_result_total:
  assumes "wf_replica r" "code_policy (policy r)" "usage_counts (wr_usage w) pt ot = Inr (cached, prompt, completion)"
    and "0 \<le> prompt + completion"
    and "wr_ttft_ms w = wr_elapsed_ms w"
  shows "\<exists>res r'. vllm_result w r sid pt ot now ret = Inr (res, r') \<and> latency_ms res = wr_elapsed_ms w \<and>
    reused_tokens res = cached \<and> 0 \<le> computed_tokens res"
  using store_wf [OF assms(1,2,4), of sid "now + wr_elapsed_ms w" ret] assms(3,5)
  by (auto simp: vllm_result_def latency_ms_def)

subsection \<open>Calls and conversations\<close>

definition serving_config :: "cluster_config \<Rightarrow> real \<Rightarrow> bool" where
  \<comment> \<open>no estimate of the predictor exceeds \<open>B\<close>, as long as no observed gap does\<close>
  "serving_config c B \<longleftrightarrow> wf_predictor_config (cc_predictor c) \<and> prior_ms (cc_predictor c) \<le> B \<and> 0 \<le> B"

definition good_visit :: "(real \<Rightarrow> bool) \<Rightarrow> (string \<Rightarrow> int) \<Rightarrow> string option \<Rightarrow> tokenizer \<Rightarrow> string \<Rightarrow> visit \<Rightarrow> string \<Rightarrow> bool" where
  \<comment> \<open>an accepted call of the session, not streaming, with text \<open>t\<close> within the session's quota, with clock readings
      in order and an end the session store can keep\<close>
  "good_visit storable quota key tk sid v t \<longleftrightarrow>
     (\<exists>cl. read_call key tk (vs_request v) = Inr cl \<and> c_sid cl = sid \<and> \<not> c_stream cl \<and>
        message_text (c_messages cl) = Inr t) \<and> mock_tokens t + 5 \<le> quota sid \<and> 0 \<le> vs_elapsed v \<and>
     fst (vs_clocks v) \<le> fst (snd (vs_clocks v)) \<and> fst (snd (vs_clocks v)) \<le> snd (snd (vs_clocks v)) \<and>
     snd (snd (vs_clocks v)) \<le> vs_clock v \<and> storable (vs_now v + vs_elapsed v)"

type_synonym session_call = "string \<times> visit \<times> string" \<comment> \<open>the session, its request and the text of its prompt\<close>

fun in_order :: "real \<Rightarrow> (string \<Rightarrow> (real \<times> string) option) \<Rightarrow> real \<Rightarrow> session_call list \<Rightarrow> bool" where
  \<comment> \<open>no call starts before the one before has ended; every prompt extends the latest one of its session, which was
      at most \<open>B\<close> earlier\<close>
  "in_order B latest lo [] = True"
| "in_order B latest lo ((sid, v, t) # calls) =
     (lo \<le> fst (vs_clocks v) \<and>
      (case latest sid of None \<Rightarrow> True | Some (m, t0) \<Rightarrow> vs_now v - m \<le> B \<and> Sublist.prefix t0 t) \<and>
      in_order B (latest(sid \<mapsto> (vs_now v, t))) (vs_clock v) calls)"

fun all_hit :: "(string \<Rightarrow> (nat \<times> string) option) \<Rightarrow> (string \<times> string) list \<Rightarrow> json list \<Rightarrow> bool" where
  \<comment> \<open>every answer comes from the replica that served the session before, with the prompt before it in the cache\<close>
  "all_hit homes [] [] = True"
| "all_hit homes ((sid, t) # ts) (j # js) =
     (\<exists>i cached. answered sid i cached j \<and>
        (\<forall>i0 t0. homes sid = Some (i0, t0) \<longrightarrow> i = i0 \<and> mock_tokens t0 \<le> cached \<and> Sublist.prefix t0 t) \<and>
        all_hit (homes(sid \<mapsto> (i, t))) ts js)"
| "all_hit homes _ _ = False"

lemma all_hit_nth:
  "all_hit homes ts js \<Longrightarrow> \<exists>home. (\<forall>sid i t. homes sid = Some (i, t) \<longrightarrow> home sid = i) \<and> length js = length ts \<and>
     (\<forall>k < length js. \<exists>cached. answered (fst (ts ! k)) (home (fst (ts ! k))) cached (js ! k) \<and>
        (\<forall>i t. homes (fst (ts ! k)) = Some (i, t) \<longrightarrow> mock_tokens t \<le> cached) \<and>
        (\<forall>l < k. fst (ts ! l) = fst (ts ! k) \<longrightarrow> mock_tokens (snd (ts ! l)) \<le> cached))"
proof (induction homes ts js rule: all_hit.induct)
  case (1 homes)
  show ?case by (intro exI [of _ "\<lambda>sid. case homes sid of None \<Rightarrow> 0 | Some (i, t) \<Rightarrow> i"]) simp
next
  case (2 homes sid t ts j js)
  then obtain i cached where j: "answered sid i cached j"
    "\<And>i0 t0. homes sid = Some (i0, t0) \<Longrightarrow> i = i0 \<and> mock_tokens t0 \<le> cached \<and> Sublist.prefix t0 t"
    and js: "all_hit (homes(sid \<mapsto> (i, t))) ts js" by auto
  from "2.IH" [OF js] obtain home where
    home: "\<And>s i' t'. (homes(sid \<mapsto> (i, t))) s = Some (i', t') \<Longrightarrow> home s = i'" and len: "length js = length ts" and
    IH: "\<And>k. k < length js \<Longrightarrow> \<exists>cached. answered (fst (ts ! k)) (home (fst (ts ! k))) cached (js ! k) \<and>
        (\<forall>i' t'. (homes(sid \<mapsto> (i, t))) (fst (ts ! k)) = Some (i', t') \<longrightarrow> mock_tokens t' \<le> cached) \<and>
        (\<forall>l < k. fst (ts ! l) = fst (ts ! k) \<longrightarrow> mock_tokens (snd (ts ! l)) \<le> cached)" by blast
  have "\<exists>cached. answered (fst (((sid, t) # ts) ! k)) (home (fst (((sid, t) # ts) ! k))) cached ((j # js) ! k) \<and>
      (\<forall>i t'. homes (fst (((sid, t) # ts) ! k)) = Some (i, t') \<longrightarrow> mock_tokens t' \<le> cached) \<and>
      (\<forall>l < k. fst (((sid, t) # ts) ! l) = fst (((sid, t) # ts) ! k) \<longrightarrow> mock_tokens (snd (((sid, t) # ts) ! l)) \<le> cached)"
    if k: "k < length (j # js)" for k
  proof (cases k)
    case 0
    have "home sid = i" using home [of sid] by simp
    with 0 j show ?thesis by (intro exI [of _ cached]) auto
  next
    case (Suc m)
    with k IH [of m] obtain c where c: "answered (fst (ts ! m)) (home (fst (ts ! m))) c (js ! m)"
      "\<And>i' t'. (homes(sid \<mapsto> (i, t))) (fst (ts ! m)) = Some (i', t') \<Longrightarrow> mock_tokens t' \<le> c"
      "\<And>l. l < m \<Longrightarrow> fst (ts ! l) = fst (ts ! m) \<Longrightarrow> mock_tokens (snd (ts ! l)) \<le> c" by auto
    have own: "mock_tokens t \<le> c" if "fst (ts ! m) = sid" using c(2) [of i t] that by simp
    have "mock_tokens t' \<le> c" if "homes (fst (ts ! m)) = Some (i', t')" for i' t'
    proof (cases "fst (ts ! m) = sid")
      case True
      then show ?thesis using own j(2) [of i' t'] that mock_tokens_mono [OF Sublist.prefix_length_le, of t' t] by simp
    qed (use c(2) [of i' t'] that in simp)
    moreover have "mock_tokens (snd (((sid, t) # ts) ! l)) \<le> c"
      if "l < k" "fst (((sid, t) # ts) ! l) = fst (ts ! m)" for l
      using that own c(3) Suc by (cases l) auto
    ultimately show ?thesis using c(1) Suc by (intro exI [of _ c]) auto
  qed
  moreover have "home s = i'" if "homes s = Some (i', t')" for s i' t'
    using that home [of s] j(2) by (cases "s = sid") auto
  ultimately show ?case using len by (intro exI [of _ home]) auto
qed auto

definition affinity_settings :: "settings \<Rightarrow> cluster_config \<Rightarrow> real \<Rightarrow> bool" where
  \<comment> \<open>accepted settings for affinity routing over distinct workers, with bounds the adaptive policy keeps\<close>
  "affinity_settings s c B \<longleftrightarrow>
     (\<exists>env. load_settings env = Inr s) \<and> set_backend s = ''vllm'' \<and> set_router s = ''affinity'' \<and>
     finite_cluster (set_cluster s) = Some c \<and> distinct (map rstrip_slash (vllm_endpoints s)) \<and>
     prior_ms (cc_predictor c) \<le> B \<and> B \<le> offload_threshold_ms (cc_policy c)"

definition traffic :: "(real \<Rightarrow> bool) \<Rightarrow> settings \<Rightarrow> cluster_config \<Rightarrow> tokenizer \<Rightarrow> real \<Rightarrow> real \<Rightarrow> (string \<Rightarrow> int) \<Rightarrow> session_call list \<Rightarrow> bool" where
  \<comment> \<open>accepted calls of sessions that the store and each replica have room for, in order, all within a lifetime\<close>
  "traffic storable s c tk B lifetime quota calls \<longleftrightarrow>
     calls \<noteq> [] \<and> in_order B (\<lambda>sid. None) (fst (vs_clocks (fst (snd (hd calls))))) calls \<and>
     (\<forall>(sid, v, t) \<in> set calls. good_visit storable quota (api_key s) tk sid v t \<and>
        vs_clock v \<le> fst (vs_clocks (fst (snd (hd calls)))) + lifetime) \<and>
     fitting quota (fst ` set calls) (hardware c) \<and> int (card (fst ` set calls)) \<le> set_max_sessions s"

subsection \<open>The gateway between two calls\<close>

context roomy_store
begin

definition in_service :: "cluster_config \<Rightarrow> real \<Rightarrow> (string \<Rightarrow> int) \<Rightarrow> string set \<Rightarrow> 's gateway \<Rightarrow> bool" where
  \<comment> \<open>room for the sessions \<open>P\<close>, and only gaps up to \<open>B\<close> observed\<close>
  "in_service c B quota P g \<longleftrightarrow>
     wf_cluster (g_replicas g) \<and>
     (\<forall>r \<in> set (g_replicas g). hw r = hardware c \<and> pending r = [] \<and> room quota P r \<and> keeps_within B (policy r)) \<and>
     inv (g_store g) \<and> (\<exists>ar. g_router g = GAffinity ar \<and> ar_config ar = cc_policy c) \<and>
     (\<exists>h. predictor_after (cc_predictor c) h (g_predictor g) \<and> (\<forall>x \<in> set (gaps h). 0 \<le> x \<and> x \<le> B))"

definition remembered :: "string \<Rightarrow> (nat \<times> real) option \<Rightarrow> real \<Rightarrow> real \<Rightarrow> 's gateway \<Rightarrow> bool" where
  \<comment> \<open>what store and replica hold of a session last served by replica \<open>i\<close> at time \<open>m\<close>, for clock readings
      from \<open>lo\<close> to \<open>hi\<close>\<close>
  "remembered sid prev lo hi g \<longleftrightarrow>
     (case prev of
        None \<Rightarrow> \<forall>t. lo \<le> t \<longrightarrow> home_at t (g_store g) sid = None \<and> seen_at t (g_store g) sid = None
      | Some (i, m) \<Rightarrow>
          i < length (g_replicas g) \<and> fst (lookup sid (g_replicas g ! i)) \<noteq> MISS \<and>
          (\<forall>t. lo \<le> t \<longrightarrow> t \<le> hi \<longrightarrow> home_at t (g_store g) sid = Some (int i) \<and>
             (\<exists>x. seen_at t (g_store g) sid = Some x \<and> m \<le> x)))"

lemma remembered_spared:
  assumes "remembered k prev lo hi g" and "spares t sid (g_store g) (g_store g')" "k \<noteq> sid" "t \<le> lo'" "lo \<le> lo'"
    and "length (g_replicas g') = length (g_replicas g)"
    and "\<And>i. i < length (g_replicas g) \<Longrightarrow> lookup k (g_replicas g' ! i) = lookup k (g_replicas g ! i)"
  shows "remembered k prev lo' hi g'"
  using assms by (auto simp: remembered_def spares_def split: option.splits)

definition standing :: "cluster_config \<Rightarrow> ('s, mock_cluster) app \<Rightarrow> bool" where
  \<comment> \<open>the gateway can schedule, and there is a mock worker behind every replica\<close>
  "standing c a \<longleftrightarrow> routable c (app_gateway a) \<and> mocked (length (g_replicas (app_gateway a))) (app_backend a)"

lemma in_service_standing: "in_service c B quota P (app_gateway a) \<Longrightarrow> mocked (length (g_replicas (app_gateway a))) (app_backend a) \<Longrightarrow> standing c a"
  by (auto simp: in_service_def standing_def routable_def)

lemma select_remembered:
  assumes g: "in_service c B quota P g" and ar: "g_router g = GAffinity ar"
    and free: "\<forall>i m. prev = Some (i, m) \<longrightarrow> active (g_replicas g ! i) \<le> affinity_queue_limit (ar_config ar)"
    and home: "case prev of None \<Rightarrow> home_at t2 (g_store g) sid = None
      | Some (i, m) \<Rightarrow> i < length (g_replicas g) \<and> fst (lookup sid (g_replicas g ! i)) \<noteq> MISS \<and>
          (\<forall>t. t2 \<le> t \<longrightarrow> t \<le> hi \<longrightarrow> home_at t (g_store g) sid = Some (int i))"
    and window: "t2 \<le> hi" "hi \<le> t3 + ttl (g_store g)"
  shows "\<exists>i ar' s. gw_select ops (t2, t3) sid now g = (Inr i, g\<lparr>g_router := GAffinity ar', g_store := s\<rparr>) \<and>
    ar_config ar' = ar_config ar \<and> inv s \<and> ttl s = ttl (g_store g) \<and> i < length (g_replicas g) \<and>
    (\<forall>i0 m. prev = Some (i0, m) \<longrightarrow> i = i0) \<and> (\<forall>t. t2 \<le> t \<longrightarrow> t \<le> hi \<longrightarrow> home_at t s sid = Some (int i))"
proof -
  have s: "inv (g_store g)" and reps: "wf_cluster (g_replicas g)" using g by (simp_all add: in_service_def)
  show ?thesis
  proof (cases prev)
    case None
    with home have none: "home_at t2 (g_store g) sid = None" by simp
    have cold: "\<not> warm_at (g_replicas g) (home_at (fst (t2, t3)) (g_store g) sid) sid h" for h
      using none by (simp add: warm_at_def)
    from select_cold [OF s cold reps, of now ar] obtain i s' where
      sel: "affinity_select ops (g_replicas g) sid now (t2, t3) ar (g_store g) = (Inr i, ar, s')"
      "minimal_load (g_replicas g) now {..<length (g_replicas g)} i" "inv s'" "ttl s' = ttl (g_store g)"
      "\<forall>t. t \<le> t3 + ttl (g_store g) \<longrightarrow> home_at t s' sid = Some (int i)" by auto
    have "gw_select ops (t2, t3) sid now g = (Inr i, g\<lparr>g_router := GAffinity ar, g_store := s'\<rparr>)"
      using sel(1) ar by (simp add: gw_select_def)
    moreover have "\<forall>t. t2 \<le> t \<longrightarrow> t \<le> hi \<longrightarrow> home_at t s' sid = Some (int i)" using sel(5) window by auto
    moreover have "i < length (g_replicas g)" using sel(2) by (simp add: minimal_load_def)
    ultimately show ?thesis using None sel(3,4)
      by (intro exI [of _ i] exI [of _ ar] exI [of _ s']) simp
  next
    case (Some q)
    obtain i m where q: "q = (i, m)" by fastforce
    with home Some have i: "i < length (g_replicas g)" "fst (lookup sid (g_replicas g ! i)) \<noteq> MISS"
      and h: "\<forall>t. t2 \<le> t \<longrightarrow> t \<le> hi \<longrightarrow> home_at t (g_store g) sid = Some (int i)" by auto
    have warm: "warm_at (g_replicas g) (home_at (fst (t2, t3)) (g_store g) sid) sid i"
      using i h window by (simp add: warm_at_def)
    have "inflight (g_replicas g ! i) \<le> affinity_queue_limit (ar_config ar)"
      using g i(1) free Some q by (simp add: in_service_def inflight_def)
    from select_warm [OF s warm this, of now] obtain s' where
      sel: "affinity_select ops (g_replicas g) sid now (t2, t3) ar (g_store g) =
        (Inr i, ar\<lparr>affinity_hits := affinity_hits ar + 1\<rparr>, s')" "inv s'" "ttl s' = ttl (g_store g)"
      "\<forall>t k. t2 \<le> t \<longrightarrow> home_at t s' k = home_at t (g_store g) k" by auto
    let ?ar = "ar\<lparr>affinity_hits := affinity_hits ar + 1\<rparr>"
    have "gw_select ops (t2, t3) sid now g = (Inr i, g\<lparr>g_router := GAffinity ?ar, g_store := s'\<rparr>)"
      using sel(1) ar by (simp add: gw_select_def)
    with sel i h Some q show ?thesis
      by (intro exI [of _ i] exI [of _ ?ar] exI [of _ s']) simp
  qed
qed

lemma schedule_remembered:
  assumes g: "in_service c B quota P g" and rem: "remembered sid prev lo hi g"
    and c: "wf_predictor_config (cc_predictor c)" "prior_ms (cc_predictor c) \<le> B" "0 \<le> B"
    and clocks: "lo \<le> t1" "t1 \<le> t2" "t2 \<le> t3" "t2 \<le> hi" "hi \<le> t1 + ttl (g_store g)"
    and soon: "\<forall>i m. prev = Some (i, m) \<longrightarrow> now - m \<le> B"
    and free: "\<forall>i m. prev = Some (i, m) \<longrightarrow> active (g_replicas g ! i) \<le> affinity_queue_limit (cc_policy c)"
  shows "\<exists>i gap g1. schedule ops (t1, t2, t3) sid tool now g = (Inr (i, gap), g1) \<and> in_service c B quota P g1 \<and>
    g_replicas g1 = g_replicas g \<and> ttl (g_store g1) = ttl (g_store g) \<and> i < length (g_replicas g) \<and> gap \<le> B \<and>
    (\<forall>i0 m. prev = Some (i0, m) \<longrightarrow> i = i0) \<and>
    (\<forall>t. t2 \<le> t \<longrightarrow> t \<le> hi \<longrightarrow> home_at t (g_store g1) sid = Some (int i))"
proof -
  have s0: "inv (g_store g)" and idle: "\<forall>r \<in> set (g_replicas g). pending r = []"
    using g by (simp_all add: in_service_def)
  obtain h where h: "predictor_after (cc_predictor c) h (g_predictor g)" "\<forall>x \<in> set (gaps h). 0 \<le> x \<and> x \<le> B"
    using g by (auto simp: in_service_def)
  obtain ar where ar: "g_router g = GAffinity ar" "ar_config ar = cc_policy c"
    using g by (auto simp: in_service_def)
  from get_seen_law [OF s0, of t1 sid] obtain s1 where
    s1: "get_last_seen ops t1 sid (g_store g) = (Inr (seen_at t1 (g_store g) sid), s1)" "inv s1"
    "ttl s1 = ttl (g_store g)" "\<forall>t k. home_at t s1 k = home_at t (g_store g) k" by blast
  have short: "now - x \<le> B" if "seen_at t1 (g_store g) sid = Some x" for x
  proof (cases prev)
    case None
    with rem clocks(1) that show ?thesis by (simp add: remembered_def)
  next
    case (Some q)
    obtain i m where q: "q = (i, m)" by fastforce
    have "t1 \<le> hi" using clocks by linarith
    with rem Some q that clocks(1) have "m \<le> x" by (auto simp: remembered_def)
    moreover have "now - m \<le> B" using soon Some q by blast
    ultimately show ?thesis by linarith
  qed
  from learn_return_short [OF h short c(3)] obtain p h' where
    p: "learn_return sid tool now (seen_at t1 (g_store g) sid) (g_predictor g) = Inr p"
    "predictor_after (cc_predictor c) h' p" "\<forall>x \<in> set (gaps h'). 0 \<le> x \<and> x \<le> B" by blast
  let ?g3 = "g\<lparr>g_replicas := map (prune now) (g_replicas g), g_store := s1, g_predictor := p\<rparr>"
  have g3: "in_service c B quota P ?g3" using g s1(2) p(2,3) prune_idle [OF idle] by (auto simp: in_service_def)
  have home: "case prev of None \<Rightarrow> home_at t2 (g_store ?g3) sid = None
      | Some (i, m) \<Rightarrow> i < length (g_replicas ?g3) \<and> fst (lookup sid (g_replicas ?g3 ! i)) \<noteq> MISS \<and>
          (\<forall>t. t2 \<le> t \<longrightarrow> t \<le> hi \<longrightarrow> home_at t (g_store ?g3) sid = Some (int i))"
    using rem clocks s1(4) prune_idle [OF idle] by (auto simp: remembered_def split: option.splits)
  have w: "hi \<le> t3 + ttl (g_store ?g3)" using clocks s1(3) by simp
  have ar3: "g_router ?g3 = GAffinity ar" using ar(1) by simp
  have free3: "\<forall>i m. prev = Some (i, m) \<longrightarrow> active (g_replicas ?g3 ! i) \<le> affinity_queue_limit (ar_config ar)"
    using free ar(2) prune_idle [OF idle] by simp
  from select_remembered [OF g3 ar3 free3 home clocks(4) w, of now] obtain i ar' s where
    sel: "gw_select ops (t2, t3) sid now ?g3 = (Inr i, ?g3\<lparr>g_router := GAffinity ar', g_store := s\<rparr>)"
    "ar_config ar' = ar_config ar" "inv s" "ttl s = ttl (g_store ?g3)" "i < length (g_replicas ?g3)"
    "\<forall>i0 m. prev = Some (i0, m) \<longrightarrow> i = i0" "\<forall>t. t2 \<le> t \<longrightarrow> t \<le> hi \<longrightarrow> home_at t s sid = Some (int i)" by blast
  have "0 < min_observations (cc_predictor c)" "0 \<le> ewma_alpha (cc_predictor c)" "ewma_alpha (cc_predictor c) \<le> 1"
    "0 \<le> prior_ms (cc_predictor c)" using c(1) by (auto simp: wf_predictor_config_def)
  note pc = this
  from predict_after [OF p(2) pc(1), of sid tool] obtain p' where
    p': "predict_ms sid tool p = Inr (predict_spec (cc_predictor c) h' sid tool, p')"
    "predictor_after (cc_predictor c) h' p'" by blast
  have gap: "predict_spec (cc_predictor c) h' sid tool \<le> B"
    using predict_spec_bounds [OF pc(2,3) p(3) pc(4) c(2)] by blast
  show ?thesis
    using s1(1,3) p(1) sel p' gap g3 ar(2) p(3) prune_idle [OF idle]
    by (auto simp: schedule_def Let_def in_service_def)
qed

lemma in_service_replica:
  assumes g: "in_service c B quota P g" and i: "i < length (g_replicas g)"
    and r': "rep_id r' = int i" "hw r' = hardware c" "pending r' = []" "room quota P r'" "keeps_within B (policy r')"
  shows "in_service c B quota P (g\<lparr>g_replicas := (g_replicas g)[i := r']\<rparr>)"
proof -
  have wf: "wf_cluster (g_replicas g)" "hw (g_replicas g ! i) = hardware c" using g i by (auto simp: in_service_def)
  have "wf_cluster ((g_replicas g)[i := r'])"
    using wf i r' wf_clusterD(4) [OF wf(1) i] keeps_within_code [OF r'(5)]
    by (intro wf_cluster_update) (simp_all add: room_def)
  with g r' show ?thesis by (auto simp: in_service_def dest!: set_update_subset_insert [THEN subsetD])
qed

lemma in_service_at:
  assumes "in_service c B quota P g" "i < length (g_replicas g)"
  shows "rep_id (g_replicas g ! i) = int i" "hw (g_replicas g ! i) = hardware c" "pending (g_replicas g ! i) = []"
    "room quota P (g_replicas g ! i)" "keeps_within B (policy (g_replicas g ! i))"
  using assms wf_clusterD(1) [of "g_replicas g" i] by (auto simp: in_service_def)

lemma in_service_enter:
  assumes "in_service c B quota P g" "i < length (g_replicas g)"
  shows "in_service c B quota P (enter_slot i g)"
  unfolding enter_slot_def using in_service_at [OF assms] room_enter [of quota P "g_replicas g ! i"]
  by (intro in_service_replica [OF assms]) (simp_all add: slot_enter_def Let_def)

lemma in_service_leave:
  assumes "in_service c B quota P g" "i < length (g_replicas g)" and r': "room quota P r'" "frame_of r' = frame_of (g_replicas g ! i)"
  shows "in_service c B quota P (leave_slot i (g\<lparr>g_replicas := (g_replicas g)[i := r']\<rparr>))"
proof -
  have "in_service c B quota P (g\<lparr>g_replicas := (g_replicas g)[i := slot_exit r']\<rparr>)"
    using in_service_at [OF assms(1,2)] room_exit [OF r'(1)] r'(2)
    by (intro in_service_replica [OF assms(1,2)]) (simp_all add: slot_exit_def frame_of_def load_of_def)
  then show ?thesis using assms(2) by (simp add: leave_slot_def)
qed

lemma finished_visit:
  assumes g: "in_service c B quota P g" "roomy P (g_store g)" and sid: "sid \<in> P" and i: "i < length (g_replicas g)"
    and r': "room quota P r'" "frame_of r' = frame_of (g_replicas g ! i)" "fst (lookup sid r') \<noteq> MISS"
      "\<forall>k. k \<noteq> sid \<longrightarrow> lookup k r' = lookup k (g_replicas g ! i)"
    and stored: "storable (now + latency_ms res)" and counts: "0 \<le> reused_tokens res" "0 \<le> computed_tokens res"
    and home: "\<forall>t. lo \<le> t \<longrightarrow> t \<le> hi \<longrightarrow> home_at t (g_store g) sid = Some (int i)"
    and window: "clock \<le> hi" "lo \<le> clock" "hi \<le> clock + ttl (g_store g)" and el: "now \<le> now + latency_ms res"
  defines "g3 \<equiv> leave_slot i (g\<lparr>g_replicas := (g_replicas g)[i := r']\<rparr>)"
  shows "\<exists>g4. record_result ops clock sid res now g3 = (Inr (), g4) \<and> in_service c B quota P g4 \<and> roomy P (g_store g4) \<and>
    ttl (g_store g4) = ttl (g_store g) \<and> g_replicas g4 = (g_replicas g)[i := slot_exit r'] \<and>
    remembered sid (Some (i, now)) clock hi g4 \<and> spares clock sid (g_store g) (g_store g4)"
proof -
  have g3: "in_service c B quota P g3" unfolding g3_def by (rule in_service_leave [OF g(1) i r'(1,2)])
  have store3: "g_store g3 = g_store g" by (simp add: g3_def leave_slot_def)
  have inv: "inv (g_store g)" using g(1) by (simp add: in_service_def)
  let ?x = "now + latency_ms res"
  from set_seen_law [OF inv stored, of clock sid] obtain s where
    s: "set_last_seen ops clock sid ?x (g_store g) = (Inr (), s)" "inv s" "ttl s = ttl (g_store g)"
    "\<forall>t. t \<le> clock + ttl (g_store g) \<longrightarrow> seen_at t s sid = Some ?x" "\<forall>t k. home_at t s k = home_at t (g_store g) k" by blast
  have others: "roomy P s" "spares clock sid (g_store g) s"
    using roomy_set_seen [OF inv g(2) sid stored, of clock] set_seen_spares [OF inv g(2) sid stored, of clock clock] s(1) by simp_all
  let ?g4 = "g3\<lparr>g_metrics := g_metrics g3 @ fst (observe_result res) @
      [Inc ''agentserve_cache_actions_total'' [(''action'', tier_value (rr_tier res))] 1], g_store := s\<rparr>"
  have "record_result ops clock sid res now g3 = (Inr (), ?g4)"
    using s(1) observe_result_whole [OF counts] by (cases "observe_result res") (simp add: record_result_def Let_def store3)
  moreover have "in_service c B quota P ?g4" using g3 s(2) by (simp add: in_service_def)
  moreover have reps: "g_replicas ?g4 = (g_replicas g)[i := slot_exit r']"
    using i by (simp add: g3_def leave_slot_def)
  moreover have "remembered sid (Some (i, now)) clock hi ?g4"
    using i r'(3) s(4,5) home window el reps by (simp add: remembered_def)
  ultimately show ?thesis using others s(3) by (intro exI [of _ ?g4]) simp
qed

lemma stream_visit_served:
  assumes a: "standing c a" "wf_predictor_config (cc_predictor c)"
    and cl: "read_call (api_key (app_settings a)) (app_tokenizer a) (vs_request v) = Inr cl" "c_stream cl"
      "message_text (c_messages cl) = Inr t"
    and lib: "\<forall>cached. codec loads dumps (mock_chunks (mock_usage (mock_tokens t) cached))"
    and stored: "storable (vs_now v + vs_elapsed v)"
  shows "\<exists>m res a'. serve_visit ops (mock_upstream loads dumps) v a =
    (Inr (EventStream (delta_events (\<lambda>d. Data (envelope (c_sid cl) m (vs_now v) d JNull)) True (map JStr mock_words) @
       [Data (final_event (c_sid cl) (vs_now v) res), StreamDone])), a')"
proof -
  let ?g = "app_gateway a"
  obtain b where b: "app_backend a = VllmBackend b" using a(1) by (auto simp: standing_def mocked_def)
  have m: "mocked (length (g_replicas ?g)) (VllmBackend b)" using a(1) by (simp add: standing_def b)
  from schedule_routable [of c ?g "vs_clocks v" "c_sid cl" "c_tool cl" "vs_now v"] a obtain i gap g1 where
    sched: "schedule ops (vs_clocks v) (c_sid cl) (c_tool cl) (vs_now v) ?g = (Inr (i, gap), g1)" "routable c g1"
    "i < length (g_replicas ?g)" "length (g_replicas g1) = length (g_replicas ?g)" by (auto simp: standing_def)
  let ?r = "slot_enter (g_replicas g1 ! i)"
  have r: "g_replicas (enter_slot i g1) ! i = ?r" using sched(3,4) by (simp add: enter_slot_def)
  have wf: "wf_replica ?r" "code_policy (policy ?r)" "rep_id ?r = int i"
    using sched(2-4) wf_clusterD [of "g_replicas g1" i] by (simp_all add: routable_def wf_slot_enter)
  obtain model where model: "stream_model cl = Inr model"
    using read_call_body [OF cl(1)] by (auto simp: stream_model_def)
  from mock_streamed [OF m sched(3) cl(3) lib, of "c_max cl" "\<lambda>k. vs_elapsed v" "vs_elapsed v"] obtain lines broken h ttft cached where
    cached: "0 \<le> cached" and stream: "mock_stream dumps (worker_url b (int i)) (payload b (c_messages cl) (c_max cl) True) (http b) = ((lines, broken), h)"
    "astream loads (\<lambda>k. vs_elapsed v) (vs_elapsed v) lines broken =
      (map JStr mock_words, Inr \<lparr>wr_usage = mock_usage (mock_tokens t) cached, wr_elapsed_ms = vs_elapsed v, wr_ttft_ms = ttft,
         wr_text = JStr ''fixed the bug''\<rparr>)" by auto
  let ?w = "\<lparr>wr_usage = mock_usage (mock_tokens t) cached, wr_elapsed_ms = vs_elapsed v, wr_ttft_ms = ttft,
      wr_text = JStr ''fixed the bug''\<rparr>"
  have "usage_counts (wr_usage ?w) (c_prompt cl) (c_max cl) = Inr (cached, mock_tokens t, 5)"
    using mock_usage_counts [of "mock_tokens t" cached "c_prompt cl" "c_max cl"] mock_tokens_pos [of t] by simp
  moreover have "0 \<le> mock_tokens t + 5" using mock_tokens_pos [of t] by simp
  moreover have "wr_ttft_ms ?w = wr_elapsed_ms ?w" using astream_ttft [OF stream(2)] by simp
  ultimately obtain res r' where res: "vllm_result ?w ?r (c_sid cl) (c_prompt cl) (c_max cl) (vs_now v) (vs_now v + gap) = Inr (res, r')"
    "latency_ms res = vs_elapsed v" "reused_tokens res = cached" "0 \<le> computed_tokens res"
    using vllm_result_total [OF wf(1,2)] by fastforce
  have store: "inv (g_store (leave_slot i (h\<lparr>g_replicas := rs\<rparr>)))" if "inv (g_store h)" for h :: "'s gateway" and rs
    using that by (simp add: leave_slot_def)
  have "inv (g_store (enter_slot i g1))" using sched(2) by (simp add: routable_def enter_slot_def)
  note rec = record_result_store [OF store [OF this] _ _ res(4), of "vs_now v" "vs_clock v" "c_sid cl"]
  show ?thesis
    using rec [of "(g_replicas (enter_slot i g1))[i := r']"]
    by (auto simp: serve_visit_def chat_endpoint_def serve_stream_def stream_execute_def stream_response_def
        resume_stream_def Let_def cl sched(1) model r b wf(3) [simplified] stream res(1-3) cached stored)
qed

end

subsection \<open>From a fresh start\<close>

definition mock_workers :: "string list \<Rightarrow> mock_cluster" where
  \<comment> \<open>a worker that has served nothing behind every endpoint\<close>
  "mock_workers es = map (\<lambda>e. (rstrip_slash e, [])) es"

definition mocked_start :: "settings \<Rightarrow> cluster_config \<Rightarrow> 's \<Rightarrow> tokenizer \<Rightarrow> ('s, mock_cluster) app" where
  \<comment> \<open>the application over the session store \<open>st\<close>, in front of mock workers that have served nothing\<close>
  "mocked_start s c st tk =
     \<lparr>app_settings = s,
      app_gateway = create_gateway c (set_router s) (set_policy s) st,
      app_backend = VllmBackend
        \<lparr>endpoints = map rstrip_slash (vllm_endpoints s), model_name = vllm_model s, max_retries = vllm_max_retries s,
         failovers = 0, http = mock_workers (vllm_endpoints s)\<rparr>,
      app_tokenizer = tk\<rparr>"

lemma mocked_start_simps [simp]:
  "app_settings (mocked_start s c st tk) = s" "app_tokenizer (mocked_start s c st tk) = tk"
  "app_gateway (mocked_start s c st tk) = create_gateway c (set_router s) (set_policy s) st"
  by (simp_all add: mocked_start_def)

lemma affinity_settings_sound:
  assumes "affinity_settings s c B"
  shows "wf_cluster_config c" "cc_replicas c = int (length (vllm_endpoints s))" "0 < cc_replicas c"
    "0 < vllm_max_retries s" "1 \<le> set_max_sessions s" "serving_config c B"
proof -
  obtain env where env: "load_settings env = Inr s" using assms by (auto simp: affinity_settings_def)
  show c: "wf_cluster_config c"
    using load_settings_sound(5) [OF env] assms by (simp add: affinity_settings_def)
  have "ec_replicas (set_cluster s) = cc_replicas c"
    using assms by (auto simp: affinity_settings_def finite_cluster_def split: option.splits)
  then show "cc_replicas c = int (length (vllm_endpoints s))" "0 < cc_replicas c"
    using load_settings_sound(1,2) [OF env] assms by (simp_all add: affinity_settings_def)
  show "0 < vllm_max_retries s" "1 \<le> set_max_sessions s" using load_settings_sound(3,4) [OF env] by simp_all
  have "wf_predictor_config (cc_predictor c)" using c by (simp add: wf_cluster_config_def)
  with assms show "serving_config c B" by (auto simp: serving_config_def affinity_settings_def wf_predictor_config_def)
qed

subsection \<open>The application as it is created\<close>

definition fresh_redis :: "(string \<Rightarrow> client_error + 'c) \<Rightarrow> ('c \<Rightarrow> bool) \<Rightarrow> ('c \<Rightarrow> string \<Rightarrow> string option) \<Rightarrow> bool" where
  \<comment> \<open>a connection that is made works, to a database that is empty\<close>
  "fresh_redis connect alive reads \<longleftrightarrow> (\<forall>u c. connect u = Inr c \<longrightarrow> alive c \<and> reads c = (\<lambda>k. None))"

lemma create_app_mocked:
  assumes "affinity_settings s c B" "finite_value (session_ttl_s s) = Some L"
    and "create_app connect tiktoken s None (mock_workers (vllm_endpoints s)) = Some (Inr a)"
  shows "\<exists>st. build_session_store connect (redis_url s) L (set_max_sessions s) = Inr st \<and>
    a = mocked_start s c st (new_tokenizer tiktoken (set_tokenizer s))"
  using assms
  by (auto simp: create_app_def affinity_settings_def build_backend_def new_vllm_backend_def mocked_start_def
      split: sum.splits if_splits)

end
