(* ===== verification/Concurrent_Sessions.thy ===== *)
theory Concurrent_Sessions
  imports End_To_End Interleaving
begin

section \<open>Sessions served at the same time\<close>

text \<open>
  The calls of several sessions in flight at once, over the application with affinity routing, the vLLM
  adapter and mock workers. \<open>interleaved\<close> says which lists of segments are an interleaving of the calls:
  each session waits for its answer before it calls again, and no more calls are in flight at an
  arrival than the router tolerates at a home. \<open>hosting\<close> is what gateway, store, replicas, workers and
  the calls in flight hold between two segments; every segment keeps it (\<open>arrive_hosted\<close>,
  \<open>reach_hosted\<close>, \<open>end_hosted\<close>), because what one session does costs the others nothing. Calls served
  one after the other are the special case in which every call's segments are adjacent.
\<close>

subsection \<open>Interleavings of calls\<close>

fun interleaved ::
  "real \<Rightarrow> int \<Rightarrow> session_call list \<Rightarrow> (string \<Rightarrow> (real \<times> string) option) \<Rightarrow> (nat, bool) dict \<Rightarrow> real \<Rightarrow> segment list \<Rightarrow> bool" where
  \<comment> \<open>\<open>latest\<close> is the time and prompt of the session's last answered call; \<open>flying\<close> has the calls in flight and whether
      their worker has answered; clock readings are in order\<close>
  "interleaved B limit calls latest flying lo [] = True"
| "interleaved B limit calls latest flying lo (Arrives k # segs) =
     (k < length calls \<and> map_of flying k = None \<and> int (length flying) \<le> limit \<and>
      (case calls ! k of (sid, v, t) \<Rightarrow>
         list_all (\<lambda>p. fst (calls ! fst p) \<noteq> sid) flying \<and> lo \<le> fst (vs_clocks v) \<and>
         (case latest sid of None \<Rightarrow> True | Some (m, t0) \<Rightarrow> vs_now v - m \<le> B \<and> Sublist.prefix t0 t) \<and>
         interleaved B limit calls latest (AList.update k False flying) (snd (snd (vs_clocks v))) segs))"
| "interleaved B limit calls latest flying lo (Starts k # segs) = interleaved B limit calls latest flying lo segs"
| "interleaved B limit calls latest flying lo (Reaches k # segs) =
     (map_of flying k = Some False \<and> interleaved B limit calls latest (AList.update k True flying) lo segs)"
| "interleaved B limit calls latest flying lo (Ends k # segs) =
     (map_of flying k = Some True \<and>
      (case calls ! k of (sid, v, t) \<Rightarrow>
         lo \<le> vs_clock v \<and>
         interleaved B limit calls (latest(sid \<mapsto> (vs_now v, t))) (AList.delete k flying) (vs_clock v) segs))"

fun endings :: "segment list \<Rightarrow> nat list" where
  "endings [] = []"
| "endings (Ends k # segs) = k # endings segs"
| "endings (s # segs) = endings segs"

definition session_prompt :: "session_call list \<Rightarrow> nat \<Rightarrow> string \<times> string" where
  "session_prompt calls k = (fst (calls ! k), snd (snd (calls ! k)))"

definition call_visit :: "session_call list \<Rightarrow> nat \<Rightarrow> visit" where
  "call_visit calls k = fst (snd (calls ! k))"

text \<open>The calls one after the other.\<close>

lemma in_order_interleaved:
  assumes "in_order B latest lo (drop k calls)" "0 \<le> limit" "k \<le> length calls"
    and "\<forall>(sid, v, t) \<in> set calls. snd (snd (vs_clocks v)) \<le> vs_clock v"
  shows "interleaved B limit calls latest [] lo (concat (map all_segments [k..<length calls]))"
  using assms
proof (induction "length calls - k" arbitrary: k latest lo)
  case (Suc n)
  then have k: "k < length calls" by simp
  obtain sid v t where call: "calls ! k = (sid, v, t)" by (cases "calls ! k")
  have drop: "drop k calls = (sid, v, t) # drop (Suc k) calls" using Cons_nth_drop_Suc [OF k] call by simp
  have upt: "[k..<length calls] = k # [Suc k..<length calls]" using k by (simp add: upt_conv_Cons)
  have order: "lo \<le> fst (vs_clocks v)" "in_order B (latest(sid \<mapsto> (vs_now v, t))) (vs_clock v) (drop (Suc k) calls)"
    "case latest sid of None \<Rightarrow> True | Some (m, t0) \<Rightarrow> vs_now v - m \<le> B \<and> Sublist.prefix t0 t"
    using Suc.prems(1) by (simp_all add: drop)
  have clocks: "snd (snd (vs_clocks v)) \<le> vs_clock v" using Suc.prems(4) nth_mem [OF k] call by fastforce
  have "interleaved B limit calls (latest(sid \<mapsto> (vs_now v, t))) [] (vs_clock v) (concat (map all_segments [Suc k..<length calls]))"
    using Suc.hyps(1) [of "Suc k"] Suc.hyps(2) Suc.prems order(2) k by simp
  with order clocks k Suc.prems(2) show ?case by (simp add: upt all_segments_def call)
qed simp

lemma endings_append [simp]: "endings (segs @ segs') = endings segs @ endings segs'"
  by (induction segs rule: endings.induct) simp_all

lemma endings_serial: "endings (concat (map all_segments ks)) = ks"
  by (induction ks) (simp_all add: all_segments_def)

subsection \<open>The calls in flight\<close>

definition quiet :: "session_call list \<Rightarrow> string \<Rightarrow> (nat, flight) dict \<Rightarrow> bool" where
  "quiet calls sid d \<longleftrightarrow> (\<forall>p \<in> set d. fst (calls ! fst p) \<noteq> sid)"

definition flying_at :: "nat \<Rightarrow> (nat, flight) dict \<Rightarrow> nat" where
  "flying_at i d = size (filter_mset (\<lambda>p. fl_replica (snd p) = i) (mset d))"

lemma flying_at_update: "wf_dict d \<Longrightarrow> flying_at i (AList.update k fl d) = (if fl_replica fl = i then 1 else 0) + flying_at i (AList.delete k d)"
  by (simp add: flying_at_def mset_update)

lemma flying_at_delete:
  "wf_dict d \<Longrightarrow> map_of d k = Some fl \<Longrightarrow> flying_at i d = (if fl_replica fl = i then 1 else 0) + flying_at i (AList.delete k d)"
  by (simp add: flying_at_def mset_delete)

lemma flying_at_le: "flying_at i d \<le> length d"
  using size_filter_mset_lesseq [of "\<lambda>p. fl_replica (snd p) = i" "mset d"] by (simp add: flying_at_def)

lemma update_new: "map_of d k = None \<Longrightarrow> AList.update k v d = d @ [(k, v)]"
  by (induction d) (auto split: if_splits)

definition in_flight :: "(nat, flight) dict \<Rightarrow> (nat, bool) dict" where
  "in_flight d = map (\<lambda>(k, fl). (k, fl_report fl \<noteq> None)) d"

lemma in_flight_simps [simp]:
  "in_flight (AList.update k fl d) = AList.update k (fl_report fl \<noteq> None) (in_flight d)"
  "in_flight (AList.delete k d) = AList.delete k (in_flight d)"
  "map_of (in_flight d) k = map_option (\<lambda>fl. fl_report fl \<noteq> None) (map_of d k)" "length (in_flight d) = length d"
  "in_flight [] = []"
  by (induction d) (auto simp: in_flight_def)

lemma in_flight_quiet: "list_all (\<lambda>p. fst (calls ! fst p) \<noteq> sid) (in_flight d) \<longleftrightarrow> quiet calls sid d"
  by (induction d) (auto simp: in_flight_def quiet_def)

subsection \<open>What holds between two segments\<close>

definition mock_report :: "string \<Rightarrow> int \<Rightarrow> real \<Rightarrow> worker_report" where
  "mock_report t cached el =
     \<lparr>wr_usage = mock_usage (mock_tokens t) cached, wr_elapsed_ms = el, wr_ttft_ms = el, wr_text = JStr ''fixed the bug''\<rparr>"

context roomy_store
begin

definition aloft ::
  "real \<Rightarrow> session_call list \<Rightarrow> (string \<Rightarrow> (nat \<times> real \<times> string) option) \<Rightarrow> real \<Rightarrow> real \<Rightarrow> ('s, mock_cluster) app
   \<Rightarrow> nat \<Rightarrow> flight \<Rightarrow> bool" where
  \<comment> \<open>a call in flight is at the home of its session, and what its worker reported covers the session's last prompt\<close>
  "aloft B calls prev lo hi a k fl \<longleftrightarrow>
     (case calls ! k of (sid, v, t) \<Rightarrow>
        k < length calls \<and> fl_visit fl = v \<and>
        read_call (api_key (app_settings a)) (app_tokenizer a) (vs_request v) = Inr (fl_call fl) \<and>
        fl_phase fl = Running \<and> fl_gap fl \<le> B \<and> fl_replica fl < length (g_replicas (app_gateway a)) \<and>
        (\<forall>u. lo \<le> u \<longrightarrow> u \<le> hi \<longrightarrow> home_at u (g_store (app_gateway a)) sid = Some (int (fl_replica fl))) \<and>
        (\<forall>i0 m t0. prev sid = Some (i0, m, t0) \<longrightarrow> fl_replica fl = i0 \<and> Sublist.prefix t0 t) \<and>
        (\<forall>chunks ended. fl_report fl = Some (chunks, ended) \<longrightarrow>
           (\<exists>cached. 0 \<le> cached \<and> ended = Inr (mock_report t cached (vs_elapsed v)) \<and>
              (\<forall>i0 m t0. prev sid = Some (i0, m, t0) \<longrightarrow> mock_tokens t0 \<le> cached) \<and>
              (t, mock_tokens t) \<in> set (worker_cache (fl_replica fl) (app_backend a)))))"

definition hosting ::
  "cluster_config \<Rightarrow> real \<Rightarrow> (string \<Rightarrow> int) \<Rightarrow> string set \<Rightarrow> session_call list \<Rightarrow> (string \<Rightarrow> (nat \<times> real \<times> string) option)
   \<Rightarrow> real \<Rightarrow> real \<Rightarrow> ('s, mock_cluster) app \<Rightarrow> (nat, flight) dict \<Rightarrow> bool" where
  \<comment> \<open>a session with \<open>prev sid = Some (i, m, t)\<close> was last answered by replica \<open>i\<close>, on its call at time \<open>m\<close> with prompt \<open>t\<close>\<close>
  "hosting c B quota P calls prev lo hi a d \<longleftrightarrow>
     in_service c B quota P (app_gateway a) \<and> roomy P (g_store (app_gateway a)) \<and>
     mocked (length (g_replicas (app_gateway a))) (app_backend a) \<and>
     hi \<le> lo + ttl (g_store (app_gateway a)) \<and> wf_dict d \<and>
     (\<forall>p \<in> set d. \<forall>q \<in> set d. fst (calls ! fst p) = fst (calls ! fst q) \<longrightarrow> fst p = fst q) \<and>
     (\<forall>p \<in> set d. aloft B calls prev lo hi a (fst p) (snd p)) \<and>
     (\<forall>sid \<in> P. \<forall>i m t. prev sid = Some (i, m, t) \<longrightarrow> i < length (g_replicas (app_gateway a)) \<and>
        (t, mock_tokens t) \<in> set (worker_cache i (app_backend a))) \<and>
     (\<forall>sid \<in> P. quiet calls sid d \<longrightarrow> remembered sid (map_option (\<lambda>(i, m, t). (i, m)) (prev sid)) lo hi (app_gateway a)) \<and>
     (\<forall>i < length (g_replicas (app_gateway a)). active (g_replicas (app_gateway a) ! i) = int (flying_at i d))"

lemma hosting_standing: "hosting c B quota P calls prev lo hi a d \<Longrightarrow> standing c a"
  unfolding hosting_def by (blast intro: in_service_standing)

lemma hosting_aloft: "hosting c B quota P calls prev lo hi a d \<Longrightarrow> map_of d k = Some fl \<Longrightarrow> aloft B calls prev lo hi a k fl"
  by (auto simp: hosting_def dest!: map_of_SomeD)

lemma aloft_spared:
  assumes fl: "aloft B calls prev lo hi a k fl" and sp: "spares u sid (g_store (app_gateway a)) (g_store (app_gateway a'))"
    and k: "fst (calls ! k) \<noteq> sid" "u \<le> lo'" "lo \<le> lo'"
    and same: "app_settings a' = app_settings a" "app_tokenizer a' = app_tokenizer a"
      "length (g_replicas (app_gateway a')) = length (g_replicas (app_gateway a))"
      "\<And>i e. e \<in> set (worker_cache i (app_backend a)) \<Longrightarrow> i < length (g_replicas (app_gateway a)) \<Longrightarrow> e \<in> set (worker_cache i (app_backend a'))"
    and prev: "prev' (fst (calls ! k)) = prev (fst (calls ! k))"
  shows "aloft B calls prev' lo' hi a' k fl"
  using fl sp k same prev unfolding aloft_def spares_def
  by (auto split: prod.splits) blast

subsection \<open>A call arrives\<close>

lemma open_whole_call:
  assumes "app_backend (sv_app sv) = VllmBackend b" "\<not> c_stream (fl_call fl)"
  shows "open_call ops up k fl sv = sv\<lparr>sv_app := (sv_app sv)\<lparr>app_gateway := enter_slot (fl_replica fl) (app_gateway (sv_app sv))\<rparr>,
    sv_flights := AList.update k (fl\<lparr>fl_phase := Running, fl_model := JNull\<rparr>) (sv_flights sv)\<rparr>"
  using assms by (simp add: open_call_def Let_def)

lemma arrive_hosted:
  assumes H: "hosting c B quota P calls prev lo hi (sv_app sv) (sv_flights sv)" and c: "serving_config c B"
    and call: "k < length calls" "calls ! k = (sid, v, t)" "sid \<in> P"
    and v: "good_visit storable quota (api_key (app_settings (sv_app sv))) (app_tokenizer (sv_app sv)) sid v t" "vs_clock v \<le> hi"
    and new: "map_of (sv_flights sv) k = None" "quiet calls sid (sv_flights sv)" "int (length (sv_flights sv)) \<le> affinity_queue_limit (cc_policy c)"
    and order: "lo \<le> fst (vs_clocks v)" "\<forall>i m t0. prev sid = Some (i, m, t0) \<longrightarrow> vs_now v - m \<le> B \<and> Sublist.prefix t0 t"
  shows "\<exists>a' fl. arrive ops up k v sv = sv\<lparr>sv_app := a', sv_flights := AList.update k fl (sv_flights sv)\<rparr> \<and> fl_report fl = None \<and>
    hosting c B quota P calls prev (snd (snd (vs_clocks v))) hi a' (AList.update k fl (sv_flights sv)) \<and>
    app_settings a' = app_settings (sv_app sv) \<and> app_tokenizer a' = app_tokenizer (sv_app sv)"
proof -
  let ?a = "sv_app sv" and ?d = "sv_flights sv"
  let ?g = "app_gateway ?a" and ?n = "length (g_replicas (app_gateway ?a))"
  let ?prev = "map_option (\<lambda>(i, m, t). (i, m)) (prev sid)"
  obtain t1 t2 t3 where clocks: "vs_clocks v = (t1, t2, t3)" by (cases "vs_clocks v")
  obtain cl where cl: "read_call (api_key (app_settings ?a)) (app_tokenizer ?a) (vs_request v) = Inr cl" "c_sid cl = sid"
    "\<not> c_stream cl" using v by (auto simp: good_visit_def)
  have el: "t1 \<le> t2" "t2 \<le> t3" "t3 \<le> vs_clock v" using v by (simp_all add: good_visit_def clocks)
  have g: "in_service c B quota P ?g" "remembered sid ?prev lo hi ?g" and m: "mocked ?n (app_backend ?a)" and wf: "wf_dict ?d"
    and ttl: "hi \<le> lo + ttl (g_store ?g)" and room: "roomy P (g_store ?g)" using H call(3) new(2) by (auto simp: hosting_def)
  have cfg: "wf_predictor_config (cc_predictor c)" "prior_ms (cc_predictor c) \<le> B" "0 \<le> B"
    using c by (simp_all add: serving_config_def)
  have t: "lo \<le> t1" "t2 \<le> hi" "hi \<le> t1 + ttl (g_store ?g)" using order(1) v(2) el ttl by (simp_all add: clocks)
  have near: "\<forall>i m. ?prev = Some (i, m) \<longrightarrow> vs_now v - m \<le> B" using order(2) by auto
  have active: "active (g_replicas ?g ! i) = int (flying_at i ?d)" if "i < ?n" for i using H that by (simp add: hosting_def)
  have free: "\<forall>i m. ?prev = Some (i, m) \<longrightarrow> active (g_replicas ?g ! i) \<le> affinity_queue_limit (cc_policy c)"
    using g(2) active flying_at_le [of _ ?d] new(3) by (auto simp: remembered_def) (meson of_nat_le_iff order_trans)
  from schedule_remembered [OF g cfg t(1) el(1,2) t(2,3) near free, where tool = "c_tool cl"] obtain i gap g1 where
    sched: "schedule ops (t1, t2, t3) sid (c_tool cl) (vs_now v) ?g = (Inr (i, gap), g1)" "in_service c B quota P g1"
    "g_replicas g1 = g_replicas ?g" "ttl (g_store g1) = ttl (g_store ?g)" "i < ?n" "gap \<le> B"
    "\<forall>i0 m. ?prev = Some (i0, m) \<longrightarrow> i = i0"
    "\<forall>t. t2 \<le> t \<longrightarrow> t \<le> hi \<longrightarrow> home_at t (g_store g1) sid = Some (int i)" by blast
  have inv: "inv (g_store ?g)" using g(1) by (simp add: in_service_def)
  have "t1 \<le> t3" using el by simp
  note others = schedule_spares [OF inv room call(3) sched(1) this el(2)]
  obtain b where b: "app_backend ?a = VllmBackend b" using m by (auto simp: mocked_def)
  let ?fl = "\<lparr>fl_visit = v, fl_call = cl, fl_replica = i, fl_gap = gap, fl_phase = Running, fl_model = JNull, fl_report = None\<rparr>"
  let ?g2 = "enter_slot i g1"
  let ?a' = "?a\<lparr>app_gateway := ?g2\<rparr>" and ?d' = "AList.update k ?fl ?d"
  have run: "arrive ops up k v sv = sv\<lparr>sv_app := ?a', sv_flights := ?d'\<rparr>"
    using cl sched(1) b by (simp add: arrive_def clocks Let_def open_whole_call)
  have reps: "length (g_replicas ?g2) = ?n" "g_store ?g2 = g_store g1" using sched(3) by (simp_all add: enter_slot_def)
  have d': "?d' = ?d @ [(k, ?fl)]" by (rule update_new [OF new(1)])
  have lo: "lo \<le> t3" using t(1) el by simp
  have own: "aloft B calls prev t3 hi ?a' k ?fl"
    using call cl sched(5-8) el(2) order(2) reps by (auto simp: aloft_def)
  have all: "aloft B calls prev t3 hi ?a' (fst p) (snd p)" if "p \<in> set ?d'" for p
  proof (cases "p = (k, ?fl)")
    case False
    with that have p: "p \<in> set ?d" by (simp add: d')
    have old: "aloft B calls prev lo hi ?a (fst p) (snd p)" "fst (calls ! fst p) \<noteq> sid"
      using H p new(2) by (auto simp: hosting_def quiet_def)
    from aloft_spared [OF this(1) _ this(2) order_refl lo, of ?a' prev] others reps show ?thesis by simp
  qed (use own in simp)
  have mem: "remembered s (map_option (\<lambda>(i, m, t). (i, m)) (prev s)) t3 hi ?g2" if "s \<in> P" "quiet calls s ?d'" for s
  proof -
    have s: "quiet calls s ?d" "s \<noteq> sid" using that(2) call(2) by (auto simp: quiet_def d')
    have "lookup s (g_replicas ?g2 ! j) = lookup s (g_replicas ?g ! j)" if "j < ?n" for j
      using that sched(3,5) by (cases "j = i") (simp_all add: enter_slot_def)
    with remembered_spared [OF _ _ s(2) order_refl lo, of _ hi ?g ?g2] H that(1) s(1) others reps show ?thesis
      by (simp add: hosting_def)
  qed
  have "hosting c B quota P calls prev t3 hi ?a' ?d'"
  proof -
    have "in_service c B quota P ?g2" by (rule in_service_enter [OF sched(2)]) (simp add: sched(3,5))
    moreover have "active (g_replicas ?g2 ! j) = int (flying_at j ?d')" if "j < ?n" for j
      using that active [of j] sched(3,5) flying_at_update [OF wf, of j k ?fl] delete_notin [OF new(1)]
      by (cases "j = i") (simp_all add: enter_slot_def slot_enter_def Let_def)
    moreover have "\<forall>p \<in> set ?d'. \<forall>q \<in> set ?d'. fst (calls ! fst p) = fst (calls ! fst q) \<longrightarrow> fst p = fst q"
      using H call(2) new(2) by (auto simp: d' hosting_def quiet_def)
    ultimately show ?thesis
      using H all mem others reps lo sched(4) by (simp add: hosting_def)
  qed
  then show ?thesis using run by (intro exI [of _ ?a'] exI [of _ ?fl]) (simp add: clocks)
qed

subsection \<open>Its worker answers\<close>

lemma reach_hosted:
  assumes H: "hosting c B quota P calls prev lo hi (sv_app sv) (sv_flights sv)"
    and call: "calls ! k = (sid, v, t)" "sid \<in> P"
    and v: "good_visit storable quota (api_key (app_settings (sv_app sv))) (app_tokenizer (sv_app sv)) sid v t"
    and fl: "map_of (sv_flights sv) k = Some fl" "fl_report fl = None" and up: "up_client up = mock_http"
  shows "\<exists>a' report. reach up k fl sv =
      sv\<lparr>sv_app := a', sv_flights := AList.update k (fl\<lparr>fl_report := Some report\<rparr>) (sv_flights sv)\<rparr> \<and>
    hosting c B quota P calls prev lo hi a' (AList.update k (fl\<lparr>fl_report := Some report\<rparr>) (sv_flights sv)) \<and>
    app_settings a' = app_settings (sv_app sv) \<and> app_tokenizer a' = app_tokenizer (sv_app sv)"
proof -
  let ?a = "sv_app sv" and ?d = "sv_flights sv"
  let ?n = "length (g_replicas (app_gateway ?a))" and ?i = "fl_replica fl" and ?cl = "fl_call fl"
  have mem: "(k, fl) \<in> set ?d" using fl(1) by (rule map_of_SomeD)
  have A: "aloft B calls prev lo hi ?a k fl" by (rule hosting_aloft [OF H fl(1)])
  then have cl: "read_call (api_key (app_settings ?a)) (app_tokenizer ?a) (vs_request v) = Inr ?cl" "fl_visit fl = v" "?i < ?n"
    "\<And>i0 m t0. prev sid = Some (i0, m, t0) \<Longrightarrow> ?i = i0 \<and> Sublist.prefix t0 t"
    using call(1) by (auto simp: aloft_def)
  with v have body: "\<not> c_stream ?cl" "message_text (c_messages ?cl) = Inr t" by (auto simp: good_visit_def)
  have m: "mocked ?n (app_backend ?a)" and wf: "wf_dict ?d" and reps: "in_service c B quota P (app_gateway ?a)"
    using H by (simp_all add: hosting_def)
  obtain b where b: "app_backend ?a = VllmBackend b" using m by (auto simp: mocked_def)
  define cache where "cache = worker_cache ?i (app_backend ?a)"
  define cached where "cached = longest_cached t cache 0"
  from mock_aexecute [OF m [unfolded b] cl(3) body(2), of "vs_elapsed v" "c_max ?cl"] obtain b' where
    run: "aexecute mock_http (\<lambda>k. vs_elapsed v) (c_messages ?cl) (c_max ?cl) (int ?i) b = (Inr (mock_report t cached (vs_elapsed v)), b')"
    "mocked ?n (VllmBackend b')" "worker_cache ?i (VllmBackend b') = AList.update t (mock_tokens t) cache"
    "\<forall>j < ?n. j \<noteq> ?i \<longrightarrow> worker_cache j (VllmBackend b') = worker_cache j (app_backend ?a)"
    by (auto simp: cached_def cache_def b mock_report_def)
  let ?fl = "fl\<lparr>fl_report := Some ([], Inr (mock_report t cached (vs_elapsed v)))\<rparr>"
  let ?a' = "?a\<lparr>app_backend := VllmBackend b'\<rparr>" and ?d' = "AList.update k ?fl ?d"
  have "rep_id (g_replicas (app_gateway ?a) ! ?i) = int ?i" by (rule in_service_at(1) [OF reps cl(3)])
  then have step: "reach up k fl sv = sv\<lparr>sv_app := ?a', sv_flights := ?d'\<rparr>"
    using b body(1) run(1) by (simp add: reach_def Let_def up cl(2))
  have kept: "e \<in> set (worker_cache i (VllmBackend b'))"
    if "e \<in> set (worker_cache i (app_backend ?a))" "i < ?n" "e = (s, mock_tokens s)" for e i s
    using that run(3,4) prompt_kept [of s mock_tokens cache t] by (cases "i = ?i") (auto simp: cache_def)
  have own: "aloft B calls prev lo hi ?a' k ?fl"
  proof -
    have "map_of (worker_cache ?i (VllmBackend b')) t = Some (mock_tokens t)" unfolding run(3) by simp
    then have new: "(t, mock_tokens t) \<in> set (worker_cache ?i (VllmBackend b'))" by (rule map_of_SomeD)
    have "mock_tokens t0 \<le> cached" if "prev sid = Some (i0, m, t0)" for i0 m t0
    proof -
      have "(t0, mock_tokens t0) \<in> set cache" using H call(2) that cl(4) [OF that] by (auto simp: hosting_def cache_def)
      moreover have "Sublist.prefix t0 t" using cl(4) [OF that] by simp
      ultimately show ?thesis unfolding cached_def by (rule longest_cached_ge)
    qed
    moreover have "0 \<le> cached" unfolding cached_def by (rule longest_cached_ge0)
    ultimately show ?thesis using A new call(1) by (auto simp: aloft_def)
  qed
  have others: "aloft B calls prev lo hi ?a' k' fl'" if "aloft B calls prev lo hi ?a k' fl'" for k' fl'
    using that kept by (auto simp: aloft_def split: prod.splits) blast
  have set': "set ?d' = insert (k, ?fl) {p \<in> set ?d. fst p \<noteq> k}" by (rule set_update [OF wf])
  have count: "flying_at i ?d' = flying_at i ?d" for i
    using flying_at_update [OF wf, of i k ?fl] flying_at_delete [OF wf fl(1), of i] by simp
  have q: "quiet calls s ?d' \<longleftrightarrow> quiet calls s ?d" for s using mem unfolding quiet_def set' by auto
  have "hosting c B quota P calls prev lo hi ?a' ?d'"
  proof -
    have once: "\<forall>p \<in> set ?d'. \<forall>q \<in> set ?d'. fst (calls ! fst p) = fst (calls ! fst q) \<longrightarrow> fst p = fst q"
    proof -
      have "\<forall>p \<in> set ?d. \<forall>q \<in> set ?d. fst (calls ! fst p) = fst (calls ! fst q) \<longrightarrow> fst p = fst q"
        using H by (simp add: hosting_def)
      with mem show ?thesis unfolding set' by fastforce
    qed
    have all: "\<forall>p \<in> set ?d'. aloft B calls prev lo hi ?a' (fst p) (snd p)"
      unfolding set' using own others H by (auto simp: hosting_def)
    have "\<forall>sid \<in> P. \<forall>i m t. prev sid = Some (i, m, t) \<longrightarrow> i < ?n \<and> (t, mock_tokens t) \<in> set (worker_cache i (VllmBackend b'))"
      using H kept by (auto simp: hosting_def)
    with once all H run(2) show ?thesis by (simp add: hosting_def q count)
  qed
  with step show ?thesis by (intro exI [of _ ?a'] exI [of _ "([], Inr (mock_report t cached (vs_elapsed v)))"]) simp
qed

subsection \<open>Its handler ends\<close>

lemma end_hosted:
  assumes H: "hosting c B quota P calls prev lo hi (sv_app sv) (sv_flights sv)" and c: "serving_config c B"
    and call: "calls ! k = (sid, v, t)" "sid \<in> P"
    and v: "good_visit storable quota (api_key (app_settings (sv_app sv))) (app_tokenizer (sv_app sv)) sid v t"
      "lo \<le> vs_clock v" "vs_clock v \<le> hi"
    and fl: "map_of (sv_flights sv) k = Some fl" "fl_report fl = Some (chunks, ended)"
  shows "\<exists>a' i j cached. conclude_call ops k fl chunks ended sv = reply k (Inr (Answer j), a') sv \<and> answered sid i cached j \<and>
    (\<forall>i0 m t0. prev sid = Some (i0, m, t0) \<longrightarrow> i = i0 \<and> mock_tokens t0 \<le> cached \<and> Sublist.prefix t0 t) \<and>
    hosting c B quota P calls (prev(sid \<mapsto> (i, vs_now v, t))) (vs_clock v) hi a' (AList.delete k (sv_flights sv)) \<and>
    app_settings a' = app_settings (sv_app sv) \<and> app_tokenizer a' = app_tokenizer (sv_app sv)"
proof -
  let ?a = "sv_app sv" and ?d = "sv_flights sv" and ?i = "fl_replica fl" and ?cl = "fl_call fl"
  let ?g = "app_gateway ?a" and ?n = "length (g_replicas (app_gateway ?a))" and ?d' = "AList.delete k (sv_flights sv)"
  let ?prev' = "prev(sid \<mapsto> (?i, vs_now v, t))" and ?r = "g_replicas (app_gateway ?a) ! fl_replica fl"
  have mem: "(k, fl) \<in> set ?d" using fl(1) by (rule map_of_SomeD)
  have A: "aloft B calls prev lo hi ?a k fl" by (rule hosting_aloft [OF H fl(1)])
  then obtain cached where cl: "read_call (api_key (app_settings ?a)) (app_tokenizer ?a) (vs_request v) = Inr ?cl" "fl_visit fl = v"
    "?i < ?n" "fl_gap fl \<le> B" "\<And>i0 m t0. prev sid = Some (i0, m, t0) \<Longrightarrow> ?i = i0 \<and> mock_tokens t0 \<le> cached \<and> Sublist.prefix t0 t"
    "\<forall>u. lo \<le> u \<longrightarrow> u \<le> hi \<longrightarrow> home_at u (g_store ?g) sid = Some (int ?i)"
    "ended = Inr (mock_report t cached (vs_elapsed v))" "(t, mock_tokens t) \<in> set (worker_cache ?i (app_backend ?a))"
    "0 \<le> cached"
    using call(1) fl(2) by (auto simp: aloft_def)
  with v have body: "\<not> c_stream ?cl" "c_sid ?cl = sid" "0 \<le> vs_elapsed v" "mock_tokens t + 5 \<le> quota sid"
    "storable (vs_now v + vs_elapsed v)" by (auto simp: good_visit_def)
  have g: "in_service c B quota P ?g" and wf: "wf_dict ?d" and ttl: "hi \<le> lo + ttl (g_store ?g)" and room: "roomy P (g_store ?g)"
    using H by (simp_all add: hosting_def)
  have B: "0 \<le> B" using c by (simp add: serving_config_def)
  note rep = in_service_at [OF g cl(3)]
  from vllm_result_room [OF rep(4,5,1) body(3) B cl(4) call(2) body(4) mock_report_def, where pt = "c_prompt ?cl" and ot = "c_max ?cl"
      and now = "vs_now v" and cached = cached]
  obtain res r' where res: "vllm_result (mock_report t cached (vs_elapsed v)) ?r sid (c_prompt ?cl) (c_max ?cl) (vs_now v)
      (vs_now v + fl_gap fl) = Inr (res, r')"
    "room quota P r'" "fst (lookup sid r') \<noteq> MISS" "\<forall>k. k \<noteq> sid \<longrightarrow> lookup k r' = lookup k ?r"
    "frame_of r' = frame_of ?r" "rr_replica_id res = int ?i" "reused_tokens res = cached"
    "rr_tier res = (if 0 < cached then GPU else MISS)" "latency_ms res = vs_elapsed v" "0 \<le> computed_tokens res" by auto
  have stored: "storable (vs_now v + latency_ms res)" "vs_now v \<le> vs_now v + latency_ms res" using body res(9) by simp_all
  have counts: "0 \<le> reused_tokens res" "0 \<le> computed_tokens res" using cl(9) res(7,10) by simp_all
  have w: "hi \<le> vs_clock v + ttl (g_store ?g)" using ttl v(2) by simp
  from finished_visit [OF g room call(2) cl(3) res(2,5,3,4) stored(1) counts cl(6) v(3,2) w stored(2)] obtain g4 where
    g4: "record_result ops (vs_clock v) sid res (vs_now v) (leave_slot ?i (?g\<lparr>g_replicas := (g_replicas ?g)[?i := r']\<rparr>)) = (Inr (), g4)"
    "in_service c B quota P g4" "roomy P (g_store g4)" "ttl (g_store g4) = ttl (g_store ?g)"
    "g_replicas g4 = (g_replicas ?g)[?i := slot_exit r']" "remembered sid (Some (?i, vs_now v)) (vs_clock v) hi g4"
    "spares (vs_clock v) sid (g_store ?g) (g_store g4)" by blast
  have fin: "finish_call ops (\<lambda>r sid pt ot now ret. Inr (res, r')) (vs_clock v) ?i ?cl (vs_now v) (fl_gap fl) ?g = (Inr res, g4)"
    using g4(1) by (simp add: finish_call_def Let_def body(2))
  obtain j where j: "chat_response (vllm_model (app_settings ?a)) ?cl (vs_now v) (fl_gap fl) res = Inr j" "answered sid ?i cached j"
    using read_call_body [OF cl(1)] response_answered [OF _ body(2) res(6,7,8)] by blast
  let ?a' = "?a\<lparr>app_gateway := g4\<rparr>"
  have run: "conclude_call ops k fl chunks ended sv = reply k (Inr (Answer j), ?a') sv"
    using cl(2,7) body(1,2) res(1) fin j(1) by (simp add: conclude_call_def Let_def or_unhandled_def)
  have set': "set ?d' = {p \<in> set ?d. fst p \<noteq> k}" by (rule set_delete)
  have once: "\<forall>p \<in> set ?d. \<forall>q \<in> set ?d. fst (calls ! fst p) = fst (calls ! fst q) \<longrightarrow> fst p = fst q"
    using H by (simp add: hosting_def)
  have away: "fst (calls ! fst p) \<noteq> sid" if "p \<in> set ?d'" for p
    using once mem that call(1) unfolding set' by force
  have reps: "length (g_replicas g4) = ?n" using g4(5) by simp
  have all: "aloft B calls ?prev' (vs_clock v) hi ?a' (fst p) (snd p)" if p: "p \<in> set ?d'" for p
  proof -
    have "aloft B calls prev lo hi ?a (fst p) (snd p)" using H p unfolding set' by (simp add: hosting_def)
    from aloft_spared [OF this _ away [OF p] order_refl v(2), of ?a' ?prev'] g4(7) reps away [OF p] show ?thesis by simp
  qed
  have home: "remembered s (map_option (\<lambda>(i, m, t). (i, m)) (?prev' s)) (vs_clock v) hi g4" if "s \<in> P" "quiet calls s ?d'" for s
  proof (cases "s = sid")
    case False
    with that(2) call(1) have "quiet calls s ?d" by (auto simp: quiet_def set')
    moreover have "lookup s (g_replicas g4 ! i) = lookup s (g_replicas ?g ! i)" if "i < ?n" for i
      using that False res(4) cl(3) by (cases "i = ?i") (simp_all add: g4(5))
    ultimately show ?thesis
      using remembered_spared [OF _ g4(7) False order_refl v(2), of _ hi] H that(1) False reps by (simp add: hosting_def)
  qed (use g4(6) in simp)
  have count: "active (g_replicas g4 ! i) = int (flying_at i ?d')" if "i < ?n" for i
  proof -
    have "active (g_replicas ?g ! i) = int (flying_at i ?d)" using H that by (simp add: hosting_def)
    moreover have "active r' = active ?r" using res(5) by (simp add: frame_of_def load_of_def)
    ultimately show ?thesis using that flying_at_delete [OF wf fl(1), of i] cl(3) by (auto simp: g4(5) slot_exit_def nth_list_update)
  qed
  have "hosting c B quota P calls ?prev' (vs_clock v) hi ?a' ?d'"
    using H g4(2-4) w once all home count cl(3,8) reps set' by (auto simp: hosting_def)
  with run j(2) cl(5) show ?thesis
    by (intro exI [of _ ?a'] exI [of _ ?i] exI [of _ j] exI [of _ cached]) auto
qed

subsection \<open>All the segments\<close>

lemma segments_hit:
  assumes "hosting c B quota P calls prev lo hi (sv_app sv) (sv_flights sv)" "serving_config c B"
    and "interleaved B (affinity_queue_limit (cc_policy c)) calls (\<lambda>sid. map_option snd (prev sid)) (in_flight (sv_flights sv)) lo segs"
    and "\<forall>(sid, v, t) \<in> set calls. sid \<in> P \<and> good_visit storable quota (api_key (app_settings (sv_app sv))) (app_tokenizer (sv_app sv)) sid v t \<and>
      vs_clock v \<le> hi"
    and "up_client up = mock_http"
  shows "\<exists>js sv'. run_segments ops up (call_visit calls) segs sv = sv' \<and>
    sv_answers sv' = sv_answers sv @ zip (endings segs) (map (Inr \<circ> Answer) js) \<and>
    all_hit (\<lambda>sid. map_option (\<lambda>(i, m, t). (i, t)) (prev sid)) (map (session_prompt calls) (endings segs)) js \<and>
    standing c (sv_app sv') \<and> app_settings (sv_app sv') = app_settings (sv_app sv) \<and>
    app_tokenizer (sv_app sv') = app_tokenizer (sv_app sv)"
  using assms
proof (induction segs arbitrary: prev lo sv)
  case Nil
  then have "standing c (sv_app sv)" by (blast dest: hosting_standing)
  then show ?case by (intro exI [of _ "[]"] exI [of _ sv]) simp
next
  case (Cons s segs)
  note H = Cons.prems(1) and order = Cons.prems(3) and good = Cons.prems(4)
  have goodD: "sid \<in> P" "good_visit storable quota (api_key (app_settings (sv_app sv))) (app_tokenizer (sv_app sv)) sid v t" "vs_clock v \<le> hi"
    if "k < length calls" "calls ! k = (sid, v, t)" for k sid v t
    using good nth_mem [OF that(1)] that(2) by auto
  have flying: "k < length calls" "fl_phase fl = Running" if "map_of (sv_flights sv) k = Some fl" for k fl
    using hosting_aloft [OF H that] by (auto simp: aloft_def)
  have go: ?case
    if adv: "advance ops up (call_visit calls) s sv = sv1"
      "hosting c B quota P calls prev lo' hi (sv_app sv1) (sv_flights sv1)"
      "interleaved B (affinity_queue_limit (cc_policy c)) calls (\<lambda>sid. map_option snd (prev sid)) (in_flight (sv_flights sv1)) lo' segs"
      and same: "app_settings (sv_app sv1) = app_settings (sv_app sv)" "app_tokenizer (sv_app sv1) = app_tokenizer (sv_app sv)"
      "sv_answers sv1 = sv_answers sv" "endings (s # segs) = endings segs" for sv1 lo'
  proof -
    have "\<forall>(sid, v, t) \<in> set calls. sid \<in> P \<and>
        good_visit storable quota (api_key (app_settings (sv_app sv1))) (app_tokenizer (sv_app sv1)) sid v t \<and> vs_clock v \<le> hi"
      using good by (simp only: same)
    from Cons.IH [OF adv(2) Cons.prems(2) adv(3) this Cons.prems(5)]
    show ?thesis by (simp only: run_segments_simps adv(1) same)
  qed
  show ?case
  proof (cases s)
    case (Arrives k)
    obtain sid v t where call: "calls ! k = (sid, v, t)" by (cases "calls ! k")
    have k: "k < length calls" "map_of (sv_flights sv) k = None" "quiet calls sid (sv_flights sv)"
      "int (length (sv_flights sv)) \<le> affinity_queue_limit (cc_policy c)" "lo \<le> fst (vs_clocks v)"
      "\<forall>i m t0. prev sid = Some (i, m, t0) \<longrightarrow> vs_now v - m \<le> B \<and> Sublist.prefix t0 t"
      "interleaved B (affinity_queue_limit (cc_policy c)) calls (\<lambda>sid. map_option snd (prev sid))
        (AList.update k False (in_flight (sv_flights sv))) (snd (snd (vs_clocks v))) segs"
      using order by (auto simp: Arrives call in_flight_quiet)
    have v: "call_visit calls k = v" by (simp add: call_visit_def call)
    from arrive_hosted [OF H Cons.prems(2) k(1) call goodD [OF k(1) call] k(2-6), of up] obtain a' fl where
      "arrive ops up k v sv = sv\<lparr>sv_app := a', sv_flights := AList.update k fl (sv_flights sv)\<rparr>" "fl_report fl = None"
      "hosting c B quota P calls prev (snd (snd (vs_clocks v))) hi a' (AList.update k fl (sv_flights sv))"
      "app_settings a' = app_settings (sv_app sv)" "app_tokenizer a' = app_tokenizer (sv_app sv)" by blast
    with k(2,7) show ?thesis
      by (intro go [of "arrive ops up k v sv" "snd (snd (vs_clocks v))"]) (simp_all add: Arrives v)
  next
    case (Starts k)
    have "advance ops up (call_visit calls) s sv = sv" using flying(2) [of k] by (auto simp: Starts split: option.split)
    then show ?thesis using H order by (intro go [of sv lo]) (simp_all add: Starts)
  next
    case (Reaches k)
    obtain fl where fl: "map_of (sv_flights sv) k = Some fl" "fl_report fl = None"
      using order by (auto simp: Reaches simp del: not_None_eq)
    obtain sid v t where call: "calls ! k = (sid, v, t)" by (cases "calls ! k")
    note g = goodD [OF flying(1) [OF fl(1)] call]
    from reach_hosted [OF H call g(1,2) fl Cons.prems(5)] obtain a' report where
      "reach up k fl sv = sv\<lparr>sv_app := a', sv_flights := AList.update k (fl\<lparr>fl_report := Some report\<rparr>) (sv_flights sv)\<rparr>"
      "hosting c B quota P calls prev lo hi a' (AList.update k (fl\<lparr>fl_report := Some report\<rparr>) (sv_flights sv))"
      "app_settings a' = app_settings (sv_app sv)" "app_tokenizer a' = app_tokenizer (sv_app sv)" by blast
    with fl flying(2) order show ?thesis by (intro go [of "reach up k fl sv" lo]) (simp_all add: Reaches)
  next
    case (Ends k)
    obtain fl chunks ended where fl: "map_of (sv_flights sv) k = Some fl" "fl_report fl = Some (chunks, ended)"
      using order by (auto simp: Ends)
    obtain sid v t where call: "calls ! k = (sid, v, t)" by (cases "calls ! k")
    have lo: "lo \<le> vs_clock v" and next_order: "interleaved B (affinity_queue_limit (cc_policy c)) calls
        ((\<lambda>sid. map_option snd (prev sid))(sid \<mapsto> (vs_now v, t))) (AList.delete k (in_flight (sv_flights sv))) (vs_clock v) segs"
      using order by (simp_all add: Ends call)
    note g = goodD [OF flying(1) [OF fl(1)] call]
    from end_hosted [OF H Cons.prems(2) call g(1,2) lo g(3) fl] obtain a' i j cached where
      run: "conclude_call ops k fl chunks ended sv = reply k (Inr (Answer j), a') sv" "answered sid i cached j"
      "\<forall>i0 m t0. prev sid = Some (i0, m, t0) \<longrightarrow> i = i0 \<and> mock_tokens t0 \<le> cached \<and> Sublist.prefix t0 t"
      and H1: "hosting c B quota P calls (prev(sid \<mapsto> (i, vs_now v, t))) (vs_clock v) hi a' (AList.delete k (sv_flights sv))"
      and a': "app_settings a' = app_settings (sv_app sv)" "app_tokenizer a' = app_tokenizer (sv_app sv)" by blast
    let ?sv1 = "reply k (Inr (Answer j), a') sv" and ?prev1 = "prev(sid \<mapsto> (i, vs_now v, t))"
    have adv: "advance ops up (call_visit calls) s sv = ?sv1" using fl run(1) flying(2) [OF fl(1)] by (simp add: Ends)
    have upd: "(\<lambda>k. map_option snd (?prev1 k)) = (\<lambda>k. map_option snd (prev k))(sid \<mapsto> (vs_now v, t))"
      "(\<lambda>k. map_option (\<lambda>(i, m, t). (i, t)) (?prev1 k)) = (\<lambda>k. map_option (\<lambda>(i, m, t). (i, t)) (prev k))(sid \<mapsto> (i, t))" by auto
    have H1: "hosting c B quota P calls ?prev1 (vs_clock v) hi (sv_app ?sv1) (sv_flights ?sv1)" using H1 by simp
    have order1: "interleaved B (affinity_queue_limit (cc_policy c)) calls (\<lambda>k. map_option snd (?prev1 k))
        (in_flight (sv_flights ?sv1)) (vs_clock v) segs" unfolding upd using next_order by simp
    have "\<forall>(sid, v, t) \<in> set calls. sid \<in> P \<and>
        good_visit storable quota (api_key (app_settings (sv_app ?sv1))) (app_tokenizer (sv_app ?sv1)) sid v t \<and> vs_clock v \<le> hi"
      using good by (simp only: a' reply_simps snd_conv)
    from Cons.IH [OF H1 Cons.prems(2) order1 this Cons.prems(5), unfolded upd(2) reply_simps fst_conv snd_conv a'] obtain js sv2 where
      js: "run_segments ops up (call_visit calls) segs ?sv1 = sv2"
      "sv_answers sv2 = (sv_answers sv @ [(k, Inr (Answer j))]) @ zip (endings segs) (map (Inr \<circ> Answer) js)"
      "all_hit ((\<lambda>k. map_option (\<lambda>(i, m, t). (i, t)) (prev k))(sid \<mapsto> (i, t))) (map (session_prompt calls) (endings segs)) js"
      "standing c (sv_app sv2)" "app_settings (sv_app sv2) = app_settings (sv_app sv)" "app_tokenizer (sv_app sv2) = app_tokenizer (sv_app sv)"
      by blast
    have "all_hit (\<lambda>sid. map_option (\<lambda>(i, m, t). (i, t)) (prev sid)) (map (session_prompt calls) (endings (s # segs))) (j # js)"
      using run(2,3) js(3) by (simp add: Ends session_prompt_def call) (intro exI [of _ i] exI [of _ cached], auto)
    moreover have "sv_answers sv2 = sv_answers sv @ zip (endings (s # segs)) (map (Inr \<circ> Answer) (j # js))"
      using js(2) by (simp add: Ends)
    ultimately show ?thesis using js(1,4-6) by (intro exI [of _ "j # js"] exI [of _ sv2]) (simp add: adv comp_def del: advance.simps)
  qed
qed

end

subsection \<open>From a fresh start\<close>

definition concurrent_traffic ::
  "(real \<Rightarrow> bool) \<Rightarrow> settings \<Rightarrow> cluster_config \<Rightarrow> tokenizer \<Rightarrow> real \<Rightarrow> real \<Rightarrow> (string \<Rightarrow> int) \<Rightarrow> session_call list
   \<Rightarrow> real \<Rightarrow> segment list \<Rightarrow> bool" where
  \<comment> \<open>an interleaving of accepted calls of sessions that the store and each replica have room for, all within a
      lifetime of the time \<open>start\<close>\<close>
  "concurrent_traffic storable s c tk B lifetime quota calls start segs \<longleftrightarrow>
     interleaved B (affinity_queue_limit (cc_policy c)) calls (\<lambda>sid. None) [] start segs \<and>
     (\<forall>(sid, v, t) \<in> set calls. good_visit storable quota (api_key s) tk sid v t \<and> vs_clock v \<le> start + lifetime) \<and>
     fitting quota (fst ` set calls) (hardware c) \<and> int (card (fst ` set calls)) \<le> set_max_sessions s"

lemma traffic_concurrent:
  assumes "traffic storable s c tk B lifetime quota calls" "0 \<le> affinity_queue_limit (cc_policy c)"
  shows "concurrent_traffic storable s c tk B lifetime quota calls (fst (vs_clocks (fst (snd (hd calls)))))
    (concat (map all_segments [0..<length calls]))"
  using assms in_order_interleaved [of B "\<lambda>sid. None" _ 0 calls]
  by (fastforce simp: traffic_def concurrent_traffic_def good_visit_def)

context roomy_store
begin

lemma mocked_start_hosting:
  assumes s: "affinity_settings s c B" and hi: "hi \<le> lo + ttl st" and P: "fitting quota P (hardware c)"
    and st: "inv st" "\<forall>t k. home_at t st k = None \<and> seen_at t st k = None" "roomy P st"
  shows "hosting c B quota P calls (\<lambda>sid. None) lo hi (mocked_start s c st tk) []"
proof -
  note sound = affinity_settings_sound [OF s]
  have pc: "wf_hardware (hardware c)" "0 \<le> B"
    using sound(1,6) by (auto simp: wf_cluster_config_def serving_config_def)
  let ?pol = "if set_policy s = ''adaptive'' then adaptive_policy (cc_policy c) else lru_policy"
  have keep: "keeps_within B ?pol" using s pc(2) by (auto simp: keeps_within_def affinity_settings_def)
  let ?g = "create_gateway c (set_router s) (set_policy s) st"
  have reps: "g_replicas ?g = build_replicas (cc_replicas c) (hardware c) ?pol" by (simp add: create_gateway_def)
  have wf: "wf_cluster (g_replicas ?g)"
    unfolding reps using sound(3) pc(1) keeps_within_code [OF keep] by (rule wf_build_replicas)
  then have "wf_replica r" if "r \<in> set (g_replicas ?g)" for r
    using that wf_clusterD(2) by (metis in_set_conv_nth)
  then have "in_service c B quota P ?g"
    using wf keep st(1) s P new_predictor_after [of "cc_predictor c"]
    by (auto simp: in_service_def room_def create_gateway_def build_replicas_def new_replica_def
        new_affinity_router_def affinity_settings_def gaps_def intro!: exI [of _ "[]"])
  moreover have "g_store ?g = st" by (simp add: create_gateway_def)
  moreover have "length (g_replicas ?g) = length (vllm_endpoints s)" by (simp add: create_gateway_idle(1) sound(2))
  then have "mocked (length (g_replicas ?g)) (app_backend (mocked_start s c st tk))"
    using s sound(4) by (simp add: mocked_def mocked_start_def mock_workers_def affinity_settings_def o_def)
  moreover have "active (g_replicas ?g ! i) = 0" if "i < length (g_replicas ?g)" for i
    using that by (simp add: reps build_replicas_def new_replica_def)
  ultimately show ?thesis using hi st(2,3) by (simp add: hosting_def remembered_def flying_at_def)
qed

lemma concurrent_traffic_hits:
  assumes s: "affinity_settings s c B" and calls: "concurrent_traffic storable s c tk B lifetime quota calls start segs"
    and st: "inv st" "\<forall>t k. home_at t st k = None \<and> seen_at t st k = None" "roomy (fst ` set calls) st" "lifetime \<le> ttl st"
    and up: "up_client up = mock_http"
  shows "\<exists>js sv. run_segments ops up (call_visit calls) segs (fresh_server (mocked_start s c st tk)) = sv \<and>
    sv_answers sv = zip (endings segs) (map (Inr \<circ> Answer) js) \<and>
    all_hit (\<lambda>sid. None) (map (session_prompt calls) (endings segs)) js \<and>
    standing c (sv_app sv) \<and> app_settings (sv_app sv) = s \<and> app_tokenizer (sv_app sv) = tk"
proof -
  let ?sv = "fresh_server (mocked_start s c st tk)" and ?none = "\<lambda>sid. None :: (nat \<times> real \<times> string) option"
  have fresh: "sv_app ?sv = mocked_start s c st tk" "sv_flights ?sv = []" "sv_answers ?sv = []" by (simp_all add: fresh_server_def)
  have P: "fitting quota (fst ` set calls) (hardware c)" using calls by (simp add: concurrent_traffic_def)
  have begin': "hosting c B quota (fst ` set calls) calls ?none start (start + lifetime) (sv_app ?sv) (sv_flights ?sv)"
    unfolding fresh by (rule mocked_start_hosting [OF s _ P st(1-3)]) (simp add: st(4))
  have "interleaved B (affinity_queue_limit (cc_policy c)) calls (\<lambda>sid. map_option snd (?none sid)) (in_flight (sv_flights ?sv)) start segs"
    using calls by (simp add: concurrent_traffic_def fresh)
  from segments_hit [OF begin' affinity_settings_sound(6) [OF s] this _ up] calls show ?thesis
    unfolding fresh by (fastforce simp: concurrent_traffic_def intro: rev_image_eqI)
qed

lemma traffic_hits:
  assumes s: "affinity_settings s c B" and calls: "traffic storable s c tk B lifetime quota calls"
    and st: "inv st" "\<forall>t k. home_at t st k = None \<and> seen_at t st k = None" "roomy (fst ` set calls) st" "lifetime \<le> ttl st"
    and up: "up_client up = mock_http"
  shows "\<exists>js a'. converse ops up (map (fst \<circ> snd) calls) (mocked_start s c st tk) = (map (Inr \<circ> Answer) js, a') \<and>
    all_hit (\<lambda>sid. None) (map (\<lambda>(sid, v, t). (sid, t)) calls) js \<and> standing c a' \<and> app_settings a' = s \<and> app_tokenizer a' = tk"
proof -
  let ?ks = "[0..<length calls]" and ?a = "mocked_start s c st tk"
  have "0 \<le> affinity_queue_limit (cc_policy c)"
    using affinity_settings_sound(1) [OF s] by (simp add: wf_cluster_config_def wf_policy_config_def)
  from concurrent_traffic_hits [OF s traffic_concurrent [OF calls this] st up] obtain js sv where
    js: "run_segments ops up (call_visit calls) (concat (map all_segments ?ks)) (fresh_server ?a) = sv"
    "sv_answers sv = zip ?ks (map (Inr \<circ> Answer) js)" "all_hit (\<lambda>sid. None) (map (session_prompt calls) ?ks) js"
    "standing c (sv_app sv)" "app_settings (sv_app sv) = s" "app_tokenizer (sv_app sv) = tk"
    unfolding endings_serial by blast
  have calls': "map (call_visit calls) ?ks = map (fst \<circ> snd) calls" "map (session_prompt calls) ?ks = map (\<lambda>(sid, v, t). (sid, t)) calls"
    by (rule nth_equalityI; simp add: call_visit_def session_prompt_def case_prod_beta)+
  obtain rs a' where run: "converse ops up (map (fst \<circ> snd) calls) ?a = (rs, a')" by fastforce
  have len: "length js = length calls" using all_hit_nth [OF js(3)] by simp
  have n: "length rs = length calls" using converse_length [OF run] by simp
  have "sv = (fresh_server a')\<lparr>sv_answers := zip ?ks rs\<rparr>"
    using segments_converse [of ?ks "fresh_server ?a" ops up "call_visit calls"] js(1) run calls'(1)
    by (simp add: fresh_server_def)
  then have "sv_app sv = a'" "zip ?ks rs = zip ?ks (map (Inr \<circ> Answer) js)" using js(2) by (simp_all add: fresh_server_def)
  moreover from this(2) have "map snd (zip ?ks rs) = map snd (zip ?ks (map (Inr \<circ> Answer) js))" by simp
  then have "rs = map (Inr \<circ> Answer) js" by (simp add: map_snd_zip n len)
  ultimately show ?thesis using run js(3-6) calls'(2) by metis
qed

end

subsection \<open>The application as it is created\<close>

context redis_connection
begin

lemma fresh_store:
  assumes "build_session_store connect url L m = Inr st" "fresh_redis connect up reads" "1 \<le> m" "1 \<le> L"
  shows "built_inv st" "\<forall>t k. built_home_at t st k = None \<and> built_seen_at t st k = None" "real_of_int (py_trunc L) \<le> built_ttl st"
    "finite P \<Longrightarrow> int (card P) \<le> m \<Longrightarrow> built_roomy P st"
proof -
  have "1 \<le> py_trunc L" "real_of_int (py_trunc L) \<le> L" using assms(4) by (simp_all add: py_trunc_def)
  with assms show "built_inv st" "\<forall>t k. built_home_at t st k = None \<and> built_seen_at t st k = None"
    "real_of_int (py_trunc L) \<le> built_ttl st" "finite P \<Longrightarrow> int (card P) \<le> m \<Longrightarrow> built_roomy P st"
    by (auto simp: build_session_store_def fresh_redis_def new_redis_store_def new_mem_store_def redis_inv_def redis_ttl_def
        redis_home_at_def redis_seen_at_def mem_home_at_def mem_seen_at_def live_def wf_mem_store_def wf_table_def mem_roomy_def
        split: option.splits if_splits sum.splits)
qed

lemma built_traffic_hits:
  assumes s: "affinity_settings s c B" "finite_value (session_ttl_s s) = Some L" "1 \<le> L" "lifetime \<le> real_of_int (py_trunc L)"
    and app: "create_app connect tiktoken s None (mock_workers (vllm_endpoints s)) = Some (Inr a)" "fresh_redis connect up reads"
    and calls: "concurrent_traffic storable s c (app_tokenizer a) B lifetime quota calls start segs" and client: "up_client ws = mock_http"
  shows "\<exists>js sv. run_segments (built_ops api) ws (call_visit calls) segs (fresh_server a) = sv \<and>
    sv_answers sv = zip (endings segs) (map (Inr \<circ> Answer) js) \<and>
    all_hit (\<lambda>sid. None) (map (session_prompt calls) (endings segs)) js \<and>
    built.standing c (sv_app sv) \<and> app_settings (sv_app sv) = s"
proof -
  from create_app_mocked [OF s(1,2) app(1)] obtain st where
    st: "build_session_store connect (redis_url s) L (set_max_sessions s) = Inr st"
    and a: "a = mocked_start s c st (app_tokenizer a)" by auto
  note fresh = fresh_store [OF st app(2) affinity_settings_sound(5) [OF s(1)] s(3)]
  have "built_roomy (fst ` set calls) st" using fresh(4) calls by (simp add: concurrent_traffic_def fitting_def)
  moreover have "lifetime \<le> built_ttl st" using fresh(3) s(4) by (rule order_trans [rotated])
  ultimately show ?thesis using built.concurrent_traffic_hits [OF s(1) calls fresh(1,2) _ _ client] a by metis
qed

end

end
