(* ===== verification/Check_Processes.thy ===== *)
theory Check_Processes
  imports Polling PyText
begin

section \<open>The workers of the integration check\<close>

text \<open>
  The processes of \<open>scripts/integration_check.py\<close>: \<open>main\<close> starts a mock worker per port, waits for
  each of them, runs the checks, and terminates what it started. The operating system is a record
  of what happens; \<open>checks\<close> is the outcome of what stands between the waits and the \<open>finally\<close>, and a
  wait that does not return makes the run \<open>None\<close>.
\<close>

record check_host =
  ch_starts :: "nat \<Rightarrow> bool" \<comment> \<open>the n-th worker can be started\<close>
  ch_exits :: "nat \<Rightarrow> bool" \<comment> \<open>it has exited by itself when it is terminated\<close>
  ch_obeys :: "nat \<Rightarrow> bool" \<comment> \<open>it exits while the script waits for it after that\<close>
  ch_clock :: "nat \<Rightarrow> clock" \<comment> \<open>of the wait for the n-th port\<close>
  ch_get :: "nat \<Rightarrow> string \<Rightarrow> answers"

datatype check_event = Launched nat "string list" | Terminated nat

datatype 'e check_error = ProcessError py_error | ChecksError 'e

definition check_ports :: "int list" where
  "check_ports = [8201, 8202]"

definition worker_command :: "string \<Rightarrow> int \<Rightarrow> string list" where
  \<comment> \<open>after the interpreter; \<open>scripts\<close> is the directory of the script\<close>
  "worker_command scripts port =
     [''-m'', ''uvicorn'', ''mock_vllm:app'', ''--app-dir'', scripts, ''--port'', py_str_int port, ''--log-level'', ''error'']"

fun launch :: "check_host \<Rightarrow> string \<Rightarrow> int list \<Rightarrow> nat \<Rightarrow> (py_error + nat list) \<times> check_event list" where
  "launch host scripts [] n = (Inr [], [])"
| "launch host scripts (p # ps) n =
     (if ch_starts host n
      then (let (r, evs) = launch host scripts ps (Suc n)
            in (map_sum id (Cons n) r, Launched n (worker_command scripts p) # evs))
      else (Inl OSError, []))"

fun wait_ports :: "check_host \<Rightarrow> int list \<Rightarrow> nat \<Rightarrow> bool option" where
  \<comment> \<open>every worker in turn has 25 seconds\<close>
  "wait_ports host [] n = Some True"
| "wait_ports host (p # ps) n =
     (case wait_for (ch_clock host n) (ch_get host n (''http://localhost:'' @ py_str_int p @ ''/health'')) 25 of
        None \<Rightarrow> None
      | Some up \<Rightarrow> if up then wait_ports host ps (Suc n) else Some False)"

definition terminate :: "check_host \<Rightarrow> nat list \<Rightarrow> check_event list" where
  \<comment> \<open>\<open>w.terminate()\<close> signals a process that has not exited\<close>
  "terminate host ws = map Terminated (filter (\<lambda>n. \<not> ch_exits host n) ws)"

fun wait_exits :: "check_host \<Rightarrow> nat list \<Rightarrow> py_error + unit" where
  \<comment> \<open>\<open>w.wait(timeout=5)\<close>\<close>
  "wait_exits host [] = Inr ()"
| "wait_exits host (n # ns) = (if ch_exits host n \<or> ch_obeys host n then wait_exits host ns else Inl TimeoutExpired)"

definition check_main ::
  "check_host \<Rightarrow> string \<Rightarrow> 'e + int \<Rightarrow> (('e check_error + int) \<times> check_event list) option" where
  \<comment> \<open>the exit status or the exception, and what happened to the processes: the workers are started before
      the \<open>try\<close>, and an exception of the \<open>finally\<close> replaces the outcome\<close>
  "check_main host scripts checks =
     (case launch host scripts check_ports 0 of
        (Inl e, evs) \<Rightarrow> Some (Inl (ProcessError e), evs)
      | (Inr ws, evs) \<Rightarrow>
          (case wait_ports host check_ports 0 of
             None \<Rightarrow> None
           | Some up \<Rightarrow>
               Some (case wait_exits host ws of
                       Inl e \<Rightarrow> Inl (ProcessError e)
                     | Inr _ \<Rightarrow> if up then map_sum ChecksError id checks else Inr 1,
                     evs @ terminate host ws)))"

subsection \<open>What is left running\<close>

definition check_alive :: "check_host \<Rightarrow> check_event list \<Rightarrow> nat \<Rightarrow> bool" where
  "check_alive host evs n \<longleftrightarrow>
     (\<exists>cmd. Launched n cmd \<in> set evs) \<and> \<not> ch_exits host n \<and> \<not> (Terminated n \<in> set evs \<and> ch_obeys host n)"

lemma launch_all:
  "\<forall>k < length ps. ch_starts host (n + k) \<Longrightarrow>
     \<exists>evs. launch host scripts ps n = (Inr [n..<n + length ps], evs) \<and>
       (\<forall>m. (\<exists>cmd. Launched m cmd \<in> set evs) \<longleftrightarrow> n \<le> m \<and> m < n + length ps) \<and> (\<forall>m. Terminated m \<notin> set evs)"
proof (induction ps arbitrary: n)
  case (Cons p ps)
  have "\<forall>k < length ps. ch_starts host (Suc n + k)" using Cons.prems by force
  from Cons.IH [OF this] obtain evs where evs: "launch host scripts ps (Suc n) = (Inr [Suc n..<Suc n + length ps], evs)"
    "\<forall>m. (\<exists>cmd. Launched m cmd \<in> set evs) \<longleftrightarrow> Suc n \<le> m \<and> m < Suc n + length ps" "\<forall>m. Terminated m \<notin> set evs" by blast
  have "ch_starts host n" using Cons.prems by force
  with evs(1) have l: "launch host scripts (p # ps) n =
      (Inr [n..<n + length (p # ps)], Launched n (worker_command scripts p) # evs)"
    by (simp add: upt_conv_Cons del: upt_Suc)
  have "(\<exists>cmd. Launched m cmd \<in> set (Launched n c # evs)) \<longleftrightarrow> m = n \<or> (\<exists>cmd. Launched m cmd \<in> set evs)" for m c by auto
  then have "\<forall>m. (\<exists>cmd. Launched m cmd \<in> set (Launched n (worker_command scripts p) # evs)) \<longleftrightarrow> n \<le> m \<and> m < n + length (p # ps)"
    using evs(2) by auto
  with l evs(3) show ?case by auto
qed simp

lemma wait_exits_ok: "wait_exits host ns = (if \<forall>n \<in> set ns. ch_exits host n \<or> ch_obeys host n then Inr () else Inl TimeoutExpired)"
  by (induction ns) auto

lemma wait_ports_answer:
  assumes "\<forall>k. advancing d (ch_clock host k)" "0 < d"
  shows "\<exists>up. wait_ports host ps n = Some up \<and>
    (up \<longleftrightarrow> (\<forall>k < length ps. up_in_time (ch_clock host (n + k))
       (ch_get host (n + k) (''http://localhost:'' @ py_str_int (ps ! k) @ ''/health'')) 25))"
proof (induction ps arbitrary: n)
  case (Cons p ps)
  have all: "(\<forall>k < Suc m. P k) \<longleftrightarrow> P 0 \<and> (\<forall>k < m. P (Suc k))" for m and P :: "nat \<Rightarrow> bool"
    by (metis less_Suc_eq_0_disj)
  have "wait_for (ch_clock host n) get 25 = Some (up_in_time (ch_clock host n) get 25)" for get
    using wait_answer(1) assms by blast
  with Cons.IH [of "Suc n"] show ?case by (auto simp: all)
qed auto

definition workers_up :: "check_host \<Rightarrow> bool" where
  \<comment> \<open>every worker answers its health check within the 25 seconds\<close>
  "workers_up host \<longleftrightarrow>
     (\<forall>k < 2. up_in_time (ch_clock host k) (ch_get host k (''http://localhost:'' @ py_str_int (check_ports ! k) @ ''/health'')) 25)"

lemma check_main_started:
  assumes clock: "\<forall>k. advancing d (ch_clock host k)" "0 < d" and starts: "ch_starts host 0" "ch_starts host 1"
  shows "\<exists>out evs. check_main host scripts checks = Some (out, evs) \<and>
    (if \<forall>n < 2. ch_exits host n \<or> ch_obeys host n
     then (\<forall>n. \<not> check_alive host evs n) \<and> out = (if workers_up host then map_sum ChecksError id checks else Inr 1)
     else out = Inl (ProcessError TimeoutExpired))"
proof -
  have "\<forall>k < length check_ports. ch_starts host (0 + k)"
    using starts by (auto simp: check_ports_def less_Suc_eq numeral_2_eq_2)
  from launch_all [OF this, of scripts] obtain evs where evs: "launch host scripts check_ports 0 = (Inr [0..<2], evs)"
    "\<forall>m. (\<exists>cmd. Launched m cmd \<in> set evs) \<longleftrightarrow> m < 2" "\<forall>m. Terminated m \<notin> set evs"
    by (auto simp: check_ports_def numeral_2_eq_2)
  from wait_ports_answer [OF clock, of check_ports 0] have up: "wait_ports host check_ports 0 = Some (workers_up host)"
    by (auto simp: workers_up_def check_ports_def numeral_2_eq_2)
  have "\<not> check_alive host (evs @ terminate host [0..<2]) n" if "\<forall>n < 2. ch_exits host n \<or> ch_obeys host n" for n
    using that evs(2,3) by (auto simp: check_alive_def terminate_def)
  with evs(1) up show ?thesis by (auto simp: check_main_def wait_exits_ok)
qed

text \<open>
  C36: The integration check cleans up after itself, once its workers run. When the sleeps of its waits
  move the clock forward, a run returns. If both workers could be started and exit when they are told
  to, none of them runs afterwards, whatever the checks did, and the outcome is that of the checks,
  or 1 when a worker did not come up in time; a worker that does not exit in five seconds
  turns any outcome into a timeout. But a worker that was started before another could not be is
  left running: the list is built outside the \<open>try\<close>.
\<close>

theorem check_cleans_up_after_itself:
  assumes clock: "\<forall>k. advancing d (ch_clock host k)" "0 < d"
  shows "(ch_starts host 0 \<and> ch_starts host 1 \<longrightarrow>
      (\<exists>out evs. check_main host scripts checks = Some (out, evs) \<and>
        (if \<forall>n < 2. ch_exits host n \<or> ch_obeys host n
         then (\<forall>n. \<not> check_alive host evs n) \<and> out = (if workers_up host then map_sum ChecksError id checks else Inr 1)
         else out = Inl (ProcessError TimeoutExpired)))) \<and>
    (ch_starts host 0 \<and> \<not> ch_starts host 1 \<longrightarrow>
      (\<exists>evs. check_main host scripts checks = Some (Inl (ProcessError OSError), evs) \<and>
        (check_alive host evs 0 \<longleftrightarrow> \<not> ch_exits host 0)))"
proof (intro conjI impI)
  assume "ch_starts host 0 \<and> \<not> ch_starts host 1"
  then show "\<exists>evs. check_main host scripts checks = Some (Inl (ProcessError OSError), evs) \<and>
        (check_alive host evs 0 \<longleftrightarrow> \<not> ch_exits host 0)"
    by (auto simp: check_main_def check_ports_def check_alive_def)
qed (use check_main_started [OF clock] in blast)

definition demo_check_host :: "(nat \<Rightarrow> bool) \<Rightarrow> check_host" where
  \<comment> \<open>both workers answer at once\<close>
  "demo_check_host starts =
     \<lparr>ch_starts = starts, ch_exits = (\<lambda>n. False), ch_obeys = (\<lambda>n. True), ch_clock = (\<lambda>k n. real n), ch_get = (\<lambda>k url n. Inr 200)\<rparr>"

lemma demo_host_clock: "\<forall>k. advancing 1 (ch_clock (demo_check_host s) k)"
  by (simp add: advancing_def demo_check_host_def)

lemma demo_host_up: "workers_up (demo_check_host s)"
  by (auto simp: workers_up_def up_in_time_def demo_check_host_def intro!: exI [of _ "0 :: nat"])

lemma check_cleans_up_after_itself_witness:
  "(\<exists>evs. check_main (demo_check_host (\<lambda>n. True)) ''scripts'' (Inr 0 :: unit + int) = Some (Inr 0, evs) \<and>
      \<not> check_alive (demo_check_host (\<lambda>n. True)) evs 0) \<and>
   (\<exists>evs. check_main (demo_check_host (\<lambda>n. n = 0)) ''scripts'' (Inr 0 :: unit + int) = Some (Inl (ProcessError OSError), evs) \<and>
      check_alive (demo_check_host (\<lambda>n. n = 0)) evs 0)"
proof -
  note clock = demo_host_clock
  show ?thesis
    using demo_host_up check_cleans_up_after_itself [OF clock, of "\<lambda>n. True" "''scripts''" "Inr 0 :: unit + int"]
      check_cleans_up_after_itself [OF clock, of "\<lambda>n. n = 0" "''scripts''" "Inr 0 :: unit + int"]
    by (auto simp: demo_check_host_def)
qed

end
