(* ===== verification/Check_Run.thy ===== *)
theory Check_Run
  imports Concurrent_Sessions Check_Processes
begin

section \<open>The integration check against the gateway\<close>

text \<open>
  What \<open>main\<close> of \<open>scripts/integration_check.py\<close> sends: the environment it sets, the requests of its
  agent session and those without a valid token, and \<open>drive_gateway\<close>, which sends them to the model
  of the application in front of two mock workers and collects what the checks read. A
  \<open>visit\<close> carries the clock readings made while a request is served. The application is the one
  \<open>create_app\<close> makes, over the session store that the environment selects.
\<close>

definition check_redis_url :: "env \<Rightarrow> string" where
  "check_redis_url base =
     (case base ''INTEGRATION_REDIS_URL'' of None \<Rightarrow> ''redis://localhost:6399/1'' | Some url \<Rightarrow> url)"

definition check_env :: "env \<Rightarrow> string \<Rightarrow> env" where
  "check_env base url = base(
     ''AGENTSERVE_BACKEND'' \<mapsto> ''vllm'',
     ''AGENTSERVE_VLLM_ENDPOINTS'' \<mapsto> ''http://localhost:8201,http://localhost:8202'',
     ''AGENTSERVE_REDIS_URL'' \<mapsto> url,
     ''AGENTSERVE_API_KEY'' \<mapsto> ''topsecret'')"

definition refused_requests :: "(string \<times> http_request) list" where
  "refused_requests = map
     (\<lambda>(label, token). (label,
        \<lparr>rq_authorization = token, rq_session_id = Some ''a'', rq_tool_name = None,
         rq_body = Inr (JDict [(''messages'', JList [user_message ''hi''])])\<rparr>))
     [(''no token'', None), (''bad token'', Some ''Bearer x'')]"

primrec check_convo :: "nat \<Rightarrow> string" where
  \<comment> \<open>the prompt of the turn with this index\<close>
  "check_convo 0 = ''SYSTEM '' @ replicate 8000 (CHR ''z'')"
| "check_convo (Suc k) = check_convo k @ '' TOOL OUTPUT '' @ replicate 2000 (CHR ''q'')"

definition check_request :: "nat \<Rightarrow> http_request" where
  "check_request k =
     \<lparr>rq_authorization = Some ''Bearer topsecret'', rq_session_id = Some ''real-1'', rq_tool_name = Some ''run_tests'',
      rq_body = Inr (JDict [(''messages'', JList [user_message (check_convo k)]), (''max_tokens'', JInt 20)])\<rparr>"

definition stream_request :: http_request where
  "stream_request =
     \<lparr>rq_authorization = Some ''Bearer topsecret'', rq_session_id = Some ''real-stream'', rq_tool_name = None,
      rq_body = Inr (JDict [(''messages'', JList [user_message (replicate 9000 (CHR ''w''))]), (''max_tokens'', JInt 20),
                            (''stream'', JBool True)])\<rparr>"

fun status_code :: "http_failure + chat_answer \<Rightarrow> py_error + int" where
  \<comment> \<open>the test client lets an exception of the application through\<close>
  "status_code (Inr res) = Inr 200"
| "status_code (Inl (Rejected st detail)) = Inr st"
| "status_code (Inl (Unhandled e)) = Inl e"

definition error_body :: "string \<Rightarrow> json" where
  "error_body detail = JDict [(''detail'', JStr detail)]"

fun response_json :: "http_failure + chat_answer \<Rightarrow> py_error + json" where
  "response_json (Inr (Answer j)) = Inr j"
| "response_json (Inr (EventStream events)) = Inl ValueError"
| "response_json (Inl (Rejected st detail)) = Inr (error_body detail)"
| "response_json (Inl (Unhandled e)) = Inl e"

fun response_lines :: "(json \<Rightarrow> string) \<Rightarrow> (py_error \<Rightarrow> string) \<Rightarrow> http_failure + chat_answer \<Rightarrow> py_error + string list" where
  "response_lines dumps message (Inr (Answer j)) = Inr [dumps j]"
| "response_lines dumps message (Inr (EventStream events)) = Inr (event_lines dumps message events)"
| "response_lines dumps message (Inl (Rejected st detail)) = Inr [dumps (error_body detail)]"
| "response_lines dumps message (Inl (Unhandled e)) = Inl e"

fun each_response :: "('a \<Rightarrow> py_error + 'b) \<Rightarrow> 'a list \<Rightarrow> py_error + 'b list" where
  "each_response f [] = Inr []"
| "each_response f (x # xs) =
     (case f x of Inl e \<Rightarrow> Inl e | Inr y \<Rightarrow> (case each_response f xs of Inl e \<Rightarrow> Inl e | Inr ys \<Rightarrow> Inr (y # ys)))"

definition probe_workers :: "('s, mock_cluster) app \<Rightarrow> (mock_cluster app_backend \<Rightarrow> bool \<times> mock_cluster app_backend) option" where
  "probe_workers a =
     (case app_backend a of
        SimulatedBackend h \<Rightarrow> None
      | VllmBackend v \<Rightarrow> Some (\<lambda>b. (case b of VllmBackend v \<Rightarrow> map_prod id VllmBackend (aprobe mock_http v) | _ \<Rightarrow> (True, b))))"

definition session_visits :: "visit list \<Rightarrow> visit list" where
  "session_visits vs = map2 (\<lambda>v k. v\<lparr>vs_request := check_request k\<rparr>) vs [0..<5]"

definition check_workers :: mock_cluster where
  \<comment> \<open>the two workers on \<open>PORTS\<close>, as they are after their start\<close>
  "check_workers = [(''http://localhost:8201'', []), (''http://localhost:8202'', [])]"

definition drive_gateway ::
  "'s session_store \<Rightarrow> string \<Rightarrow> (string \<Rightarrow> json option) \<Rightarrow> (json \<Rightarrow> string) \<Rightarrow> (py_error \<Rightarrow> string) \<Rightarrow> visit list \<Rightarrow> visit list
   \<Rightarrow> visit \<Rightarrow> ('s, mock_cluster) app \<Rightarrow> py_error + observation_log" where
  \<comment> \<open>with the clock readings of the refused calls, of the session and of the streamed call; both workers are up\<close>
  "drive_gateway ops version loads dumps message refused accepted streamed a =
     (let up = mock_upstream loads dumps;
          (st, body, s, b) = ready ops (probe_workers a) (g_store (app_gateway a)) (app_backend a);
          a1 = a\<lparr>app_gateway := (app_gateway a)\<lparr>g_store := s\<rparr>, app_backend := b\<rparr>;
          (denied, a2) = converse ops up (map2 (\<lambda>v (label, rq). v\<lparr>vs_request := rq\<rparr>) refused refused_requests) a1;
          (answers, a3) = converse ops up (session_visits accepted) a2;
          (stream, a4) = serve_visit ops up (streamed\<lparr>vs_request := stream_request\<rparr>) a3
      in case each_response status_code denied of Inl e \<Rightarrow> Inl e | Inr codes \<Rightarrow>
         (case each_response response_json answers of Inl e \<Rightarrow> Inl e | Inr js \<Rightarrow>
         (case response_lines dumps message stream of Inl e \<Rightarrow> Inl e | Inr lines \<Rightarrow>
          Inr \<lparr>ol_health = health ops version a,
               ol_ready = st,
               ol_unauthorized = zip (map fst refused_requests) codes,
               ol_turns = js,
               ol_stream = filter (\<lambda>ln. strip ln \<noteq> []) lines\<rparr>)))"

record 'c libraries =
  lib_connect :: "string \<Rightarrow> client_error + 'c" \<comment> \<open>\<open>Redis.from_url\<close> and \<open>ping\<close>\<close>
  lib_redis :: "'c redis_client"
  lib_tiktoken :: "(string \<Rightarrow> py_error + encoder) option"
  lib_loads :: "string \<Rightarrow> json option"
  lib_dumps :: "json \<Rightarrow> string"
  lib_str :: "py_error \<Rightarrow> string"

datatype script_error = BadSettings config_error | NotStarted startup_error | Raised py_error

definition gateway_checks ::
  "'c libraries \<Rightarrow> env \<Rightarrow> string \<Rightarrow> string \<Rightarrow> visit list \<Rightarrow> visit list \<Rightarrow> visit \<Rightarrow> (script_error + int) option" where
  \<comment> \<open>from the settings to the exit status; \<open>None\<close> for settings with a float that is not a finite number\<close>
  "gateway_checks lib base url version refused accepted streamed =
     (case load_settings (check_env base url) of Inl e \<Rightarrow> Some (Inl (BadSettings e)) | Inr s \<Rightarrow>
     (case create_app (lib_connect lib) (lib_tiktoken lib) s None check_workers of
        None \<Rightarrow> None
      | Some (Inl e) \<Rightarrow> Some (Inl (NotStarted e))
      | Some (Inr a) \<Rightarrow>
          Some (case drive_gateway (built_ops (lib_redis lib)) version (lib_loads lib) (lib_dumps lib) (lib_str lib)
                       refused accepted streamed a of
                  Inl e \<Rightarrow> Inl (Raised e)
                | Inr ob \<Rightarrow>
                    (case all_failures ob of Inl e \<Rightarrow> Inl (Raised e) | Inr fs \<Rightarrow> Inr (if fs = [] then 0 else 1)))))"

definition integration_check ::
  "'c libraries \<Rightarrow> check_host \<Rightarrow> string \<Rightarrow> env \<Rightarrow> string \<Rightarrow> visit list \<Rightarrow> visit list \<Rightarrow> visit
   \<Rightarrow> ((script_error check_error + int) \<times> check_event list) option" where
  "integration_check lib host scripts base version refused accepted streamed =
     (case gateway_checks lib base (check_redis_url base) version refused accepted streamed of
        None \<Rightarrow> None
      | Some checks \<Rightarrow> check_main host scripts checks)"

subsection \<open>Prompts and requests\<close>

lemma check_convo_length: "length (check_convo k) = 8007 + 2013 * k"
  by (induction k) simp_all

lemma check_convo_tokens: "mock_tokens (check_convo k) = int ((8007 + 2013 * k) div 4)"
  by (simp add: mock_tokens_def check_convo_length)

lemma check_convo_fits: "k \<le> 4 \<Longrightarrow> mock_tokens (check_convo k) + 5 \<le> 5000"
proof -
  assume "k \<le> 4"
  then have "(8007 + 2013 * k) div 4 \<le> (8007 + 2013 * 4) div 4" by (intro div_le_mono) simp
  then show ?thesis by (simp add: check_convo_tokens)
qed

lemma session_request_accepted:
  assumes "sid \<noteq> []" "length sid \<le> 256"
  shows "\<exists>cl. read_call (Some ''topsecret'') tk ((check_request k)\<lparr>rq_session_id := Some sid\<rparr>) = Inr cl \<and> c_sid cl = sid \<and>
     \<not> c_stream cl \<and> message_text (c_messages cl) = Inr (check_convo k)"
proof -
  have "\<exists>n. count_messages tk [user_message s] = Inr n" for s
    using count_messages_sum [of "[user_message s]" tk] by (simp add: user_message_def)
  then obtain n where n: "count_messages tk [user_message (check_convo k)] = Inr n" by blast
  have "message_text [user_message s] = Inr s" for s
    by (simp add: message_text_def user_message_def)
  with n assms show ?thesis
    by (simp add: read_call_def check_request_def require_api_key_def check_session_id_def or_unhandled_def
        check_messages_def)
qed

lemma check_request_accepted:
  "\<exists>cl. read_call (Some ''topsecret'') tk (check_request k) = Inr cl \<and> c_sid cl = ''real-1'' \<and> \<not> c_stream cl \<and>
     message_text (c_messages cl) = Inr (check_convo k)"
  using session_request_accepted [of "''real-1''" tk k] by (simp add: check_request_def)

lemma stream_request_accepted:
  "\<exists>cl. read_call (Some ''topsecret'') tk stream_request = Inr cl \<and> c_sid cl = ''real-stream'' \<and> c_stream cl \<and>
     message_text (c_messages cl) = Inr (replicate 9000 (CHR ''w''))"
proof -
  define w where "w = replicate 9000 (CHR ''w'')"
  obtain n where n: "count_messages tk [user_message w] = Inr n"
    using count_messages_sum [of "[user_message w]" tk] by (auto simp: user_message_def)
  have "message_text [user_message w] = Inr w"
    by (simp add: message_text_def user_message_def)
  with n show ?thesis
    unfolding stream_request_def w_def [symmetric]
    by (simp add: read_call_def require_api_key_def check_session_id_def or_unhandled_def check_messages_def)
qed

lemma refused_visit:
  assumes "rq \<in> snd ` set refused_requests" "api_key (app_settings a) = Some ''topsecret''"
  shows "serve_visit ops up (v\<lparr>vs_request := rq\<rparr>) a = (Inl (Rejected 401 ''invalid or missing bearer token''), a)"
  using assms by (auto simp: refused_requests_def serve_visit_def chat_endpoint_def read_call_def require_api_key_def)

subsection \<open>The settings the script chooses\<close>

definition check_settings :: "string option \<Rightarrow> settings" where
  "check_settings url = default_settings\<lparr>set_backend := ''vllm'',
     vllm_endpoints := [''http://localhost:8201'', ''http://localhost:8202''],
     redis_url := url, api_key := Some ''topsecret'',
     set_cluster := (set_cluster default_settings)\<lparr>ec_replicas := 2\<rparr>\<rparr>"

lemma load_check_env:
  assumes unset: "\<forall>suffix. base (''AGENTSERVE_'' @ suffix) = None"
  shows "load_settings (check_env base url) = Inr (check_settings (if url = [] then None else Some url))"
proof -
  define env where "env = check_env base url"
  have none: "base name = None" if "name \<in> set numeric_variables \<union> {''AGENTSERVE_ROUTER'', ''AGENTSERVE_POLICY'',
      ''AGENTSERVE_VLLM_MODEL'', ''AGENTSERVE_TOKENIZER''}" for name
    using unset that unfolding numeric_variables_def by (simp, elim disjE) (metis append_Cons append_Nil)+
  have words: "lower (strip ''vllm'') = ''vllm''" "lower (strip ''affinity'') = ''affinity''"
    "lower (strip ''adaptive'') = ''adaptive''" by code_simp+
  have set: "env ''AGENTSERVE_BACKEND'' = Some ''vllm''"
    "env ''AGENTSERVE_VLLM_ENDPOINTS'' = Some ''http://localhost:8201,http://localhost:8202''"
    "env ''AGENTSERVE_REDIS_URL'' = Some url" "env ''AGENTSERVE_API_KEY'' = Some ''topsecret''"
    by (simp_all add: env_def check_env_def)
  have keep: "env name = base name" if "name \<notin> {''AGENTSERVE_BACKEND'', ''AGENTSERVE_VLLM_ENDPOINTS'',
      ''AGENTSERVE_REDIS_URL'', ''AGENTSERVE_API_KEY''}" for name
    using that by (simp add: env_def check_env_def)
  have unset': "env ''AGENTSERVE_ROUTER'' = None" "env ''AGENTSERVE_POLICY'' = None"
    "env ''AGENTSERVE_VLLM_MODEL'' = None" "env ''AGENTSERVE_TOKENIZER'' = None"
    by (simp_all add: keep none)
  have num: "env ''AGENTSERVE_GPU_CACHE_TOKENS'' = None" "env ''AGENTSERVE_DRAM_CACHE_TOKENS'' = None"
    "env ''AGENTSERVE_PIN_THRESHOLD_MS'' = None" "env ''AGENTSERVE_OFFLOAD_THRESHOLD_MS'' = None"
    "env ''AGENTSERVE_DEAD_SESSION_MS'' = None" "env ''AGENTSERVE_AFFINITY_QUEUE_LIMIT'' = None"
    "env ''AGENTSERVE_EWMA_ALPHA'' = None" "env ''AGENTSERVE_PREDICTOR_PRIOR_MS'' = None"
    "env ''AGENTSERVE_PREDICTOR_MIN_OBS'' = None" "env ''AGENTSERVE_VLLM_TIMEOUT_S'' = None"
    "env ''AGENTSERVE_VLLM_MAX_RETRIES'' = None" "env ''AGENTSERVE_SESSION_TTL_S'' = None"
    "env ''AGENTSERVE_MAX_SESSIONS'' = None"
    by (simp_all add: keep none numeric_variables_def)
  have choices: "env_choice env ''AGENTSERVE_BACKEND'' ''simulated'' = ''vllm''"
    "env_choice env ''AGENTSERVE_ROUTER'' ''affinity'' = ''affinity''"
    "env_choice env ''AGENTSERVE_POLICY'' ''adaptive'' = ''adaptive''"
    using words by (simp_all add: env_choice_def set unset')
  have parts: "rstrip_comma (strip ''http://localhost:8201'') = ''http://localhost:8201''"
    "rstrip_comma (strip ''http://localhost:8202'') = ''http://localhost:8202''" by code_simp+
  have csv: "csv env ''AGENTSERVE_VLLM_ENDPOINTS'' = [''http://localhost:8201'', ''http://localhost:8202'']"
    using split_comma_first [of "''http://localhost:8201''" "''http://localhost:8202''"]
      split_comma_plain [of "''http://localhost:8202''"]
    by (simp add: csv_def set parts del: split_comma.simps)
  have "load_hardware env = Inr default_hardware"
    by (simp add: load_hardware_Inr read_int_def num blank_def default_hardware_def)
  moreover have "load_policy env = Inr \<lparr>ep_pin = Finite 2000, ep_offload = Finite 300000, ep_dead = Finite 600000,
      ep_queue_limit = 6\<rparr>"
    by (simp add: load_policy_Inr read_float_def read_int_def num blank_def)
  moreover have "load_predictor env = Inr \<lparr>en_alpha = Finite (3 / 10), en_prior = Finite 5000, en_min_obs = 2\<rparr>"
    by (simp add: load_predictor_Inr read_float_def read_int_def num blank_def)
  ultimately show ?thesis
    by (simp add: env_def [symmetric] load_settings_Inr load_cluster_Inr choices csv check_settings_def default_settings_def
        env_text_def env_optional_def set unset' num read_float_def read_int_def blank_def)
qed

lemma affinity_check_settings:
  fixes base :: env
  assumes "\<forall>suffix. base (''AGENTSERVE_'' @ suffix) = None"
  shows "affinity_settings (check_settings (if url = [] then None else Some url))
    (default_cluster_config\<lparr>cc_replicas := 2\<rparr>) 300000"
proof -
  have "rstrip_slash ''http://localhost:8201'' \<noteq> rstrip_slash ''http://localhost:8202''" by code_simp
  moreover have "finite_cluster (set_cluster (check_settings u)) = Some (default_cluster_config\<lparr>cc_replicas := 2\<rparr>)" for u
    by (simp add: check_settings_def default_settings_def finite_cluster_def default_cluster_config_def
        default_policy_config_def default_predictor_config_def)
  moreover have "\<exists>env. load_settings env = Inr (check_settings (if url = [] then None else Some url))"
    using load_check_env [OF assms] by blast
  ultimately show ?thesis
    by (simp add: affinity_settings_def) (simp add: check_settings_def default_settings_def
        default_cluster_config_def default_policy_config_def default_predictor_config_def)
qed

subsection \<open>The session's clock readings\<close>

definition timely :: "(real \<Rightarrow> bool) \<Rightarrow> real \<Rightarrow> real \<Rightarrow> visit list \<Rightarrow> bool" where
  \<comment> \<open>readings in order, calls at most \<open>B\<close> apart, all within \<open>lifetime\<close> of the first, ends the store can keep\<close>
  "timely storable B lifetime vs \<longleftrightarrow>
     (\<forall>v \<in> set vs. storable (vs_now v + vs_elapsed v) \<and> 0 \<le> vs_elapsed v \<and> fst (vs_clocks v) \<le> fst (snd (vs_clocks v)) \<and>
        fst (snd (vs_clocks v)) \<le> snd (snd (vs_clocks v)) \<and> snd (snd (vs_clocks v)) \<le> vs_clock v \<and>
        vs_clock v \<le> fst (vs_clocks (hd vs)) + lifetime) \<and>
     (\<forall>k. Suc k < length vs \<longrightarrow> vs_now (vs ! Suc k) - vs_now (vs ! k) \<le> B \<and> vs_clock (vs ! k) \<le> fst (vs_clocks (vs ! Suc k)))"

fun paced :: "real \<Rightarrow> (visit \<times> string) list \<Rightarrow> bool" where
  \<comment> \<open>the calls of one session in order\<close>
  "paced B ((v, t) # (v', t') # vts) =
     (Sublist.prefix t t' \<and> vs_now v' - vs_now v \<le> B \<and> vs_clock v \<le> fst (vs_clocks v') \<and> paced B ((v', t') # vts))"
| "paced B _ = True"

lemma paced_in_order:
  "paced B ((v, t) # vts) \<Longrightarrow> lo \<le> fst (vs_clocks v) \<Longrightarrow>
     (\<And>m t0. latest sid = Some (m, t0) \<Longrightarrow> vs_now v - m \<le> B \<and> Sublist.prefix t0 t) \<Longrightarrow>
     in_order B latest lo (map (Pair sid) ((v, t) # vts))"
proof (induction vts arbitrary: v t lo latest)
  case (Cons p vts)
  obtain v' t' where p: "p = (v', t')" by fastforce
  have "in_order B (latest(sid \<mapsto> (vs_now v, t))) (vs_clock v) (map (Pair sid) ((v', t') # vts))"
    by (rule Cons.IH) (use Cons.prems(1) in \<open>auto simp: p\<close>)
  with Cons.prems show ?case by (auto simp: p split: option.split)
qed (auto split: option.split)

lemma paced_nth:
  "paced B vts \<longleftrightarrow> (\<forall>k. Suc k < length vts \<longrightarrow>
     Sublist.prefix (snd (vts ! k)) (snd (vts ! Suc k)) \<and> vs_now (fst (vts ! Suc k)) - vs_now (fst (vts ! k)) \<le> B \<and>
     vs_clock (fst (vts ! k)) \<le> fst (vs_clocks (fst (vts ! Suc k))))"
proof (induction B vts rule: paced.induct)
  case (1 B v t v' t' vts)
  have all: "(\<forall>k. P k) \<longleftrightarrow> P 0 \<and> (\<forall>k. P (Suc k))" for P :: "nat \<Rightarrow> bool" by (metis not0_implies_Suc)
  show ?case by (subst all) (auto simp: 1)
qed auto

lemma session_visits_nth:
  assumes "length vs = 5"
  shows "length (session_visits vs) = 5" "k < 5 \<Longrightarrow> session_visits vs ! k = (vs ! k)\<lparr>vs_request := check_request k\<rparr>"
  using assms by (simp_all add: session_visits_def)

definition check_calls :: "visit list \<Rightarrow> session_call list" where
  "check_calls vs = map (Pair ''real-1'') (zip (session_visits vs) (map check_convo [0..<5]))"

lemma check_calls_parts:
  assumes "length vs = 5"
  shows "map (fst \<circ> snd) (check_calls vs) = session_visits vs"
    "map (\<lambda>(sid, v, t). (sid, t)) (check_calls vs) = map (Pair ''real-1'') (map check_convo [0..<5])"
proof -
  have len: "length (session_visits vs) = length (map check_convo [0..<5])" using session_visits_nth(1) [OF assms] by simp
  have "map (fst \<circ> snd) (map (Pair sid) (zip xs ys)) = xs \<and> map (\<lambda>(sid, v, t). (sid, t)) (map (Pair sid) (zip xs ys)) = map (Pair sid) ys"
    if "length xs = length ys" for sid and xs :: "visit list" and ys :: "string list"
    using that by (induction xs ys rule: list_induct2) simp_all
  note parts = this [OF len, of "''real-1''", folded check_calls_def]
  show "map (fst \<circ> snd) (check_calls vs) = session_visits vs" by (rule conjunct1 [OF parts])
  show "map (\<lambda>(sid, v, t). (sid, t)) (check_calls vs) = map (Pair ''real-1'') (map check_convo [0..<5])"
    by (rule conjunct2 [OF parts])
qed

lemma check_traffic:
  assumes vs: "length vs = 5" "timely storable B lifetime vs" and s: "api_key s = Some ''topsecret''" "1 \<le> set_max_sessions s"
    and c: "5000 \<le> gpu_cache_tokens (hardware c)" "5000 \<le> dram_cache_tokens (hardware c)"
  shows "traffic storable s c tk B lifetime (\<lambda>sid. 5000) (check_calls vs)"
proof -
  define vts where "vts = zip (session_visits vs) (map check_convo [0..<5])"
  note nth = session_visits_nth(2) [OF vs(1)]
  have len: "length vts = 5" using session_visits_nth(1) [OF vs(1)] by (simp add: vts_def)
  have at: "vts ! k = ((vs ! k)\<lparr>vs_request := check_request k\<rparr>, check_convo k)" if "k < 5" for k
    using that len nth by (simp add: vts_def)
  have paced: "paced B vts"
    using vs(2) vs(1) at len by (simp add: paced_nth timely_def)
  obtain v t ws where cons: "vts = (v, t) # ws" using len by (cases vts) auto
  have first: "fst (vs_clocks v) = fst (vs_clocks (hd vs))"
    using at [of 0] vs(1) cons by (simp add: hd_conv_nth flip: length_greater_0_conv)
  have calls: "check_calls vs = map (Pair ''real-1'') vts" by (simp only: check_calls_def vts_def)
  have "in_order B (\<lambda>sid. None) (fst (vs_clocks v)) (check_calls vs)"
    using paced_in_order [of B v t ws "fst (vs_clocks v)" "\<lambda>sid. None"] paced unfolding calls cons by simp
  moreover have "good_visit storable (\<lambda>sid. 5000) (api_key s) tk ''real-1'' (fst (vts ! k)) (snd (vts ! k)) \<and>
      vs_clock (fst (vts ! k)) \<le> fst (vs_clocks v) + lifetime" if k: "k < 5" for k
  proof -
    have "mock_tokens (check_convo k) + 5 \<le> 5000" using k by (intro check_convo_fits) simp
    moreover have "vs ! k \<in> set vs" using k vs(1) by simp
    ultimately show ?thesis
      using vs(2) check_request_accepted [of tk k] at [OF k] s(1) by (simp add: good_visit_def timely_def first)
  qed
  then have "\<forall>(v', t') \<in> set vts. good_visit storable (\<lambda>sid. 5000) (api_key s) tk ''real-1'' v' t' \<and>
      vs_clock v' \<le> fst (vs_clocks v) + lifetime"
    unfolding all_set_conv_all_nth len by (simp add: case_prod_beta)
  then have "\<forall>(sid, v', t') \<in> set (check_calls vs). good_visit storable (\<lambda>sid. 5000) (api_key s) tk sid v' t' \<and>
      vs_clock v' \<le> fst (vs_clocks v) + lifetime"
    unfolding calls by auto
  moreover have "fst ` set (check_calls vs) = {''real-1''}" unfolding calls cons by auto
  moreover have "fst (snd (hd (check_calls vs))) = v" "check_calls vs \<noteq> []" unfolding calls cons by simp_all
  ultimately show ?thesis using c s(2) by (simp add: traffic_def fitting_def)
qed

subsection \<open>What the checks read\<close>

lemma read_turns_hits:
  "\<forall>j \<in> set js. \<exists>cached. answered sid i cached j \<and> 0 < cached \<Longrightarrow> \<exists>vs. read_turns js = Inr vs \<and> length vs = length js \<and>
     (\<forall>v \<in> set vs. tv_replica v = JInt (int i) \<and> tv_tier v = JStr ''gpu'')"
  by (induction js) (auto simp: answered_def)

lemma same_replica: "vs \<noteq> [] \<Longrightarrow> \<forall>v \<in> set vs. tv_replica v = JInt n \<Longrightarrow> set_size (map tv_replica vs) = Inr 1"
proof -
  assume vs: "vs \<noteq> []" "\<forall>v \<in> set vs. tv_replica v = JInt n"
  from vs(2) have "map tv_replica vs = replicate (length vs) (JInt n)" by (induction vs) auto
  with vs(1) show ?thesis by (simp add: set_size_def)
qed

lemma session_of_one_replica:
  assumes "answered sid i c j" "\<forall>j \<in> set js. \<exists>cached. answered sid i cached j \<and> 0 < cached" "3 \<le> length js"
  shows "session_failures (j # js) = Inr []"
proof -
  from read_turns_hits [OF assms(2)] obtain vs where vs: "read_turns js = Inr vs" "length vs = length js"
    "\<forall>v \<in> set vs. tv_replica v = JInt (int i) \<and> tv_tier v = JStr ''gpu''" by blast
  obtain v where v: "read_turn j = Inr v" "tv_replica v = JInt (int i)" using assms(1) by (simp add: answered_def)
  have "set_size (map tv_replica (v # vs)) = Inr 1" by (rule same_replica [where n = "int i"]) (use v vs in auto)
  moreover have "filter (\<lambda>v. tv_tier v \<noteq> JStr ''miss'') vs = vs" using vs(3) by (simp add: filter_id_conv)
  ultimately show ?thesis using vs(1,2) v(1) assms(3) by (simp add: session_failures_def Let_def)
qed

lemma all_hit_session:
  assumes "all_hit (\<lambda>sid. None) (map (Pair sid) ts) js" "4 \<le> length ts"
  shows "session_failures js = Inr [] \<and> length js = length ts"
proof -
  from all_hit_nth [OF assms(1)] obtain home where
    len: "length js = length (map (Pair sid) ts)" and
    at: "\<forall>k < length js. \<exists>cached. answered (fst (map (Pair sid) ts ! k)) (home (fst (map (Pair sid) ts ! k))) cached (js ! k) \<and>
       (\<forall>i t. None = Some (i :: nat, t) \<longrightarrow> mock_tokens t \<le> cached) \<and>
       (\<forall>l < k. fst (map (Pair sid) ts ! l) = fst (map (Pair sid) ts ! k) \<longrightarrow> mock_tokens (snd (map (Pair sid) ts ! l)) \<le> cached)"
    by blast
  have hits: "length js = length ts" "\<And>k. k < length js \<Longrightarrow> \<exists>cached. answered sid (home sid) cached (js ! k) \<and>
       (\<forall>l < k. mock_tokens (ts ! l) \<le> cached)"
    using len at by simp_all
  obtain j js' where js: "js = j # js'" using hits(1) assms(2) by (cases js) auto
  have "\<exists>c. answered sid (home sid) c j" using hits(2) [of 0] by (auto simp: js)
  moreover have "\<exists>cached. answered sid (home sid) cached (js' ! k) \<and> 0 < cached" if "k < length js'" for k
  proof -
    from that hits(2) [of "Suc k"] obtain c where "answered sid (home sid) c (js' ! k)" "mock_tokens (ts ! 0) \<le> c"
      using hits(1) by (fastforce simp: js)
    then show ?thesis using mock_tokens_pos [of "ts ! 0"] by (intro exI [of _ c]) simp
  qed
  then have "\<forall>j \<in> set js'. \<exists>cached. answered sid (home sid) cached j \<and> 0 < cached" by (metis in_set_conv_nth)
  ultimately show ?thesis using session_of_one_replica [of sid "home sid" _ j js'] hits(1) assms(2) by (auto simp: js)
qed

lemma converse_refused:
  assumes "api_key (app_settings a) = Some ''topsecret''" "length refused = 2"
  shows "converse ops up (map2 (\<lambda>v (label, rq). v\<lparr>vs_request := rq\<rparr>) refused refused_requests) a =
    (replicate 2 (Inl (Rejected 401 ''invalid or missing bearer token'')), a)"
proof -
  obtain v w where vw: "refused = [v, w]" using assms(2) by (auto simp: numeral_2_eq_2 length_Suc_conv)
  obtain rq rq' where rqs: "refused_requests = [(''no token'', rq), (''bad token'', rq')]"
    by (simp add: refused_requests_def)
  have "rq \<in> snd ` set refused_requests" "rq' \<in> snd ` set refused_requests" by (simp_all add: rqs)
  note hits = this [THEN refused_visit, OF assms(1)]
  show ?thesis by (simp add: vw rqs hits numeral_2_eq_2)
qed

lemma each_response_answers: "each_response response_json (map (Inr \<circ> Answer) js) = Inr js"
  by (induction js) simp_all

lemma probe_mocked_start:
  assumes "vllm_endpoints s \<noteq> []"
  shows "\<exists>p. probe_workers (mocked_start s c st tk) = Some p \<and>
    p (app_backend (mocked_start s c st tk)) = (True, app_backend (mocked_start s c st tk))"
proof -
  have all: "\<forall>e \<in> set es. (\<exists>(e', cache) \<in> set ws. e = e') \<Longrightarrow> probe_all mock_http es ws = (replicate (length es) True, ws)"
    for es and ws :: mock_cluster
    by (induction es) (auto simp: mock_http_def mock_get_def)
  have "probe_all mock_http (map rstrip_slash (vllm_endpoints s)) (mock_workers (vllm_endpoints s)) =
      (replicate (length (vllm_endpoints s)) True, mock_workers (vllm_endpoints s))"
    using all [of "map rstrip_slash (vllm_endpoints s)" "mock_workers (vllm_endpoints s)"] by (auto simp: mock_workers_def)
  with assms show ?thesis by (simp add: probe_workers_def mocked_start_def aprobe_def)
qed

subsection \<open>What the client reads of the stream\<close>

definition first_delta :: "string \<Rightarrow> json" where
  "first_delta w = JDict [(''role'', JStr ''assistant''), (''content'', JStr w)]"

lemma contains_append: "contains w s \<Longrightarrow> contains w (u @ s)"
proof -
  assume "contains w s"
  then obtain k where "k \<in> {0..length s}" "take (length w) (drop k s) = w" by (auto simp: contains_def)
  then show ?thesis unfolding contains_def by (intro bexI [of _ "length u + k"]) auto
qed

lemma strip_data: "strip (''data: '' @ s) \<noteq> []"
proof -
  have "dropWhile is_space (''data: '' @ s) = ''data: '' @ s" by (simp add: is_space_def code_def)
  moreover have "\<not> is_space (CHR ''d'')" by (simp add: is_space_def code_def)
  ultimately show ?thesis by (simp add: strip_def strip_by_def dropWhile_eq_Nil_conv)
qed

lemma event_line_data: "\<exists>s. event_line dumps message e = ''data: '' @ s"
  by (cases e) auto

lemma printed_lines: "filter (\<lambda>ln. strip ln \<noteq> []) (event_lines dumps message events) = map (event_line dumps message) events"
proof (induction events)
  case (Cons e events)
  have "strip (event_line dumps message e) \<noteq> []" using event_line_data [of dumps message e] strip_data by metis
  moreover have "strip [] = []" by (simp add: strip_def strip_by_def)
  ultimately show ?case using Cons by (simp add: event_lines_def)
qed (simp add: event_lines_def)

context roomy_store
begin

lemma streamed_lines:
  assumes a: "standing c a" "wf_predictor_config (cc_predictor c)" "api_key (app_settings a) = Some ''topsecret''"
    and lib: "\<forall>cached. codec loads dumps (mock_chunks (mock_usage 2250 cached))"
      "\<forall>sid m now. contains ''fix'' (dumps (envelope sid m now (first_delta ''fix'') JNull))"
    and stored: "storable (vs_now v + vs_elapsed v)"
  shows "\<exists>res a' lines. serve_visit ops (mock_upstream loads dumps) (v\<lparr>vs_request := stream_request\<rparr>) a = (res, a') \<and>
    response_lines dumps message res = Inr lines \<and> stream_failures (filter (\<lambda>ln. strip ln \<noteq> []) lines) = []"
proof -
  let ?v = "v\<lparr>vs_request := stream_request\<rparr>"
  obtain cl where cl: "read_call (api_key (app_settings a)) (app_tokenizer a) (vs_request ?v) = Inr cl" "c_stream cl"
    "message_text (c_messages cl) = Inr (replicate 9000 (CHR ''w''))"
    using stream_request_accepted [of "app_tokenizer a"] a(3) by auto
  have "mock_tokens (replicate 9000 (CHR ''w'')) = 2250" by (simp add: mock_tokens_def)
  with stream_visit_served [OF a(1,2) cl, of loads dumps] lib(1) stored obtain m res a' where
    served: "serve_visit ops (mock_upstream loads dumps) ?v a =
      (Inr (EventStream (delta_events (\<lambda>d. Data (envelope (c_sid cl) m (vs_now v) d JNull)) True (map JStr mock_words) @
         [Data (final_event (c_sid cl) (vs_now v) res), StreamDone])), a')" by auto
  obtain rest where events: "delta_events (\<lambda>d. Data (envelope (c_sid cl) m (vs_now v) d JNull)) True (map JStr mock_words) =
      Data (envelope (c_sid cl) m (vs_now v) (first_delta ''fix'') JNull) # rest"
    by (simp add: mock_words_def first_delta_def)
  let ?first = "event_line dumps message (Data (envelope (c_sid cl) m (vs_now v) (first_delta ''fix'') JNull))"
  have "contains ''fix'' ?first" using contains_append lib(2) by (simp only: event_line.simps)
  moreover have "event_line dumps message StreamDone = ''data: [DONE]''" by simp
  ultimately have "stream_failures (map (event_line dumps message)
      ((Data (envelope (c_sid cl) m (vs_now v) (first_delta ''fix'') JNull) # rest) @
       [Data (final_event (c_sid cl) (vs_now v) res), StreamDone])) = []"
    by (simp add: stream_failures_def del: event_line.simps(1))
  with served show ?thesis by (simp add: events printed_lines del: event_line.simps)
qed

end

subsection \<open>The whole run\<close>

definition check_store :: "string \<Rightarrow> check_failure list" where
  \<comment> \<open>what the script says about the store the URL selects\<close>
  "check_store url = (if url = [] then [WrongStore] else [])"

lemma health_complaints:
  assumes "build_session_store connect (redis_url (check_settings (if url = [] then None else Some url))) L m = Inr st"
  shows "health_failures (health (built_ops api) version (mocked_start (check_settings u) c st tk)) = Inr (check_store url)"
  using assms
  by (auto simp: health_failures_def health_def json_item_def mocked_start_def create_gateway_def built_ops_def redis_ops_def
      mem_ops_def check_store_def build_session_store_def check_settings_def split: sum.splits if_splits)

lemma check_workers_eq: "check_workers = mock_workers (vllm_endpoints (check_settings u))"
proof -
  have "rstrip_slash ''http://localhost:8201'' = ''http://localhost:8201''" "rstrip_slash ''http://localhost:8202'' = ''http://localhost:8202''"
    by code_simp+
  then show ?thesis by (simp add: check_workers_def mock_workers_def check_settings_def)
qed

lemma create_check_app:
  assumes "build_session_store connect (redis_url (check_settings u)) 3600 (set_max_sessions (check_settings u)) = Inr st"
    and "affinity_settings (check_settings u) c B"
  shows "create_app connect tiktoken (check_settings u) None check_workers =
    Some (Inr (mocked_start (check_settings u) c st (new_tokenizer tiktoken (set_tokenizer (check_settings u)))))"
proof -
  have "finite_value (session_ttl_s (check_settings u)) = Some 3600" "set_backend (check_settings u) = ''vllm''"
    "vllm_endpoints (check_settings u) \<noteq> []"
    by (simp_all add: check_settings_def default_settings_def)
  with assms show ?thesis
    by (simp add: check_workers_eq create_app_def affinity_settings_def build_backend_def new_vllm_backend_def mocked_start_def)
qed

context redis_connection
begin

lemma drive_mocked_start:
  fixes url :: string
  defines "s \<equiv> check_settings (if url = [] then None else Some url)" and "c \<equiv> default_cluster_config\<lparr>cc_replicas := 2\<rparr>"
  assumes s: "affinity_settings s c 300000"
    and st: "build_session_store connect (redis_url s) L m = Inr st" "fresh_redis connect up reads" "1 \<le> m" "1 \<le> L"
    and refused: "length refused = 2"
    and accepted: "length accepted = 5" "timely storable 300000 (real_of_int (py_trunc L)) accepted"
    and lib: "\<forall>cached. codec loads dumps (mock_chunks (mock_usage 2250 cached))"
      "\<forall>sid m now. contains ''fix'' (dumps (envelope sid m now (first_delta ''fix'') JNull))"
    and stored: "storable (vs_now streamed + vs_elapsed streamed)"
  shows "\<exists>ob. drive_gateway (built_ops api) version loads dumps message refused accepted streamed (mocked_start s c st tk) = Inr ob \<and>
    all_failures ob = Inr (check_store url)"
proof -
  let ?up = "mock_upstream loads dumps" and ?a = "mocked_start s c st tk"
  have key: "api_key s = Some ''topsecret''" "vllm_endpoints s \<noteq> []"
    by (simp_all add: s_def check_settings_def default_settings_def)
  note fresh = fresh_store [OF st]
  from built_size [OF fresh(1)] fresh(2-4) obtain n st' where
    size: "store_size (built_ops api) st = (n, st')" "0 \<le> n" and inv: "built_inv st'"
    and st': "\<forall>t k. built_home_at t st' k = None \<and> built_seen_at t st' k = None" "\<forall>P. built_roomy P st' = built_roomy P st"
      "real_of_int (py_trunc L) \<le> built_ttl st'"
    by auto
  let ?a1 = "mocked_start s c st' tk"
  have a1: "?a\<lparr>app_gateway := (app_gateway ?a)\<lparr>g_store := st'\<rparr>, app_backend := app_backend ?a\<rparr> = ?a1"
    by (simp add: mocked_start_def create_gateway_def)
  from probe_mocked_start [OF key(2), of c st tk] obtain p where
    p: "probe_workers ?a = Some p" "p (app_backend ?a) = (True, app_backend ?a)" by blast
  have ready: "ready (built_ops api) (probe_workers ?a) (g_store (app_gateway ?a)) (app_backend ?a) =
      (200, JDict [(''ready'', JBool True), (''checks'', JDict [(''session_store'', JBool True), (''workers'', JBool True)])],
       st', app_backend ?a)"
    using size by (simp add: ready_def p create_gateway_def)
  have refused_calls: "converse (built_ops api) ?up (map2 (\<lambda>v (label, rq). v\<lparr>vs_request := rq\<rparr>) refused refused_requests) ?a1 =
      (replicate 2 (Inl (Rejected 401 ''invalid or missing bearer token'')), ?a1)"
    by (rule converse_refused) (simp_all add: key refused)
  have "5000 \<le> gpu_cache_tokens (hardware c)" "5000 \<le> dram_cache_tokens (hardware c)" "1 \<le> set_max_sessions s"
    by (simp_all add: c_def s_def check_settings_def default_settings_def default_cluster_config_def default_hardware_def)
  note calls = check_traffic [OF accepted key(1) this(3,1,2), where tk = tk] check_calls_parts [OF accepted(1)]
  let ?calls = "check_calls accepted"
  have "fst ` set ?calls \<subseteq> {''real-1''}" unfolding check_calls_def by auto
  then have "finite (fst ` set ?calls)" "int (card (fst ` set ?calls)) \<le> m"
    using card_mono [of "{''real-1''}" "fst ` set ?calls"] st(3) by (auto simp: finite_subset)
  then have "built_roomy (fst ` set ?calls) st'" using fresh(4) st'(2) by blast
  from built.traffic_hits [OF s calls(1) inv st'(1) this st'(3), of ?up, OF mock_upstream_simps(1)] obtain js a3 where
    run: "converse (built_ops api) ?up (session_visits accepted) ?a1 = (map (Inr \<circ> Answer) js, a3)"
      "all_hit (\<lambda>sid. None) (map (Pair ''real-1'') (map check_convo [0..<5])) js" "built.standing c a3" "app_settings a3 = s"
    unfolding calls(2,3) by blast
  from all_hit_session [OF run(2)] have turns: "session_failures js = Inr []" by simp
  have "wf_predictor_config (cc_predictor c)"
    by (simp add: c_def default_cluster_config_def default_predictor_config_def wf_predictor_config_def)
  from built.streamed_lines [OF run(3) this _ lib stored, of message] run(4) key(1) obtain stream a4 lines where
    stream: "serve_visit (built_ops api) ?up (streamed\<lparr>vs_request := stream_request\<rparr>) a3 = (stream, a4)"
      "response_lines dumps message stream = Inr lines" "stream_failures (filter (\<lambda>ln. strip ln \<noteq> []) lines) = []" by auto
  have "auth_failures (zip (map fst refused_requests) [401, 401]) = []"
    by (simp add: auth_failures_def refused_requests_def)
  moreover have "health_failures (health (built_ops api) version ?a) = Inr (check_store url)"
    unfolding s_def by (rule health_complaints) (use st(1) s_def in simp)
  moreover have "drive_gateway (built_ops api) version loads dumps message refused accepted streamed ?a =
      Inr \<lparr>ol_health = health (built_ops api) version ?a, ol_ready = 200,
        ol_unauthorized = zip (map fst refused_requests) [401, 401], ol_turns = js,
        ol_stream = filter (\<lambda>ln. strip ln \<noteq> []) lines\<rparr>"
    by (simp add: drive_gateway_def Let_def ready a1 refused_calls run(1) stream each_response_answers numeral_2_eq_2
        del: mocked_start_simps)
  ultimately show ?thesis by (simp add: all_failures_def turns stream(3))
qed

end

subsection \<open>Properties\<close>

text \<open>
  C3: A session finds its cache again, from the environment to the client, whatever other sessions do in
  the meantime. Take any settings the gateway accepts for vLLM workers with affinity routing, the
  application created from them, with the in-memory session map or with a Redis that works, in front
  of mock workers, and calls of any number of sessions whose handlers interleave in any way at their
  awaits: a session waits for its answer before it calls again, the prompts of each session grow by
  appending, its calls come no further apart than the policy retains a session for, no more calls are in
  flight at an arrival than the router tolerates at a home, the entries of all the sessions fit a replica
  and the sessions fit the in-memory map. Then every handler that ends answers, all calls of a session are
  answered by one replica, and what the replay client records from a call is a successful call with at
  least every earlier prompt of its session taken from the cache.
\<close>

theorem a_session_finds_its_cache_again:
  assumes settings: "affinity_settings s c B" "finite_value (session_ttl_s s) = Some L" "1 \<le> L"
      "lifetime \<le> real_of_int (py_trunc L)"
    and redis: "reliable_client api alive reads storable" "fresh_redis connect alive reads"
    and app: "create_app connect tiktoken s None (mock_workers (vllm_endpoints s)) = Some (Inr a)"
    and calls: "concurrent_traffic storable s c (app_tokenizer a) B lifetime quota calls start segs"
  shows "\<exists>home js. sv_answers (run_segments (built_ops api) (mock_upstream loads dumps) (call_visit calls) segs (fresh_server a)) =
      zip (endings segs) (map (Inr \<circ> Answer) js) \<and> length js = length (endings segs) \<and>
    (\<forall>n < length js. \<forall>turn. \<exists>rec. read_record (fst (calls ! (endings segs ! n))) turn (js ! n) latency = Inr rec \<and> cr_ok rec \<and>
       cr_turn rec = turn \<and> cr_replica rec = JInt (int (home (fst (calls ! (endings segs ! n))))) \<and>
       (\<forall>l < n. fst (calls ! (endings segs ! l)) = fst (calls ! (endings segs ! n)) \<longrightarrow>
          mock_tokens (snd (snd (calls ! (endings segs ! l)))) \<le> cr_cached_tokens rec))"
proof -
  let ?ts = "map (session_prompt calls) (endings segs)" and ?sid = "\<lambda>n. fst (calls ! (endings segs ! n))"
  let ?sv = "run_segments (built_ops api) (mock_upstream loads dumps) (call_visit calls) segs (fresh_server a)"
  from redis_connection.built_traffic_hits [OF redis_connection.intro [OF redis(1)] settings app redis(2) calls,
      of "mock_upstream loads dumps"] obtain js where
    run: "sv_answers ?sv = zip (endings segs) (map (Inr \<circ> Answer) js)" "all_hit (\<lambda>sid. None) ?ts js" by auto
  from all_hit_nth [OF run(2)] obtain home where len: "length js = length ?ts" and
    hits: "\<forall>n < length js. \<exists>cached. answered (fst (?ts ! n)) (home (fst (?ts ! n))) cached (js ! n) \<and>
       (\<forall>i t. None = Some (i :: nat, t) \<longrightarrow> mock_tokens t \<le> cached) \<and>
       (\<forall>l < n. fst (?ts ! l) = fst (?ts ! n) \<longrightarrow> mock_tokens (snd (?ts ! l)) \<le> cached)" by blast
  have "\<exists>rec. read_record (?sid n) turn (js ! n) latency = Inr rec \<and> cr_ok rec \<and>
       cr_turn rec = turn \<and> cr_replica rec = JInt (int (home (?sid n))) \<and>
       (\<forall>l < n. ?sid l = ?sid n \<longrightarrow> mock_tokens (snd (snd (calls ! (endings segs ! l)))) \<le> cr_cached_tokens rec)"
    if n: "n < length js" for n turn
  proof -
    have at: "fst (?ts ! l) = ?sid l" "snd (?ts ! l) = snd (snd (calls ! (endings segs ! l)))" if "l \<le> n" for l
      using that n len by (simp_all add: session_prompt_def)
    from hits n obtain cached where "answered (fst (?ts ! n)) (home (fst (?ts ! n))) cached (js ! n)"
        "\<forall>l < n. fst (?ts ! l) = fst (?ts ! n) \<longrightarrow> mock_tokens (snd (?ts ! l)) \<le> cached" by blast
    then have cached: "answered (?sid n) (home (?sid n)) cached (js ! n)"
        "\<forall>l < n. ?sid l = ?sid n \<longrightarrow> mock_tokens (snd (snd (calls ! (endings segs ! l)))) \<le> cached"
      using at by simp_all
    from cached(1) obtain prompt where "read_record (?sid n) turn (js ! n) latency =
        Inr \<lparr>cr_session_id = ?sid n, cr_turn = turn, cr_prompt_tokens = prompt, cr_cached_tokens = cached,
          cr_latency_ms = latency, cr_replica = JInt (int (home (?sid n))), cr_ok = True\<rparr>"
      unfolding answered_def by blast
    with cached(2) show ?thesis by simp
  qed
  moreover have "length js = length (endings segs)" using len by simp
  ultimately show ?thesis using run(1) by (intro exI [of _ home] exI [of _ js]) blast
qed

text \<open>
  C14: The integration check passes against the code it checks. With the environment the script
  sets and a Redis that works, the gateway starts in front of the two workers, refuses the calls
  without the token, reports ready, serves the script's growing session on one replica with at
  least three cache hits, and streams the worker's words to the end marker, so the script exits
  with 0 and leaves no worker running. With an empty Redis URL the in-memory map is used, the
  script complains about that and exits with 1.
  Of the JSON library it needs that the worker's chunks are read back as they were written and
  that the text of a written chunk shows the worker's first word.
\<close>

theorem integration_check_passes:
  fixes base :: env
  assumes unset: "\<forall>suffix. base (''AGENTSERVE_'' @ suffix) = None"
    and host: "\<forall>k. advancing d (ch_clock host k)" "0 < d" "\<forall>n < 2. ch_starts host n \<and> ch_obeys host n" "workers_up host"
    and url: "url = check_redis_url base"
    and redis: "reliable_client (lib_redis lib) alive reads storable" "fresh_redis (lib_connect lib) alive reads"
      "url \<noteq> [] \<longrightarrow> (\<exists>cl. lib_connect lib url = Inr cl)"
    and json: "\<forall>cached. codec (lib_loads lib) (lib_dumps lib) (mock_chunks (mock_usage 2250 cached))"
      "\<forall>sid m now. contains ''fix'' (lib_dumps lib (envelope sid m now (first_delta ''fix'') JNull))"
    and refused: "length refused = 2" and accepted: "length accepted = 5" "timely storable 300000 3600 accepted"
    and streamed: "storable (vs_now streamed + vs_elapsed streamed)"
  shows "\<exists>evs. integration_check lib host scripts base version refused accepted streamed =
      Some (Inr (if url = [] then 1 else 0), evs) \<and> (\<forall>n. \<not> check_alive host evs n)"
proof -
  let ?s = "check_settings (if url = [] then None else Some url)" and ?c = "default_cluster_config\<lparr>cc_replicas := 2\<rparr>"
  have s: "affinity_settings ?s ?c 300000" by (rule affinity_check_settings [OF unset])
  have "\<exists>st. build_session_store (lib_connect lib) (redis_url ?s) 3600 (set_max_sessions ?s) = Inr st"
    using redis(3) by (auto simp: build_session_store_def check_settings_def)
  then obtain st where st: "build_session_store (lib_connect lib) (redis_url ?s) 3600 (set_max_sessions ?s) = Inr st" by blast
  note app = create_check_app [OF st s, of "lib_tiktoken lib"]
  have "1 \<le> set_max_sessions ?s" "(1::real) \<le> 3600" "real_of_int (py_trunc 3600) = 3600"
    by (simp_all add: check_settings_def default_settings_def py_trunc_def)
  with redis_connection.drive_mocked_start [OF redis_connection.intro [OF redis(1)] s st redis(2) _ _ refused accepted(1) _ json streamed,
      of version "lib_str lib"] accepted(2) obtain ob where
    ob: "drive_gateway (built_ops (lib_redis lib)) version (lib_loads lib) (lib_dumps lib) (lib_str lib) refused accepted streamed
      (mocked_start ?s ?c st (new_tokenizer (lib_tiktoken lib) (set_tokenizer ?s))) = Inr ob"
      "all_failures ob = Inr (check_store url)" by metis
  with load_check_env [OF unset] app have
    "gateway_checks lib base url version refused accepted streamed = Some (Inr (if url = [] then 1 else 0))"
    by (simp add: gateway_checks_def check_store_def)
  moreover have starts: "ch_starts host 0" "ch_starts host 1" using host(3) by simp_all
  moreover from check_main_started [OF host(1,2) starts, of scripts "Inr (if url = [] then 1 else 0) :: script_error + int"]
      host(3,4) obtain evs where
    "check_main host scripts (Inr (if url = [] then 1 else 0) :: script_error + int) =
       Some (Inr (if url = [] then 1 else 0), evs)" "\<forall>n. \<not> check_alive host evs n" by auto
  ultimately show ?thesis by (simp add: integration_check_def url)
qed

definition demo_visit :: "nat \<Rightarrow> visit" where
  "demo_visit k = (let t = real k in
     \<lparr>vs_request = check_request k, vs_clocks = (t, t, t), vs_clock = t + 1 / 2, vs_now = 1000 * t, vs_elapsed = 400\<rparr>)"

lemma demo_stored: "k \<le> 5 \<Longrightarrow> short_decimal (vs_now (demo_visit k) + vs_elapsed (demo_visit k))"
proof -
  assume "k \<le> 5"
  then have "short_decimal (real_of_int (1000 * int k + 400))" by (intro integer_short_decimal) simp
  then show ?thesis by (simp add: demo_visit_def Let_def)
qed

lemma demo_timely: "timely short_decimal 300000 3600 (map demo_visit [0..<5])"
proof -
  have "hd (map demo_visit [0..<5]) = demo_visit 0" by (simp add: hd_map)
  moreover have "\<forall>v \<in> set (map demo_visit [0..<5]). short_decimal (vs_now v + vs_elapsed v)" using demo_stored by auto
  ultimately show ?thesis by (auto simp: timely_def demo_visit_def Let_def simp del: upt_Suc)
qed

text \<open>A small JSON codec for the chunks of the mock worker: the text of a chunk, or the usage's cached count.\<close>

definition demo_dumps :: "json \<Rightarrow> string" where
  "demo_dumps j =
     (case delta_content j of
        Inr (JStr w) \<Rightarrow> w
      | _ \<Rightarrow> (case j of
           JDict [(c, cs), (u, JDict [p, q, (d, JDict [(k, JInt cached)])])] \<Rightarrow> ''u'' @ py_str_int cached @ ''u''
         | _ \<Rightarrow> ''u''))"

definition demo_loads :: "string \<Rightarrow> json option" where
  "demo_loads s =
     (let words = take 4 (mock_chunks JNull)
      in case map_of (zip [''fix'', ''ed'', ''the'', ''bug''] words) s of
           Some j \<Rightarrow> Some j
         | None \<Rightarrow> map_option (\<lambda>n. last (mock_chunks (mock_usage 2250 n))) (py_int (butlast (tl s))))"

lemma demo_codec: "codec demo_loads demo_dumps (mock_chunks (mock_usage 2250 cached))"
proof -
  have words: "strip ''fix'' = ''fix''" "strip ''ed '' = ''ed''" "strip ''the '' = ''the''" "strip ''bug'' = ''bug''"
    by code_simp+
  let ?u = "''u'' @ py_str_int cached @ ''u''"
  have "\<not> is_space (CHR ''u'')" by (simp add: is_space_def code_def)
  then have u: "strip ?u = ?u" by (intro strip_id) simp_all
  have read: "demo_loads ?u = Some (last (mock_chunks (mock_usage 2250 cached)))"
    by (simp add: demo_loads_def mock_chunks_def Let_def py_int_str)
  show ?thesis
    using read by (simp add: codec_def mock_chunks_def mock_usage_def demo_dumps_def delta_content_def json_first_def json_or_def
        words u [simplified] demo_loads_def)
qed

lemma demo_first_word: "contains ''fix'' (demo_dumps (envelope sid m now (first_delta ''fix'') JNull))"
proof -
  have "demo_dumps (envelope sid m now (first_delta ''fix'') JNull) = ''fix''"
    by (simp add: demo_dumps_def envelope_def first_delta_def delta_content_def json_first_def json_or_def)
  then show ?thesis unfolding contains_def by (intro bexI [of _ 0]) simp_all
qed

lemma demo_redis: "fresh_redis (\<lambda>u. Inr []) (\<lambda>c. True) map_of"
  by (simp add: fresh_redis_def)

definition demo_libraries :: "(string, string) dict libraries" where
  "demo_libraries =
     \<lparr>lib_connect = (\<lambda>u. Inr []), lib_redis = dict_client, lib_tiktoken = None,
      lib_loads = demo_loads, lib_dumps = demo_dumps, lib_str = (\<lambda>e. ''upstream'')\<rparr>"

lemma integration_check_passes_witness:
  "\<exists>evs. integration_check demo_libraries (demo_check_host (\<lambda>n. True)) ''scripts'' (\<lambda>name. None)
     ''0.1.0'' (map demo_visit [0..<2]) (map demo_visit [0..<5]) (demo_visit 5) = Some (Inr 0, evs) \<and>
     \<not> check_alive (demo_check_host (\<lambda>n. True)) evs 0"
proof -
  have "\<forall>n < 2. ch_starts (demo_check_host (\<lambda>n. True)) n \<and> ch_obeys (demo_check_host (\<lambda>n. True)) n"
    by (simp add: demo_check_host_def)
  then show ?thesis
    using integration_check_passes [where base = "\<lambda>name. None" and d = 1 and host = "demo_check_host (\<lambda>n. True)"
        and lib = demo_libraries and alive = "\<lambda>c. True" and reads = map_of and storable = short_decimal
        and url = "''redis://localhost:6399/1''" and refused = "map demo_visit [0..<2]" and accepted = "map demo_visit [0..<5]"
        and streamed = "demo_visit 5" and scripts = "''scripts''" and version = "''0.1.0''"]
      demo_host_clock demo_host_up dict_client_reliable demo_redis demo_timely demo_stored [of 5] demo_codec demo_first_word
    by (auto simp: demo_libraries_def check_redis_url_def)
qed

definition demo_call :: "nat \<Rightarrow> string \<Rightarrow> nat \<Rightarrow> session_call" where
  "demo_call n sid k =
     (sid, (demo_visit n)\<lparr>vs_request := (check_request k)\<lparr>rq_session_id := Some sid\<rparr>, vs_clock := real n + 3 / 2\<rparr>, check_convo k)"

definition demo_calls :: "session_call list" where
  \<comment> \<open>two sessions\<close>
  "demo_calls = [demo_call 0 ''a'' 0, demo_call 1 ''b'' 0, demo_call 2 ''a'' 1, demo_call 3 ''b'' 1]"

definition demo_segments :: "segment list" where
  \<comment> \<open>every call arrives while the one before is in flight\<close>
  "demo_segments = [Arrives 0, Arrives 1, Reaches 1, Reaches 0, Ends 0, Arrives 2, Ends 1, Arrives 3, Reaches 3, Reaches 2, Ends 2, Ends 3]"

lemma demo_call_simps [simp]:
  "fst (demo_call n sid k) = sid" "snd (snd (demo_call n sid k)) = check_convo k"
  "vs_clocks (fst (snd (demo_call n sid k))) = (real n, real n, real n)" "vs_clock (fst (snd (demo_call n sid k))) = real n + 3 / 2"
  by (simp_all add: demo_call_def demo_visit_def Let_def)

lemma demo_call_good:
  assumes "n \<le> 5" "k \<le> 4" "sid \<noteq> []" "length sid \<le> 256"
  shows "good_visit short_decimal (\<lambda>sid. 5000) (Some ''topsecret'') tk sid (fst (snd (demo_call n sid k))) (check_convo k)"
  using session_request_accepted [OF assms(3,4), of tk k] demo_stored [OF assms(1)] check_convo_fits [OF assms(2)]
  by (simp add: good_visit_def demo_call_def demo_visit_def Let_def)

lemma demo_calls_interleaved: "2 \<le> limit \<Longrightarrow> interleaved 300000 limit demo_calls (\<lambda>sid. None) [] 0 demo_segments"
proof -
  assume "2 \<le> limit"
  moreover have "Sublist.prefix (check_convo 0) (check_convo (Suc 0))"
    by (simp only: check_convo.simps(2)) (rule Sublist.prefixI, rule refl)
  ultimately show ?thesis
    by (simp add: demo_segments_def demo_calls_def demo_call_def demo_visit_def Let_def numeral_2_eq_2 numeral_3_eq_3
        del: check_convo.simps)
qed

lemma demo_calls_traffic:
  "concurrent_traffic short_decimal (check_settings url) (default_cluster_config\<lparr>cc_replicas := 2\<rparr>) tk 300000 3600
     (\<lambda>sid. 5000) demo_calls 0 demo_segments"
proof -
  have "\<forall>c \<in> set demo_calls. good_visit short_decimal (\<lambda>sid. 5000) (Some ''topsecret'') tk (fst c) (fst (snd c)) (snd (snd c)) \<and>
      vs_clock (fst (snd c)) \<le> 0 + 3600"
    by (simp add: demo_calls_def demo_call_good del: check_convo.simps)
  moreover have "fst ` set demo_calls = {''a'', ''b''}" by (auto simp: demo_calls_def)
  moreover have "fitting (\<lambda>sid. 5000) {''a'', ''b''} (hardware (default_cluster_config\<lparr>cc_replicas := 2\<rparr>))"
    by (simp add: fitting_def default_cluster_config_def default_hardware_def)
  moreover have "api_key (check_settings url) = Some ''topsecret''" "int (card {''a'', ''b''}) \<le> set_max_sessions (check_settings url)"
    by (simp_all add: check_settings_def default_settings_def)
  moreover have "2 \<le> affinity_queue_limit (cc_policy (default_cluster_config\<lparr>cc_replicas := 2\<rparr>))"
    by (simp add: default_cluster_config_def default_policy_config_def)
  ultimately show ?thesis using demo_calls_interleaved by (simp add: concurrent_traffic_def case_prod_beta)
qed

lemma a_session_finds_its_cache_again_witness:
  "\<exists>s (a :: ((string, string) dict built_store, mock_cluster) app) home js.
     create_app (\<lambda>u. Inr []) None s None (mock_workers (vllm_endpoints s)) = Some (Inr a) \<and> multi_pod_safe s \<and>
     sv_answers (run_segments (built_ops dict_client) (mock_upstream demo_loads demo_dumps) (call_visit demo_calls) demo_segments
       (fresh_server a)) = zip [0, 1, 2, 3] (map (Inr \<circ> Answer) js) \<and> length js = 4 \<and>
     (\<exists>rec. read_record ''b'' 1 (js ! 3) 400 = Inr rec \<and> cr_ok rec \<and> cr_replica rec = JInt (int (home ''b'')) \<and>
        2001 \<le> cr_cached_tokens rec)"
proof -
  let ?s = "check_settings (Some ''redis'')" and ?c = "default_cluster_config\<lparr>cc_replicas := 2\<rparr>"
    and ?connect = "\<lambda>u. Inr [] :: client_error + (string, string) dict"
  have s: "affinity_settings ?s ?c 300000" using affinity_check_settings [of "\<lambda>name. None" "''redis''"] by simp
  have ttl: "finite_value (session_ttl_s ?s) = Some 3600" "(1::real) \<le> 3600" "(3600::real) \<le> real_of_int (py_trunc 3600)"
    by (simp_all add: check_settings_def default_settings_def py_trunc_def)
  obtain a where a: "create_app ?connect None ?s None (mock_workers (vllm_endpoints ?s)) = Some (Inr a)"
    using create_check_app [OF _ s, of ?connect _ None] check_workers_eq
    by (fastforce simp: build_session_store_def check_settings_def)
  have ends: "endings demo_segments = [0, 1, 2, 3]" by (simp add: demo_segments_def)
  from a_session_finds_its_cache_again [OF s ttl dict_client_reliable demo_redis a demo_calls_traffic, of demo_loads demo_dumps 400]
  obtain home js where run: "sv_answers (run_segments (built_ops dict_client) (mock_upstream demo_loads demo_dumps)
      (call_visit demo_calls) demo_segments (fresh_server a)) = zip [0, 1, 2, 3] (map (Inr \<circ> Answer) js)"
    "length js = length [0 :: nat, 1, 2, 3]"
    "\<forall>n < length js. \<forall>turn. \<exists>rec. read_record (fst (demo_calls ! ([0, 1, 2, 3] ! n))) turn (js ! n) 400 = Inr rec \<and> cr_ok rec \<and>
       cr_turn rec = turn \<and> cr_replica rec = JInt (int (home (fst (demo_calls ! ([0, 1, 2, 3] ! n))))) \<and>
       (\<forall>l < n. fst (demo_calls ! ([0, 1, 2, 3] ! l)) = fst (demo_calls ! ([0, 1, 2, 3] ! n)) \<longrightarrow>
          mock_tokens (snd (snd (demo_calls ! ([0, 1, 2, 3] ! l)))) \<le> cr_cached_tokens rec)"
    unfolding ends by blast
  have demo: "fst (demo_calls ! 3) = ''b''" "fst (demo_calls ! 1) = ''b''" "snd (snd (demo_calls ! 1)) = check_convo 0"
    "[0, 1, 2, 3] ! 3 = (3 :: nat)" "[0, 1, 2, 3] ! 1 = (1 :: nat)"
    by (simp_all add: demo_calls_def demo_call_def numeral_3_eq_3)
  have "3 < length js" using run(2) by simp
  with run(3) have "\<exists>rec. read_record (fst (demo_calls ! ([0, 1, 2, 3] ! 3))) 1 (js ! 3) 400 = Inr rec \<and> cr_ok rec \<and>
       cr_turn rec = 1 \<and> cr_replica rec = JInt (int (home (fst (demo_calls ! ([0, 1, 2, 3] ! 3))))) \<and>
       (\<forall>l < 3. fst (demo_calls ! ([0, 1, 2, 3] ! l)) = fst (demo_calls ! ([0, 1, 2, 3] ! 3)) \<longrightarrow>
          mock_tokens (snd (snd (demo_calls ! ([0, 1, 2, 3] ! l)))) \<le> cr_cached_tokens rec)" by blast
  then obtain rec where rec: "read_record ''b'' 1 (js ! 3) 400 = Inr rec" "cr_ok rec" "cr_replica rec = JInt (int (home ''b''))"
    "\<forall>l < 3. fst (demo_calls ! ([0, 1, 2, 3] ! l)) = ''b'' \<longrightarrow>
       mock_tokens (snd (snd (demo_calls ! ([0, 1, 2, 3] ! l)))) \<le> cr_cached_tokens rec"
    unfolding demo(1,4) by blast
  have "mock_tokens (snd (snd (demo_calls ! 1))) \<le> cr_cached_tokens rec"
    using rec(4) [rule_format, of 1, unfolded demo(5), OF _ demo(2)] by simp
  then have "2001 \<le> cr_cached_tokens rec" unfolding demo(3) check_convo_tokens by simp
  moreover have "multi_pod_safe ?s" by (simp add: multi_pod_safe_def check_settings_def)
  moreover have "length js = 4" using run(2) by simp
  ultimately show ?thesis using a run(1) rec(1-3) by blast
qed

end
